(* ===== verification/Prelude.thy ===== *)
theory Prelude
  imports Main "HOL-Library.Word" "HOL-Library.Signed_Division" "HOL-Library.Sublist"
begin

text \<open>
  Shared vocabulary of the development: the machine integer types, the control flow of a C
  function body (fall through, early \<open>return\<close>, trap), the \<open>for\<close> loop over a range of indices
  with early exit, and the generic lemmas the component theories use.
\<close>

unbundle bit_operations_syntax

section \<open>Machine integers\<close>

type_synonym u8 = "8 word"
type_synonym u16 = "16 word"
type_synonym u32 = "32 word"
type_synonym u64 = "64 word"

text \<open>The code's \<open>COUNTER\<close> is \<open>unsigned long long\<close> (include/define.h).\<close>

type_synonym counter = u64

text \<open>Values a C object of an unsigned type takes when an integer is assigned to it.\<close>

definition to_u16 :: "int \<Rightarrow> int" where
  "to_u16 x = x mod 65536"

definition to_u32 :: "int \<Rightarrow> int" where
  "to_u32 x = x mod 4294967296"

named_theorems flow_simps \<open>equations of the control-flow combinators\<close>
named_theorems ring_intros \<open>preservation of the ring shape by the list operations\<close>
named_theorems frame_simps \<open>what an operation leaves unchanged\<close>

lemma to_u16_range: "0 \<le> to_u16 x" "to_u16 x < 65536"
  by (simp_all add: to_u16_def)

lemma to_u16_small [simp]: "0 \<le> x \<Longrightarrow> x < 65536 \<Longrightarrow> to_u16 x = x"
  by (simp add: to_u16_def)

lemma to_u32_range: "0 \<le> to_u32 x" "to_u32 x < 4294967296"
  by (simp_all add: to_u32_def)

lemma to_u32_small [simp]: "0 \<le> x \<Longrightarrow> x < 4294967296 \<Longrightarrow> to_u32 x = x"
  by (simp add: to_u32_def)

section \<open>Control flow of a C function body\<close>

text \<open>
  A statement either falls through (\<open>Next\<close>), returns from the enclosing function with a value
  (\<open>Return\<close>), ends the whole process by \<open>exit\<close> (\<open>Exit\<close>), or raises a hardware trap such as an
  integer division by zero (\<open>Trap\<close>). The state reached is kept in every case, since the effects
  done so far have happened. A function body that ends in \<open>Next\<close> ran off its end.
\<close>

datatype ('r, 's) flow = Next 's | Return 'r 's | Exit int 's | Trap 's

fun and_then :: "('r, 's) flow \<Rightarrow> ('s \<Rightarrow> ('r, 's) flow) \<Rightarrow> ('r, 's) flow" where
  "and_then (Next s) k = k s"
| "and_then (Return r s) k = Return r s"
| "and_then (Exit c s) k = Exit c s"
| "and_then (Trap s) k = Trap s"

fun flow_state :: "('r, 's) flow \<Rightarrow> 's" where
  "flow_state (Next s) = s"
| "flow_state (Return r s) = s"
| "flow_state (Exit c s) = s"
| "flow_state (Trap s) = s"

text \<open>A \<open>for\<close> loop whose index runs over a list, left by the first \<open>return\<close> or trap of its body.\<close>

fun for_each :: "('a \<Rightarrow> 's \<Rightarrow> ('r, 's) flow) \<Rightarrow> 'a list \<Rightarrow> 's \<Rightarrow> ('r, 's) flow" where
  "for_each f [] s = Next s"
| "for_each f (x # xs) s = and_then (f x s) (for_each f xs)"

declare and_then.simps [flow_simps] for_each.simps [flow_simps]

lemma and_then_assoc:
  "and_then (and_then m f) g = and_then m (\<lambda>s. and_then (f s) g)"
  by (cases m) simp_all

lemma for_each_append:
  "for_each f (xs @ ys) s = and_then (for_each f xs s) (for_each f ys)"
proof (induction xs arbitrary: s)
  case Nil
  then show ?case by simp
next
  case (Cons x xs)
  then show ?case by (cases "f x s") simp_all
qed

text \<open>
  The rule every loop proof of the frame generators uses: when each iteration falls through
  and extends the observation \<open>obs\<close> of the state by \<open>out x\<close>, the loop falls through and extends
  it by the concatenation of the outputs, in order.
\<close>

lemma for_each_collect:
  assumes step: "\<And>x s. x \<in> set xs \<Longrightarrow> P s \<Longrightarrow> \<exists>s'. f x s = Next s' \<and> P s' \<and> obs s' = obs s @ out x"
    and "P s"
  shows "\<exists>s'. for_each f xs s = Next s' \<and> P s' \<and> obs s' = obs s @ concat (map out xs)"
  using assms
proof (induction xs arbitrary: s)
  case Nil
  then show ?case by simp
next
  case (Cons x xs)
  from Cons.prems obtain s1 where 1: "f x s = Next s1" "P s1" "obs s1 = obs s @ out x"
    by (meson list.set_intros(1))
  from Cons.IH [OF Cons.prems(1) 1(2)] obtain s2 where
    "for_each f xs s1 = Next s2" "P s2" "obs s2 = obs s1 @ concat (map out xs)"
    by auto
  with 1 show ?case by auto
qed

section \<open>Procedures that emit a sequence of observations\<close>

text \<open>
  \<open>emits obs I r C m os\<close>: from every state with the invariant \<open>I\<close>, the statement \<open>m\<close> either falls
  through, keeps the invariant and has extended the observation by \<open>os\<close>, or returns \<open>r\<close> early
  after a strict prefix of \<open>os\<close>; the latter only if \<open>C\<close> holds.
\<close>

definition emits ::
  "('s \<Rightarrow> 'o list) \<Rightarrow> ('s \<Rightarrow> bool) \<Rightarrow> 'r \<Rightarrow> bool \<Rightarrow> ('s \<Rightarrow> ('r, 's) flow) \<Rightarrow> 'o list \<Rightarrow> bool" where
  "emits obs I r C m os \<longleftrightarrow> (\<forall>s. I s \<longrightarrow>
     (\<exists>s'. m s = Next s' \<and> I s' \<and> obs s' = obs s @ os) \<or>
     (C \<and> (\<exists>s' p. m s = Return r s' \<and> strict_prefix p os \<and> obs s' = obs s @ p)))"

lemma emits_cases:
  assumes "emits obs I r C m os" "I s"
  obtains (falls) s' where "m s = Next s'" "I s'" "obs s' = obs s @ os"
  | (returns) s' p where C "m s = Return r s'" "strict_prefix p os" "obs s' = obs s @ p"
  using assms unfolding emits_def by metis

lemma emits_complete:
  assumes "emits obs I r C m os" "\<not> C" "I s"
  shows "\<exists>s'. m s = Next s' \<and> I s' \<and> obs s' = obs s @ os"
  using assms unfolding emits_def by blast

lemma emits_then:
  assumes "emits obs I r C m os" "emits obs I r C k os'"
  shows "emits obs I r C (\<lambda>s. and_then (m s) k) (os @ os')"
  unfolding emits_def
proof (intro allI impI, goal_cases)
  case (1 s)
  from assms(1) 1 show ?case
  proof (cases rule: emits_cases)
    case (falls s1)
    from assms(2) falls(2) show ?thesis
    proof (cases rule: emits_cases)
      case (returns s' p)
      then have "strict_prefix (os @ p) (os @ os')" by (simp add: strict_prefix_def)
      then show ?thesis using falls returns by (metis and_then.simps(1) append_assoc)
    qed (use falls in simp)
  next
    case (returns s' p)
    then have "strict_prefix p (os @ os')"
      by (metis prefix_order.less_le_trans prefixI)
    then show ?thesis using returns by auto
  qed
qed

lemma emits_for_each:
  assumes "\<And>x. x \<in> set xs \<Longrightarrow> emits obs I r C (f x) (out x)"
  shows "emits obs I r C (for_each f xs) (concat (map out xs))"
  using assms
proof (induction xs)
  case Nil
  then show ?case by (simp add: emits_def)
next
  case (Cons x xs)
  then have "emits obs I r C (\<lambda>s. and_then (f x s) (for_each f xs)) (out x @ concat (map out xs))"
    by (intro emits_then) auto
  then show ?case by (simp add: emits_def)
qed

section \<open>State machines\<close>

inductive reachable :: "('s \<Rightarrow> bool) \<Rightarrow> ('s \<Rightarrow> 's \<Rightarrow> bool) \<Rightarrow> 's \<Rightarrow> bool" for I R where
  start: "I s \<Longrightarrow> reachable I R s"
| move: "reachable I R s \<Longrightarrow> R s s' \<Longrightarrow> reachable I R s'"

text \<open>The contract of an invariant: the first states have it and every step keeps it.\<close>

locale invariant_of =
  fixes initial :: "'s \<Rightarrow> bool" and step :: "'s \<Rightarrow> 's \<Rightarrow> bool" and inv :: "'s \<Rightarrow> bool"
  assumes initial_inv: "initial s \<Longrightarrow> inv s"
    and step_inv: "step s s' \<Longrightarrow> inv s \<Longrightarrow> inv s'"
begin

lemma reachable_inv: "reachable initial step s \<Longrightarrow> inv s"
proof (induction rule: reachable.induct)
  case (start s)
  then show ?case by (rule initial_inv)
next
  case (move s s')
  then show ?case by (blast intro: step_inv)
qed

end

section \<open>Loops with fuel\<close>

text \<open>\<open>settles f x\<close>: from some amount of fuel on, the fuelled computation \<open>f\<close> has the value \<open>x\<close>.\<close>

definition settles :: "(nat \<Rightarrow> 'a option) \<Rightarrow> 'a \<Rightarrow> bool" where
  "settles f x \<longleftrightarrow> (\<exists>F. \<forall>n\<ge>F. f n = Some x)"

lemma settles_const [simp]: "settles (\<lambda>n. Some x) x"
  by (simp add: settles_def)

lemma settles_Suc:
  assumes "settles (\<lambda>n. f (Suc n)) x"
  shows "settles f x"
proof -
  from assms obtain F where F: "\<And>n. n \<ge> F \<Longrightarrow> f (Suc n) = Some x" by (auto simp: settles_def)
  have "f n = Some x" if "n \<ge> Suc F" for n
    using F [of "n - 1"] that by simp
  then show ?thesis unfolding settles_def by blast
qed

lemma settles_shift:
  assumes "settles f x"
  shows "settles (\<lambda>n. f (Suc n)) x"
proof -
  from assms obtain F where "\<And>n. n \<ge> F \<Longrightarrow> f n = Some x" by (auto simp: settles_def)
  then have "\<forall>n\<ge>F. f (Suc n) = Some x" by simp
  then show ?thesis unfolding settles_def by blast
qed

lemma settles_bind:
  assumes "settles f y" "settles (\<lambda>n. g n y) x"
    and "\<And>n. f n = Some y \<Longrightarrow> h n = g n y"
  shows "settles h x"
proof -
  from assms obtain F G where "\<And>n. n \<ge> F \<Longrightarrow> f n = Some y" "\<And>n. n \<ge> G \<Longrightarrow> g n y = Some x"
    by (auto simp: settles_def)
  then have "\<forall>n\<ge>max F G. h n = Some x" using assms(3) by simp
  then show ?thesis unfolding settles_def by blast
qed

lemma settles_unique: "settles f x \<Longrightarrow> settles f y \<Longrightarrow> x = y"
  by (metis linorder_linear option.inject settles_def)

section \<open>Lists\<close>

lemma butlast_append_singleton [simp]: "butlast (xs @ [x]) = xs"
  by simp

lemma sum_list_replicate_nat [simp]: "sum_list (replicate n (k::nat)) = n * k"
  by (induction n) simp_all

lemma map_upt_nth: "map (\<lambda>i. F (xs ! i)) [0..<length xs] = map F xs"
  by (rule nth_equalityI) simp_all

text \<open>Loops over the indices of arrays, as loops over their elements.\<close>

lemma concat_upt_nth2:
  assumes "m = length xs" "n = length ys"
  shows "concat (map (\<lambda>j. concat (map (\<lambda>k. G (xs ! j) (ys ! k)) [0..<n])) [0..<m]) =
    concat (map (\<lambda>x. concat (map (G x) ys)) xs)"
proof -
  have "map (\<lambda>k. G x (ys ! k)) [0..<n] = map (G x) ys" for x
    unfolding assms by (rule map_upt_nth)
  then have "concat (map (\<lambda>j. concat (map (\<lambda>k. G (xs ! j) (ys ! k)) [0..<n])) [0..<m]) =
      concat (map (\<lambda>j. concat (map (G (xs ! j)) ys)) [0..<m])"
    by simp
  then show ?thesis unfolding assms by (simp add: map_upt_nth [where F = "\<lambda>x. concat (map (G x) ys)"])
qed

lemma map_upt_take: "n \<le> length xs \<Longrightarrow> map (\<lambda>i. F (xs ! i)) [0..<n] = map F (take n xs)"
  by (rule nth_equalityI) simp_all

lemma emits_index:
  assumes "\<And>x. emits obs I r C (f x) (out x)" "n \<le> length xs"
  shows "emits obs I r C (for_each (\<lambda>j. f (xs ! j)) [0..<n]) (concat (map out (take n xs)))"
proof -
  have "emits obs I r C (for_each (\<lambda>j. f (xs ! j)) [0..<n]) (concat (map (\<lambda>j. out (xs ! j)) [0..<n]))"
    by (intro emits_for_each assms(1))
  then show ?thesis using map_upt_take [OF assms(2), of out] by simp
qed

lemma emits_index1:
  assumes "\<And>x. emits obs I r C (f x) [g x]" "n \<le> length xs"
  shows "emits obs I r C (for_each (\<lambda>j. f (xs ! j)) [0..<n]) (map g (take n xs))"
proof -
  have "concat (map (\<lambda>x. [g x]) ys) = map g ys" for ys by (induction ys) simp_all
  then show ?thesis using emits_index [of obs I r C f "\<lambda>x. [g x]" n xs] assms by simp
qed

lemma emits_repeat:
  assumes "emits obs I r C f [y]"
  shows "emits obs I r C (for_each (\<lambda>j. f) [0..<n]) (replicate n y)"
proof -
  have "concat (map (\<lambda>j. [y]) ys) = replicate (length ys) y" for ys :: "nat list"
    by (induction ys) simp_all
  then show ?thesis using emits_for_each [of "[0..<n]" obs I r C "\<lambda>j. f" "\<lambda>j. [y]"] assms by simp
qed

end
