(* ===== verification/Linked_List.thy ===== *)
theory Linked_List
  imports Prelude
begin

text \<open>
  The intrusive doubly linked lists of include/mylist.h and network/list.h. A store maps the
  address of a node to the two pointers inside it; the operations are the field assignments of
  the C code, in the order the code makes them. \<open>ring l h xs\<close> says that the header at address
  \<open>h\<close> and the entries \<open>xs\<close> form a circle in the store \<open>l\<close>.
\<close>

type_synonym addr = nat

record links =
  Flink :: "addr \<Rightarrow> addr"
  Blink :: "addr \<Rightarrow> addr"

definition set_Flink :: "addr \<Rightarrow> addr \<Rightarrow> links \<Rightarrow> links" where
  "set_Flink a v l = l\<lparr>Flink := (Flink l)(a := v)\<rparr>"

definition set_Blink :: "addr \<Rightarrow> addr \<Rightarrow> links \<Rightarrow> links" where
  "set_Blink a v l = l\<lparr>Blink := (Blink l)(a := v)\<rparr>"

section \<open>Operations of include/mylist.h\<close>

definition InitializeListHead :: "addr \<Rightarrow> links \<Rightarrow> links" where
  "InitializeListHead h l = set_Flink h h (set_Blink h h l)"

definition IsListEmpty :: "links \<Rightarrow> addr \<Rightarrow> bool" where
  "IsListEmpty l h \<longleftrightarrow> Flink l h = h"

definition RemoveEntryList :: "addr \<Rightarrow> links \<Rightarrow> bool \<times> links" where
  "RemoveEntryList e l =
     (let F = Flink l e;
          B = Blink l e;
          l1 = set_Flink B F l;
          l2 = set_Blink F B l1
      in (F = B, l2))"

definition RemoveHeadList :: "addr \<Rightarrow> links \<Rightarrow> addr \<times> links" where
  "RemoveHeadList h l =
     (let e = Flink l h;
          F = Flink l e;
          l1 = set_Flink h F l;
          l2 = set_Blink F h l1
      in (e, l2))"

definition RemoveTailList :: "addr \<Rightarrow> links \<Rightarrow> addr \<times> links" where
  "RemoveTailList h l =
     (let e = Blink l h;
          B = Blink l e;
          l1 = set_Blink h B l;
          l2 = set_Flink B h l1
      in (e, l2))"

definition InsertTailList :: "addr \<Rightarrow> addr \<Rightarrow> links \<Rightarrow> links" where
  "InsertTailList h e l =
     (let B = Blink l h;
          l1 = set_Flink e h l;
          l2 = set_Blink e B l1;
          l3 = set_Flink B e l2
      in set_Blink h e l3)"

definition InsertHeadList :: "addr \<Rightarrow> addr \<Rightarrow> links \<Rightarrow> links" where
  "InsertHeadList h e l =
     (let F = Flink l h;
          l1 = set_Flink e F l;
          l2 = set_Blink e h l1;
          l3 = set_Blink F e l2
      in set_Flink h e l3)"

definition AppendTailList :: "addr \<Rightarrow> addr \<Rightarrow> links \<Rightarrow> links" where
  "AppendTailList h a l =
     (let ListEnd = Blink l h;
          l1 = set_Flink (Blink l h) a l;
          l2 = set_Blink h (Blink l1 a) l1;
          l3 = set_Flink (Blink l2 a) h l2
      in set_Blink a ListEnd l3)"

section \<open>Operations of network/list.h\<close>

text \<open>The second copy of the structure (\<open>next\<close> is \<open>Flink\<close>, \<open>prev\<close> is \<open>Blink\<close>).\<close>

definition list_init :: "addr \<Rightarrow> links \<Rightarrow> links" where
  "list_init n l = set_Blink n n (set_Flink n n l)"

definition list_add_tail :: "addr \<Rightarrow> addr \<Rightarrow> links \<Rightarrow> links" where
  "list_add_tail h i l =
     (let l1 = set_Flink i h l;
          l2 = set_Blink i (Blink l1 h) l1;
          l3 = set_Flink (Blink l2 h) i l2
      in set_Blink h i l3)"

definition list_remove :: "addr \<Rightarrow> links \<Rightarrow> links" where
  "list_remove i l =
     (let l1 = set_Blink (Flink l i) (Blink l i) l
      in set_Flink (Blink l1 i) (Flink l1 i) l1)"

definition list_empty :: "links \<Rightarrow> addr \<Rightarrow> bool" where
  "list_empty l h \<longleftrightarrow> h = Flink l h"

definition list_head :: "links \<Rightarrow> addr \<Rightarrow> addr" where
  "list_head l h = Flink l h"

section \<open>Traversal\<close>

text \<open>
  The loop \<open>current = head.Flink; while (current != &head) { ...; current = current->Flink; }\<close>
  that ui.c, monitor.c and network.c write out by hand: the entries it visits, or \<open>None\<close> when
  the walk has not come back to the header after \<open>n\<close> steps.
\<close>

fun walk_from :: "nat \<Rightarrow> links \<Rightarrow> addr \<Rightarrow> addr \<Rightarrow> addr list option" where
  "walk_from n l h c =
     (if c = h then Some []
      else case n of 0 \<Rightarrow> None
           | Suc m \<Rightarrow> map_option (Cons c) (walk_from m l h (Flink l c)))"

definition walk :: "nat \<Rightarrow> links \<Rightarrow> addr \<Rightarrow> addr list option" where
  "walk n l h = walk_from n l h (Flink l h)"

declare walk_from.simps [simp del]

section \<open>The ring shape\<close>

fun seg :: "links \<Rightarrow> addr \<Rightarrow> addr list \<Rightarrow> addr \<Rightarrow> bool" where
  "seg l a [] b \<longleftrightarrow> Flink l a = b \<and> Blink l b = a"
| "seg l a (x # xs) b \<longleftrightarrow> Flink l a = x \<and> Blink l x = a \<and> seg l x xs b"

definition ring :: "links \<Rightarrow> addr \<Rightarrow> addr list \<Rightarrow> bool" where
  "ring l h xs \<longleftrightarrow> distinct (h # xs) \<and> seg l h xs h"

lemma seg_append [simp]:
  "seg l a (xs @ y # ys) b \<longleftrightarrow> seg l a xs y \<and> seg l y ys b"
  by (induction xs arbitrary: a) auto

lemma set_link_simps [simp]:
  "Flink (set_Flink a v l) = (Flink l)(a := v)" "Blink (set_Flink a v l) = Blink l"
  "Blink (set_Blink a v l) = (Blink l)(a := v)" "Flink (set_Blink a v l) = Flink l"
  by (simp_all add: set_Flink_def set_Blink_def)

text \<open>Writes outside a segment keep it: a forward link is read at its start and its inner
  nodes, a back link at its inner nodes and its end.\<close>

lemma seg_set_Flink [simp]:
  "v \<noteq> a \<Longrightarrow> v \<notin> set xs \<Longrightarrow> seg (set_Flink v w l) a xs b = seg l a xs b"
  by (induction xs arbitrary: a) auto

lemma seg_set_Blink [simp]:
  "v \<noteq> b \<Longrightarrow> v \<notin> set xs \<Longrightarrow> seg (set_Blink v w l) a xs b = seg l a xs b"
  by (induction xs arbitrary: a) auto

section \<open>Each operation on the ring it represents\<close>

lemma ring_distinctD: "ring l h xs \<Longrightarrow> distinct xs \<and> h \<notin> set xs"
  by (simp add: ring_def)

lemma ring_Init: "ring (InitializeListHead h l) h []"
  by (simp add: ring_def InitializeListHead_def)

lemma ring_Flink: "ring l h xs \<Longrightarrow> Flink l h = (case xs of [] \<Rightarrow> h | x # _ \<Rightarrow> x)"
  by (cases xs) (auto simp: ring_def)

lemma ring_Blink: "ring l h xs \<Longrightarrow> Blink l h = (if xs = [] then h else last xs)"
  by (cases xs rule: rev_cases) (auto simp: ring_def)

lemma ring_is_empty: "ring l h xs \<Longrightarrow> IsListEmpty l h \<longleftrightarrow> xs = []"
  by (cases xs) (auto simp: IsListEmpty_def ring_def)

text \<open>A write to a node outside the ring keeps it.\<close>

lemma ring_set_frame:
  assumes "ring l h xs" "v \<noteq> h" "v \<notin> set xs"
  shows "ring (set_Flink v w l) h xs" "ring (set_Blink v w l) h xs"
  using assms by (simp_all add: ring_def)

lemma ring_InsertTail:
  assumes "ring l h xs" "e \<noteq> h" "e \<notin> set xs"
  shows "ring (InsertTailList h e l) h (xs @ [e])"
  using assms
  by (cases xs rule: rev_cases) (auto simp: ring_def InsertTailList_def Let_def)

lemma ring_InsertHead:
  assumes "ring l h xs" "e \<noteq> h" "e \<notin> set xs"
  shows "ring (InsertHeadList h e l) h (e # xs)"
  using assms
  by (cases xs) (auto simp: ring_def InsertHeadList_def Let_def)

lemma ring_RemoveHead:
  assumes "ring l h (x # xs)"
  shows "fst (RemoveHeadList h l) = x \<and> ring (snd (RemoveHeadList h l)) h xs"
  using assms
  by (cases xs) (auto simp: ring_def RemoveHeadList_def Let_def)

lemma ring_RemoveHead_empty:
  assumes "ring l h []"
  shows "fst (RemoveHeadList h l) = h \<and> ring (snd (RemoveHeadList h l)) h []"
  using assms by (simp add: ring_def RemoveHeadList_def Let_def)

lemma ring_RemoveTail:
  assumes "ring l h (xs @ [x])"
  shows "fst (RemoveTailList h l) = x \<and> ring (snd (RemoveTailList h l)) h xs"
  using assms
  by (cases xs rule: rev_cases) (auto simp: ring_def RemoveTailList_def Let_def)

lemma ring_RemoveEntry:
  assumes "ring l h (as @ e # bs)"
  shows "ring (snd (RemoveEntryList e l)) h (as @ bs) \<and>
         (fst (RemoveEntryList e l) \<longleftrightarrow> as @ bs = [])"
  using assms
  by (cases as rule: rev_cases; cases bs) (auto simp: ring_def RemoveEntryList_def Let_def)

lemma ring_list_remove:
  assumes "ring l h (as @ e # bs)"
  shows "ring (list_remove e l) h (as @ bs)"
  using assms
  by (cases as rule: rev_cases; cases bs) (auto simp: ring_def list_remove_def Let_def)

lemma ring_AppendTail:
  assumes "ring l h xs" "ring l a ys" "set (h # xs) \<inter> set (a # ys) = {}"
  shows "ring (AppendTailList h a l) h (xs @ a # ys)"
  using assms
  by (cases xs rule: rev_cases; cases ys rule: rev_cases) (auto simp: ring_def AppendTailList_def Let_def)

lemma ring_list_add_tail:
  assumes "ring l h xs" "e \<noteq> h" "e \<notin> set xs"
  shows "ring (list_add_tail h e l) h (xs @ [e])"
  using assms
  by (cases xs rule: rev_cases) (auto simp: ring_def list_add_tail_def Let_def)

lemma ring_list_init: "ring (list_init h l) h []"
  by (simp add: ring_def list_init_def)

lemma ring_list_empty: "ring l h xs \<Longrightarrow> list_empty l h \<longleftrightarrow> xs = []"
  by (cases xs) (auto simp: list_empty_def ring_def)

lemma walk_ring:
  assumes "ring l h xs" "length xs \<le> n"
  shows "walk n l h = Some xs"
proof -
  have "seg l c ys h \<Longrightarrow> h \<notin> set ys \<Longrightarrow> length ys \<le> n \<Longrightarrow> walk_from n l h (Flink l c) = Some ys" for c ys n
  proof (induction ys arbitrary: c n)
    case Nil
    then show ?case by (simp add: walk_from.simps)
  next
    case (Cons y ys)
    then obtain m where "n = Suc m" by (cases n) auto
    with Cons show ?case by (simp add: walk_from.simps)
  qed
  with assms show ?thesis by (auto simp: walk_def ring_def)
qed


text \<open>Rings at disjoint addresses do not see each other's operations: the mission list and the
  feedback list of the server live in one store.\<close>

lemma ring_InsertTail_frame:
  assumes "ring l h xs" "ring l k ys" "set (k # ys) \<inter> set (e # h # xs) = {}"
  shows "ring (InsertTailList h e l) k ys"
proof -
  have "Blink l h \<in> set (h # xs)" using assms(1) by (auto simp: ring_Blink)
  with assms show ?thesis
    by (auto simp: InsertTailList_def Let_def intro!: ring_set_frame)
qed

lemma ring_RemoveHead_frame:
  assumes "ring l h (x # xs)" "ring l k ys" "set (k # ys) \<inter> set (h # x # xs) = {}"
  shows "ring (snd (RemoveHeadList h l)) k ys"
proof -
  have "Flink l h = x" "Flink l x \<in> set (h # xs)"
    using assms(1) by (cases xs; auto simp: ring_def)+
  with assms show ?thesis
    by (auto simp: RemoveHeadList_def Let_def intro!: ring_set_frame)
qed

section \<open>The queue interface\<close>

text \<open>The loop \<open>while (!IsListEmpty(head)) { entry = RemoveHeadList(head); ... }\<close> of
  \<open>iterate_callback\<close> in ui.c, over any emptiness test and head removal.\<close>

fun drain :: "('l \<Rightarrow> addr \<Rightarrow> bool) \<Rightarrow> (addr \<Rightarrow> 'l \<Rightarrow> addr \<times> 'l) \<Rightarrow> nat \<Rightarrow> addr \<Rightarrow> 'l \<Rightarrow> (addr list \<times> 'l) option" where
  "drain empt pop 0 h l = (if empt l h then Some ([], l) else None)"
| "drain empt pop (Suc n) h l =
     (if empt l h then Some ([], l)
      else map_option (\<lambda>(xs, l'). (fst (pop h l) # xs, l')) (drain empt pop n h (snd (pop h l))))"

text \<open>What the server relies on when it queues missions and feedback records in an intrusive
  list: the laws of the header, of insertion at the tail and of removal at the head.\<close>

locale intrusive_queue =
  fixes shape :: "'l \<Rightarrow> addr \<Rightarrow> addr list \<Rightarrow> bool"
    and init :: "addr \<Rightarrow> 'l \<Rightarrow> 'l"
    and empt :: "'l \<Rightarrow> addr \<Rightarrow> bool"
    and push :: "addr \<Rightarrow> addr \<Rightarrow> 'l \<Rightarrow> 'l"
    and pop :: "addr \<Rightarrow> 'l \<Rightarrow> addr \<times> 'l"
  assumes shape_init: "shape (init h l) h []"
    and shape_empt: "shape l h xs \<Longrightarrow> empt l h \<longleftrightarrow> xs = []"
    and shape_push: "shape l h xs \<Longrightarrow> e \<noteq> h \<Longrightarrow> e \<notin> set xs \<Longrightarrow> shape (push h e l) h (xs @ [e])"
    and shape_pop: "shape l h (x # xs) \<Longrightarrow> fst (pop h l) = x \<and> shape (snd (pop h l)) h xs"
begin

lemma push_all:
  "shape l h xs \<Longrightarrow> distinct (xs @ es) \<Longrightarrow> h \<notin> set es \<Longrightarrow> shape (fold (push h) es l) h (xs @ es)"
proof (induction es arbitrary: l xs)
  case Nil
  then show ?case by simp
next
  case (Cons e es)
  then have "shape (push h e l) h (xs @ [e])" by (auto intro: shape_push)
  from Cons.IH [OF this] Cons.prems show ?case by simp
qed

lemma drain_all:
  "shape l h xs \<Longrightarrow> length xs \<le> n \<Longrightarrow>
   \<exists>l'. drain empt pop n h l = Some (xs, l') \<and> shape l' h []"
proof (induction xs arbitrary: l n)
  case Nil
  then show ?case by (cases n) (auto simp: shape_empt)
next
  case (Cons x xs)
  then obtain m where n: "n = Suc m" "length xs \<le> m" by (cases n) auto
  from shape_pop [OF Cons.prems(1)] have pop: "fst (pop h l) = x" "shape (snd (pop h l)) h xs"
    by auto
  from Cons.IH [OF pop(2) n(2)] pop(1) n(1) shape_empt [OF Cons.prems(1)] show ?case by auto
qed

lemma fifo:
  assumes "distinct es" "h \<notin> set es"
  shows "\<exists>l'. drain empt pop (length es) h (fold (push h) es (init h l)) = Some (es, l') \<and> shape l' h []"
  using push_all [OF shape_init, of es h l] assms by (intro drain_all) auto

end

interpretation mylist: intrusive_queue ring InitializeListHead IsListEmpty InsertTailList RemoveHeadList
  by unfold_locales
    (simp_all add: ring_Init ring_is_empty ring_InsertTail ring_RemoveHead)

interpretation net_list: intrusive_queue ring list_init list_empty list_add_tail
  "\<lambda>h l. (list_head l h, list_remove (list_head l h) l)"
proof unfold_locales
  fix l h x xs
  assume r: "ring l h (x # xs)"
  then have "list_head l h = x" by (simp add: list_head_def ring_Flink)
  moreover have "ring (list_remove x l) h xs" using ring_list_remove [of l h "[]" x xs] r by simp
  ultimately show "fst (list_head l h, list_remove (list_head l h) l) = x \<and>
    ring (snd (list_head l h, list_remove (list_head l h) l)) h xs" by simp
qed (simp_all add: ring_list_init ring_list_empty ring_list_add_tail)

section \<open>Refinement of lists by sequences of operations\<close>

datatype list_op = PushTail addr | PushHead addr | PopHead | PopTail | Unlink addr

fun exec_op :: "addr \<Rightarrow> list_op \<Rightarrow> links \<Rightarrow> links" where
  "exec_op h (PushTail e) l = InsertTailList h e l"
| "exec_op h (PushHead e) l = InsertHeadList h e l"
| "exec_op h PopHead l = snd (RemoveHeadList h l)"
| "exec_op h PopTail l = snd (RemoveTailList h l)"
| "exec_op h (Unlink e) l = snd (RemoveEntryList e l)"

fun spec_op :: "list_op \<Rightarrow> addr list \<Rightarrow> addr list" where
  "spec_op (PushTail e) xs = xs @ [e]"
| "spec_op (PushHead e) xs = e # xs"
| "spec_op PopHead xs = tl xs"
| "spec_op PopTail xs = butlast xs"
| "spec_op (Unlink e) xs = remove1 e xs"

text \<open>When a client may call the operation: a node inserted is not yet in the list, a node
  unlinked is; the removals at the ends are safe on an empty list too.\<close>

fun op_ok :: "addr \<Rightarrow> list_op \<Rightarrow> addr list \<Rightarrow> bool" where
  "op_ok h (PushTail e) xs \<longleftrightarrow> e \<notin> set (h # xs)"
| "op_ok h (PushHead e) xs \<longleftrightarrow> e \<notin> set (h # xs)"
| "op_ok h PopHead xs \<longleftrightarrow> True"
| "op_ok h PopTail xs \<longleftrightarrow> True"
| "op_ok h (Unlink e) xs \<longleftrightarrow> e \<in> set xs"

fun ops_ok :: "addr \<Rightarrow> list_op list \<Rightarrow> addr list \<Rightarrow> bool" where
  "ops_ok h [] xs \<longleftrightarrow> True"
| "ops_ok h (p # ps) xs \<longleftrightarrow> op_ok h p xs \<and> ops_ok h ps (spec_op p xs)"

lemma ring_RemoveTail_empty: "ring l h [] \<Longrightarrow> ring (snd (RemoveTailList h l)) h []"
  by (simp add: ring_def RemoveTailList_def Let_def)

lemma exec_op_refines:
  assumes "ring l h xs" "op_ok h p xs"
  shows "ring (exec_op h p l) h (spec_op p xs)"
proof (cases p)
  case PopHead
  with assms(1) show ?thesis
    by (cases xs) (auto dest: ring_RemoveHead ring_RemoveHead_empty)
next
  case PopTail
  with assms(1) show ?thesis
    by (cases xs rule: rev_cases) (auto dest: ring_RemoveTail ring_RemoveTail_empty)
next
  case (Unlink e)
  with assms(2) obtain as bs where "xs = as @ e # bs" "e \<notin> set as"
    by (auto dest: split_list_first)
  with Unlink assms(1) ring_RemoveEntry [of l h as e bs] show ?thesis
    by (simp add: remove1_append)
qed (use assms in \<open>auto intro: ring_InsertTail ring_InsertHead\<close>)

lemma exec_ops_refine:
  "ring l h xs \<Longrightarrow> ops_ok h ps xs \<Longrightarrow> ring (fold (exec_op h) ps l) h (fold spec_op ps xs)"
  by (induction ps arbitrary: l xs) (auto intro: exec_op_refines)

section \<open>Properties\<close>

text \<open>C4: The intrusive list of include/mylist.h is a list: after any sequence of insertions at either
  end, removals at either end and unlinkings that a client may make on a fresh header, the ring
  holds exactly the elements the same operations leave in a list, the hand-written walk visits them
  in order and comes back to the header, and the emptiness test is right.\<close>

theorem mylist_simulates_lists:
  assumes "ops_ok h ops []"
  shows "ring (fold (exec_op h) ops (InitializeListHead h l)) h (fold spec_op ops []) \<and>
     walk (length (fold spec_op ops [])) (fold (exec_op h) ops (InitializeListHead h l)) h =
       Some (fold spec_op ops []) \<and>
     (IsListEmpty (fold (exec_op h) ops (InitializeListHead h l)) h \<longleftrightarrow> fold spec_op ops [] = [])"
proof -
  have "ring (fold (exec_op h) ops (InitializeListHead h l)) h (fold spec_op ops [])"
    by (rule exec_ops_refine [OF ring_Init assms])
  then show ?thesis using walk_ring ring_is_empty by blast
qed

text \<open>C34: Both intrusive lists, the one of include/mylist.h and the one of network/list.h, are first-in
  first-out queues: draining a queue from the head returns exactly the entries added at the tail,
  in that order, within as many rounds as there are entries, and leaves it empty.\<close>

theorem intrusive_lists_are_queues:
  assumes "distinct es" "h \<notin> set es"
  shows "(\<exists>l'. drain IsListEmpty RemoveHeadList (length es) h
           (fold (InsertTailList h) es (InitializeListHead h l)) = Some (es, l') \<and> ring l' h []) \<and>
     (\<exists>l'. drain list_empty (\<lambda>h l. (list_head l h, list_remove (list_head l h) l)) (length es) h
           (fold (list_add_tail h) es (list_init h l)) = Some (es, l') \<and> ring l' h [])"
  using mylist.fifo [OF assms] net_list.fifo [OF assms] by blast

text \<open>\<open>AppendTailList\<close> splices a whole ring, header included, behind the last entry of another.\<close>

theorem AppendTailList_splices:
  assumes "ring l h xs" "ring l a ys" "set (h # xs) \<inter> set (a # ys) = {}"
  shows "ring (AppendTailList h a l) h (xs @ a # ys) \<and>
     walk (length (xs @ a # ys)) (AppendTailList h a l) h = Some (xs @ a # ys)"
  using ring_AppendTail [OF assms] walk_ring by blast

definition no_links :: links where
  "no_links = \<lparr>Flink = \<lambda>a. 0, Blink = \<lambda>a. 0\<rparr>"

theorem mylist_simulates_lists_witness:
  "ring (fold (exec_op 0) [PushTail 1, PushTail 2, PushHead 3, Unlink 1, PopTail] (InitializeListHead 0 no_links)) 0
     (fold spec_op [PushTail 1, PushTail 2, PushHead 3, Unlink 1, PopTail] []) \<and>
   walk (length (fold spec_op [PushTail 1, PushTail 2, PushHead 3, Unlink 1, PopTail] []))
     (fold (exec_op 0) [PushTail 1, PushTail 2, PushHead 3, Unlink 1, PopTail] (InitializeListHead 0 no_links)) 0 =
     Some (fold spec_op [PushTail 1, PushTail 2, PushHead 3, Unlink 1, PopTail] []) \<and>
   (IsListEmpty (fold (exec_op 0) [PushTail 1, PushTail 2, PushHead 3, Unlink 1, PopTail]
       (InitializeListHead 0 no_links)) 0 \<longleftrightarrow>
     fold spec_op [PushTail 1, PushTail 2, PushHead 3, Unlink 1, PopTail] [] = [])"
  by (rule mylist_simulates_lists) simp

theorem intrusive_lists_are_queues_witness:
  "(\<exists>l'. drain IsListEmpty RemoveHeadList (length [4, 2, 7 :: addr]) 0
           (fold (InsertTailList 0) [4, 2, 7] (InitializeListHead 0 no_links)) = Some ([4, 2, 7], l') \<and> ring l' 0 []) \<and>
     (\<exists>l'. drain list_empty (\<lambda>h l. (list_head l h, list_remove (list_head l h) l)) (length [4, 2, 7 :: addr]) 0
           (fold (list_add_tail 0) [4, 2, 7] (list_init 0 no_links)) = Some ([4, 2, 7], l') \<and> ring l' 0 [])"
  by (rule intrusive_lists_are_queues) simp_all

theorem AppendTailList_splices_witness:
  "ring (AppendTailList 0 1 (InitializeListHead 1 (InitializeListHead 0 no_links))) 0 ([] @ 1 # []) \<and>
   walk (length ([] @ 1 # ([] :: addr list))) (AppendTailList 0 1 (InitializeListHead 1 (InitializeListHead 0 no_links))) 0 =
     Some ([] @ 1 # [])"
  by (rule AppendTailList_splices) (simp_all add: ring_def InitializeListHead_def set_Flink_def set_Blink_def no_links_def)

end
