(* ===== verification/Address.thy ===== *)
theory Address
  imports Prelude
begin

text \<open>
  The self-contained numeric routines of network/network.c: the dotted-quad parser
  \<open>Get_long_address\<close> and the 64-by-32 bit long division \<open>__div64_32\<close>.
\<close>

section \<open>Get_long_address\<close>

text \<open>\<open>htonl\<close> on the little-endian targets of the program: the bytes swapped.\<close>

definition htonl :: "u32 \<Rightarrow> u32" where
  "htonl w = push_bit 24 (w AND 0xFF) OR push_bit 8 (w AND 0xFF00) OR
             (drop_bit 8 w AND 0xFF00) OR drop_bit 24 w"

text \<open>
  The loop over the bytes of the text, with its local variables: \<open>ip\<close> is \<open>changed_ip\<close>, which the
  code does not initialise (its first value is the argument \<open>g\<close> of \<open>Get_long_address\<close>), \<open>digit\<close>
  the number read so far, \<open>dots\<close> and \<open>digits\<close> the two counters.
\<close>

fun gla_loop :: "u8 list \<Rightarrow> u32 \<Rightarrow> nat \<Rightarrow> nat \<Rightarrow> nat \<Rightarrow> u32" where
  "gla_loop [] ip digit dots digits = 0"
| "gla_loop (c # cs) ip digit dots digits =
     (if 48 \<le> c \<and> c \<le> 57 then
        (let digit' = 10 * digit + unat (c - 48)
         in if digit' > 255 then 0 else gla_loop cs ip digit' dots (Suc digits))
      else if c = 46 then
        (if Suc dots > digits then 0
         else gla_loop cs (push_bit 8 ip OR of_nat digit) 0 (Suc dots) digits)
      else if c = 0 then
        (if dots \<noteq> 3 then 0 else htonl (push_bit 8 ip + of_nat digit))
      else 0)"

definition Get_long_address :: "u32 \<Rightarrow> u8 list option \<Rightarrow> u32" where
  "Get_long_address g ip_address =
     (case ip_address of None \<Rightarrow> 0 | Some cs \<Rightarrow> gla_loop (take 16 cs) g 0 0 0)"

declare gla_loop.simps [simp del]

text \<open>The text of a dotted quad, as a specification.\<close>

definition dec_bytes :: "nat \<Rightarrow> u8 list" where
  "dec_bytes n =
     (if n < 10 then [of_nat (48 + n)]
      else if n < 100 then [of_nat (48 + n div 10), of_nat (48 + n mod 10)]
      else [of_nat (48 + n div 100), of_nat (48 + n div 10 mod 10), of_nat (48 + n mod 10)])"

definition dotted :: "nat \<Rightarrow> nat \<Rightarrow> nat \<Rightarrow> nat \<Rightarrow> u8 list" where
  "dotted a b c d = dec_bytes a @ 46 # dec_bytes b @ 46 # dec_bytes c @ 46 # dec_bytes d"

lemma digit_byte:
  assumes "k < 10"
  shows "(48::u8) \<le> of_nat (48 + k)" "(of_nat (48 + k) :: u8) \<le> 57"
    "unat ((of_nat (48 + k) :: u8) - 48) = k"
proof -
  from assms have "unat (of_nat (48 + k) :: u8) = 48 + k"
    by (simp add: unat_of_nat take_bit_nat_eq_self del: of_nat_add)
  with assms show "(48::u8) \<le> of_nat (48 + k)" "(of_nat (48 + k) :: u8) \<le> 57"
    by (simp_all add: word_le_nat_alt)
  have "(of_nat (48 + k) :: u8) - 48 = of_nat k" by simp
  then show "unat ((of_nat (48 + k) :: u8) - 48) = k"
    using assms by (simp add: unat_of_nat take_bit_nat_eq_self)
qed

lemma gla_digit:
  assumes "k < 10" "10 * digit + k \<le> 255"
  shows "gla_loop (of_nat (48 + k) # cs) ip digit dots digits =
         gla_loop cs ip (10 * digit + k) dots (Suc digits)"
  using digit_byte [OF assms(1)] assms(2) by (simp add: gla_loop.simps del: of_nat_add)

lemma gla_number:
  assumes "n < 256"
  shows "\<exists>m \<ge> Suc digits. gla_loop (dec_bytes n @ cs) ip 0 dots digits = gla_loop cs ip n dots m"
proof -
  consider "n < 10" | "10 \<le> n" "n < 100" | "100 \<le> n" by linarith
  then show ?thesis
  proof cases
    case 1
    then show ?thesis using gla_digit [of n 0 cs ip dots digits] by (auto simp: dec_bytes_def)
  next
    case 2
    then have "dec_bytes n = [of_nat (48 + n div 10), of_nat (48 + n mod 10)]" by (simp add: dec_bytes_def)
    moreover from 2 have d: "n div 10 < 10" "n mod 10 < 10" "10 * (n div 10) + n mod 10 = n" by auto
    moreover from assms d(3) have "n div 10 \<le> 255" "10 * (n div 10) + n mod 10 \<le> 255" by auto
    ultimately show ?thesis
      by (intro exI [of _ "digits + 2"]) (simp add: gla_digit del: of_nat_add mult_div_mod_eq)
  next
    case 3
    then have "dec_bytes n = [of_nat (48 + n div 100), of_nat (48 + n div 10 mod 10), of_nat (48 + n mod 10)]"
      by (simp add: dec_bytes_def)
    moreover from 3 assms have d: "n div 100 < 10" "n div 10 mod 10 < 10" "n mod 10 < 10" by auto
    moreover have e: "10 * (n div 100) + n div 10 mod 10 = n div 10" "10 * (n div 10) + n mod 10 = n"
      using mult_div_mod_eq [of 10 "n div 10"] by (simp_all add: div_mult2_eq [symmetric])
    moreover from assms have "n div 100 \<le> 255" "n div 10 \<le> 255" "n \<le> 255" by auto
    ultimately show ?thesis
      by (intro exI [of _ "Suc (Suc (Suc digits))"]) (simp add: gla_digit del: of_nat_add mult_div_mod_eq)
  qed
qed

lemma gla_dot:
  "Suc dots \<le> digits \<Longrightarrow>
   gla_loop (46 # cs) ip digit dots digits = gla_loop cs (push_bit 8 ip OR of_nat digit) 0 (Suc dots) digits"
  by (simp add: gla_loop.simps word_le_nat_alt)

lemma gla_end: "gla_loop (0 # cs) ip digit (Suc (Suc (Suc 0))) digits = htonl (push_bit 8 ip + of_nat digit)"
  by (simp add: gla_loop.simps word_le_nat_alt)

lemma shift_or_byte:
  assumes "n < 256"
  shows "push_bit 8 x OR of_nat n = (256 * x + of_nat n :: u32)"
proof -
  have "take_bit 8 n = n" using assms by (simp add: take_bit_nat_eq_self)
  then have "\<forall>k. bit n k \<longrightarrow> k < 8" by (metis bit_take_bit_iff)
  then have "\<not> bit (push_bit 8 x) k \<or> \<not> bit (of_nat n :: u32) k" for k
    by (auto simp: bit_push_bit_iff bit_of_nat_iff not_less)
  then have "push_bit 8 x + of_nat n = push_bit 8 x OR (of_nat n :: u32)"
    by (rule disjunctive_add)
  then show ?thesis by (simp add: push_bit_eq_mult mult.commute)
qed

lemma quad_value:
  assumes "a < 256" "b < 256" "c < 256"
  shows "push_bit 8 (push_bit 8 (push_bit 8 (push_bit 8 g OR of_nat a) OR of_nat b) OR of_nat c) + of_nat d
         = (of_nat (((a * 256 + b) * 256 + c) * 256 + d) :: u32)"
proof -
  have "(4294967296 :: u32) = 0" by simp
  then have "4294967296 * g = 0" by (simp only: mult_zero_left)
  then show ?thesis unfolding shift_or_byte [OF assms(1)] shift_or_byte [OF assms(2)] shift_or_byte [OF assms(3)]
    by (simp add: push_bit_eq_mult algebra_simps)
qed

lemma dec_bytes_length: "length (dec_bytes n) \<le> 3"
  by (simp add: dec_bytes_def)

lemma gla_dotted:
  assumes "a < 256" "b < 256" "c < 256" "d < 256"
  shows "gla_loop (dotted a b c d @ 0 # cs) g 0 0 0 = htonl (of_nat (((a * 256 + b) * 256 + c) * 256 + d))"
proof -
  let ?ip = "\<lambda>ip n. push_bit 8 ip OR of_nat n :: u32"
  let ?t3 = "dec_bytes d @ 0 # cs" and ?t2 = "dec_bytes c @ 46 # dec_bytes d @ 0 # cs"
  let ?t1 = "dec_bytes b @ 46 # ?t2"
  obtain m1 where m1: "m1 \<ge> Suc 0" "gla_loop (dec_bytes a @ 46 # ?t1) g 0 0 0 = gla_loop (46 # ?t1) g a 0 m1"
    using gla_number [OF assms(1), of 0 "46 # ?t1" g 0] by blast
  obtain m2 where m2: "m2 \<ge> Suc m1"
    "gla_loop ?t1 (?ip g a) 0 (Suc 0) m1 = gla_loop (46 # ?t2) (?ip g a) b (Suc 0) m2"
    using gla_number [OF assms(2), of m1] by blast
  obtain m3 where m3: "m3 \<ge> Suc m2"
    "gla_loop ?t2 (?ip (?ip g a) b) 0 (Suc (Suc 0)) m2 = gla_loop (46 # ?t3) (?ip (?ip g a) b) c (Suc (Suc 0)) m3"
    using gla_number [OF assms(3), of m2] by blast
  obtain m4 where m4: "m4 \<ge> Suc m3"
    "gla_loop ?t3 (?ip (?ip (?ip g a) b) c) 0 (Suc (Suc (Suc 0))) m3 =
     gla_loop (0 # cs) (?ip (?ip (?ip g a) b) c) d (Suc (Suc (Suc 0))) m4"
    using gla_number [OF assms(4), of m3] by blast
  from m1(1) m2(1) m3(1) have dots: "Suc 0 \<le> m1" "Suc (Suc 0) \<le> m2" "Suc (Suc (Suc 0)) \<le> m3" by auto
  have "gla_loop (dec_bytes a @ 46 # ?t1) g 0 0 0 = htonl (push_bit 8 (?ip (?ip (?ip g a) b) c) + of_nat d)"
    by (simp only: m1(2) gla_dot [OF dots(1)] m2(2) gla_dot [OF dots(2)] m3(2) gla_dot [OF dots(3)] m4(2) gla_end)
  then show ?thesis using quad_value [OF assms(1,2,3)] by (simp only: dotted_def append_assoc append_Cons)
qed

text \<open>What acceptance tells: three dots among digits, ended by a zero byte.\<close>

lemma gla_accept:
  "gla_loop cs ip digit dots digits \<noteq> 0 \<Longrightarrow>
   \<exists>pre post. cs = pre @ 0 # post \<and> (\<forall>c \<in> set pre. 48 \<le> c \<and> c \<le> 57 \<or> c = 46) \<and>
     dots + count_list pre 46 = 3"
proof (induction cs ip digit dots digits rule: gla_loop.induct)
  case (1 ip digit dots digits)
  then show ?case by (simp add: gla_loop.simps)
next
  case (2 c cs ip digit dots digits)
  consider (num) "48 \<le> c" "c \<le> 57" | (dot) "\<not> (48 \<le> c \<and> c \<le> 57)" "c = 46"
    | (fin) "\<not> (48 \<le> c \<and> c \<le> 57)" "c = 0" | (bad) "\<not> (48 \<le> c \<and> c \<le> 57)" "c \<noteq> 46" "c \<noteq> 0"
    by blast
  then show ?case
  proof cases
    case num
    with 2 obtain pre post where "cs = pre @ 0 # post"
      "\<forall>c \<in> set pre. 48 \<le> c \<and> c \<le> 57 \<or> c = 46" "dots + count_list pre 46 = 3"
      by (auto simp: gla_loop.simps Let_def split: if_splits)
    moreover from num have "c \<noteq> 46" by (auto simp: word_le_nat_alt)
    ultimately show ?thesis using num by (intro exI [of _ "c # pre"] exI [of _ post]) auto
  next
    case dot
    with 2 obtain pre post where "cs = pre @ 0 # post"
      "\<forall>c \<in> set pre. 48 \<le> c \<and> c \<le> 57 \<or> c = 46" "Suc dots + count_list pre 46 = 3"
      by (auto simp: gla_loop.simps split: if_splits)
    then show ?thesis using dot by (intro exI [of _ "c # pre"] exI [of _ post]) auto
  next
    case fin
    with 2 show ?thesis
      by (intro exI [of _ "[]"] exI [of _ cs]) (auto simp: gla_loop.simps split: if_splits)
  next
    case bad
    with 2(3) show ?thesis by (auto simp: gla_loop.simps split: if_splits)
  qed
qed

section \<open>__div64_32\<close>

text \<open>The first loop: \<open>while ((int64_t)b > 0 && b < rem) { b = b+b; d = d+d; }\<close> on unsigned
  64-bit variables.\<close>

definition to_u64n :: "nat \<Rightarrow> nat" where
  "to_u64n x = x mod 18446744073709551616"

lemma to_u64n_small: "x < 18446744073709551616 \<Longrightarrow> to_u64n x = x"
  by (simp add: to_u64n_def)

function div64_up :: "nat \<Rightarrow> nat \<Rightarrow> nat \<Rightarrow> nat \<times> nat" where
  "div64_up rem b d =
     (if 0 < b \<and> b < 9223372036854775808 \<and> b < rem
      then div64_up rem (to_u64n (b + b)) (to_u64n (d + d)) else (b, d))"
  by pat_completeness auto
termination
  by (relation "measure (\<lambda>(rem, b, d). 18446744073709551616 - b)") (auto simp: to_u64n_def)

text \<open>The second loop:
  \<open>do { if (rem >= b) { rem -= b; res += d; } b >>= 1; d >>= 1; } while (d);\<close>\<close>

function div64_down :: "nat \<Rightarrow> nat \<Rightarrow> nat \<Rightarrow> nat \<Rightarrow> nat \<times> nat" where
  "div64_down rem b res d =
     (let rem' = (if rem \<ge> b then rem - b else rem);
          res' = (if rem \<ge> b then to_u64n (res + d) else res)
      in if d div 2 \<noteq> 0 then div64_down rem' (b div 2) res' (d div 2) else (rem', res'))"
  by pat_completeness auto
termination
  by (relation "measure (\<lambda>(rem, b, res, d). d)") auto

declare div64_up.simps [simp del] div64_down.simps [simp del]

text \<open>The quotient left in \<open>*n\<close> and the 32-bit remainder returned; \<open>None\<close> is the division by
  zero of \<open>high /= base\<close>.\<close>

definition div64_32 :: "nat \<Rightarrow> nat \<Rightarrow> (nat \<times> nat) option" where
  "div64_32 n base =
     (let high = n div 4294967296
      in if high \<ge> base \<and> base = 0 then None
         else let high' = high div base;
                  res = (if high \<ge> base then to_u64n (high' * 4294967296) else 0);
                  rem = (if high \<ge> base
                         then n - to_u64n ((high' * base mod 4294967296) * 4294967296) else n);
                  (b, d) = div64_up rem base 1;
                  (rem', res') = div64_down rem b res d
              in Some (res', rem' mod 4294967296))"

lemma div64_up_inv:
  assumes "b = base * d" "d = 2 ^ k" "0 < base" "b < 18446744073709551616" "rem < 18446744073709551616"
  shows "\<exists>k'. snd (div64_up rem b d) = 2 ^ k' \<and> fst (div64_up rem b d) = base * 2 ^ k' \<and>
              rem < 2 * fst (div64_up rem b d)"
  using assms
proof (induction rem b d arbitrary: k rule: div64_up.induct)
  case (1 rem b d)
  show ?case
  proof (cases "0 < b \<and> b < 9223372036854775808 \<and> b < rem")
    case True
    have "d \<le> b" using 1(2,4) by simp
    with True have "to_u64n (b + b) = b + b" "to_u64n (d + d) = d + d"
      by (simp_all add: to_u64n_small)
    then have nowrap: "to_u64n (b + b) = base * (2 * d)" "to_u64n (d + d) = 2 ^ Suc k"
      using 1(2,3) by simp_all
    then have "\<exists>k'. snd (div64_up rem (to_u64n (b + b)) (to_u64n (d + d))) = 2 ^ k' \<and>
        fst (div64_up rem (to_u64n (b + b)) (to_u64n (d + d))) = base * 2 ^ k' \<and>
        rem < 2 * fst (div64_up rem (to_u64n (b + b)) (to_u64n (d + d)))"
      using 1(1) [OF True, of "Suc k"] 1(3,4,6) by (simp add: to_u64n_def)
    with True show ?thesis by (simp add: div64_up.simps [of rem b d])
  next
    case False
    then have eq: "div64_up rem b d = (b, d)" by (subst div64_up.simps) auto
    have "0 < b" using 1(2,3,4) by simp
    with False 1(6) have "rem < 2 * b" by linarith
    with eq 1(2,3) show ?thesis by (intro exI [of _ k]) simp
  qed
qed

lemma quotient_le: "q * base + r = (n::nat) \<Longrightarrow> 0 < base \<Longrightarrow> q \<le> n"
  by (metis One_nat_def Suc_leI le_add1 le_trans mult.right_neutral mult_le_mono2)

lemma divmod_unique: "q * base + r = n \<Longrightarrow> r < base \<Longrightarrow> n div base = q \<and> n mod base = (r::nat)"
  by auto

lemma div64_down_inv:
  assumes "b = base * 2 ^ k" "d = 2 ^ k" "0 < base" "rem < 2 * b" "res * base + rem = n"
    "n < 18446744073709551616"
  shows "div64_down rem b res d = (n mod base, n div base)"
  using assms
proof (induction k arbitrary: rem b res d)
  case 0
  let ?r = "if rem \<ge> b then rem - b else rem" and ?q = "if rem \<ge> b then res + 1 else res"
  have eq: "?q * base + ?r = n" "?r < base" using 0 by auto
  have "to_u64n ?q = ?q" using quotient_le [OF eq(1) 0(3)] 0(6) by (intro to_u64n_small) linarith
  moreover from divmod_unique [OF eq] have "n div base = ?q" "n mod base = ?r" by blast+
  ultimately show ?case using 0(2) by (subst div64_down.simps) auto
next
  case (Suc k)
  let ?r = "if rem \<ge> b then rem - b else rem" and ?q = "if rem \<ge> b then res + d else res"
  have eq: "?q * base + ?r = n" using Suc.prems by (auto simp: algebra_simps)
  have "to_u64n ?q = ?q"
    using quotient_le [OF eq Suc.prems(3)] Suc.prems(6) by (intro to_u64n_small) linarith
  moreover have "?r < 2 * (b div 2)" "b div 2 = base * 2 ^ k" "d div 2 = 2 ^ k" using Suc.prems by auto
  moreover have "div64_down ?r (b div 2) ?q (d div 2) = (n mod base, n div base)"
    by (rule Suc.IH) (use Suc.prems eq in auto)
  ultimately show ?case
    by (subst div64_down.simps) (auto simp: Let_def)
qed

text \<open>The reduction of the high word before the loops, and the whole routine.\<close>

lemma div64_reduce:
  assumes "n < 18446744073709551616" "0 < base" "base < 4294967296"
  defines "high \<equiv> n div 4294967296"
  shows "high div base * base mod 4294967296 = high div base * base"
    "to_u64n (high div base * base * 4294967296) = high div base * base * 4294967296"
    "to_u64n (high div base * 4294967296) = high div base * 4294967296"
    "high div base * 4294967296 * base + (n - high div base * base * 4294967296) = n"
proof -
  have h: "high < 4294967296" "high * 4294967296 \<le> n" using assms by (auto simp: less_mult_imp_div_less)
  have m: "high div base * base \<le> high" by (simp add: div_times_less_eq_dividend)
  then have "high div base * base * 4294967296 \<le> high * 4294967296" by (rule mult_le_mono1)
  with h assms(1) have le: "high div base * base * 4294967296 \<le> n"
    "high div base * base * 4294967296 < 18446744073709551616" by linarith+
  then show "to_u64n (high div base * base * 4294967296) = high div base * base * 4294967296"
    by (intro to_u64n_small)
  show "high div base * base mod 4294967296 = high div base * base"
    using m h(1) by (intro mod_less) linarith
  have "high div base \<le> high" by simp
  with h assms(1) have "high div base * 4294967296 < 18446744073709551616" by linarith
  then show "to_u64n (high div base * 4294967296) = high div base * 4294967296"
    by (intro to_u64n_small)
  show "high div base * 4294967296 * base + (n - high div base * base * 4294967296) = n"
    using le(1) by (simp add: mult.commute mult.left_commute)
qed

lemma div64_loops:
  assumes "res * base + rem = n" "n < 18446744073709551616" "0 < base" "base < 4294967296"
  shows "(case div64_up rem base 1 of (b, d) \<Rightarrow> div64_down rem b res d) = (n mod base, n div base)"
proof -
  have "\<exists>k'. snd (div64_up rem base 1) = 2 ^ k' \<and> fst (div64_up rem base 1) = base * 2 ^ k' \<and>
      rem < 2 * fst (div64_up rem base 1)"
    by (rule div64_up_inv [where k = 0]) (use assms in auto)
  then obtain k where "div64_up rem base 1 = (base * 2 ^ k, 2 ^ k)" "rem < 2 * (base * 2 ^ k)"
    by (metis prod.collapse)
  then show ?thesis using assms by (simp add: div64_down_inv)
qed

section \<open>Properties\<close>

text \<open>C30: \<open>__div64_32\<close> computes the exact quotient and remainder of an unsigned 64-bit number by
  every non-zero 32-bit base; its loops end and none of its additions wraps. Base 0 traps.\<close>

theorem div64_32_correct:
  assumes "n < 18446744073709551616" "base < 4294967296"
  shows "div64_32 n base = (if base = 0 then None else Some (n div base, n mod base))"
proof (cases "base = 0")
  case False
  then have pos: "0 < base" by simp
  have small: "n mod base mod 4294967296 = n mod base"
    using assms(2) pos by (meson mod_less mod_less_divisor order_less_trans)
  show ?thesis
  proof (cases "n div 4294967296 \<ge> base")
    case True
    note red = div64_reduce [OF assms(1) pos assms(2)]
    from div64_loops [OF red(4) assms(1) pos assms(2)] True pos show ?thesis
      by (simp add: div64_32_def Let_def red small split: prod.splits)
  next
    case False
    with div64_loops [of 0 base n n] assms pos show ?thesis
      by (simp add: div64_32_def Let_def small split: prod.splits)
  qed
qed (simp add: div64_32_def)

theorem div64_32_correct_witness:
  "div64_32 18446744073709551615 10 = Some (1844674407370955161, 5)"
  using div64_32_correct [of 18446744073709551615 10] by simp

text \<open>C31: \<open>Get_long_address\<close> reads every dotted quad of numbers below 256, ended by a zero byte,
  as the address in network byte order, whatever the uninitialised local \<open>changed_ip\<close> held.\<close>

theorem Get_long_address_dotted:
  assumes "a < 256" "b < 256" "c < 256" "d < 256"
  shows "Get_long_address g (Some (dotted a b c d @ 0 # rest)) =
         htonl (of_nat (((a * 256 + b) * 256 + c) * 256 + d))"
proof -
  have "length (dotted a b c d) \<le> 15"
    using dec_bytes_length [of a] dec_bytes_length [of b] dec_bytes_length [of c] dec_bytes_length [of d]
    by (simp add: dotted_def)
  then obtain m where "16 - length (dotted a b c d) = Suc m" by (cases "16 - length (dotted a b c d)") auto
  then have "take 16 (dotted a b c d @ 0 # rest) = dotted a b c d @ 0 # take m rest"
    using \<open>length (dotted a b c d) \<le> 15\<close> by simp
  then show ?thesis using gla_dotted [OF assms] by (simp add: Get_long_address_def)
qed

theorem Get_long_address_dotted_witness:
  "Get_long_address 0xDEADBEEF (Some (dotted 192 168 1 20 @ [0])) = 0x1401A8C0"
  using Get_long_address_dotted [of 192 168 1 20 "0xDEADBEEF" "[]"] by (simp add: htonl_def)

text \<open>A non-zero result of \<open>Get_long_address\<close> means that the text, within its 16 bytes,
  consists of digits and exactly three dots before a zero byte. The converse of the dotted-quad
  form fails: the dot check compares with the number of digits seen so far, so \<open>11..2.3\<close> is
  accepted although its second number is missing.\<close>

theorem Get_long_address_accepts:
  "(\<forall>g cs. Get_long_address g (Some cs) \<noteq> 0 \<longrightarrow>
      (\<exists>pre post. take 16 cs = pre @ 0 # post \<and>
         (\<forall>c \<in> set pre. 48 \<le> c \<and> c \<le> 57 \<or> c = 46) \<and> count_list pre 46 = 3)) \<and>
   Get_long_address g (Some [49, 49, 46, 46, 50, 46, 51, 0]) = htonl 0x0B000203"
proof (intro conjI allI impI)
  fix g cs
  assume "Get_long_address g (Some cs) \<noteq> 0"
  then have "gla_loop (take 16 cs) g 0 0 0 \<noteq> 0" by (simp add: Get_long_address_def)
  from gla_accept [OF this] show "\<exists>pre post. take 16 cs = pre @ 0 # post \<and>
         (\<forall>c \<in> set pre. 48 \<le> c \<and> c \<le> 57 \<or> c = 46) \<and> count_list pre 46 = 3" by auto
next
  have "push_bit 8 (push_bit 8 (push_bit 8 (push_bit 8 g OR of_nat 11) OR of_nat 0) OR of_nat 2) + of_nat 3 =
      (0x0B000203 :: u32)"
    using quad_value [of 11 0 2 g 3] by simp
  then show "Get_long_address g (Some [49, 49, 46, 46, 50, 46, 51, 0]) = htonl 0x0B000203"
    by (simp add: Get_long_address_def gla_loop.simps word_le_nat_alt)
qed

theorem Get_long_address_accepts_witness:
  "\<exists>pre post. take 16 [49, 46, 50, 46, 51, 46, 52, 0 :: u8] = pre @ 0 # post \<and>
     (\<forall>c \<in> set pre. 48 \<le> c \<and> c \<le> 57 \<or> c = 46) \<and> count_list pre 46 = 3"
proof -
  have "Get_long_address 0 (Some [49, 46, 50, 46, 51, 46, 52, 0]) \<noteq> 0"
    by (simp add: Get_long_address_def gla_loop.simps word_le_nat_alt htonl_def)
  then show ?thesis using Get_long_address_accepts by blast
qed

end
