(* ===== verification/Timer.thy ===== *)
theory Timer
  imports Prelude
begin

text \<open>
  The time arithmetic of include/timer.h, include/define.h and comm/timer.c. A C \<open>long\<close> field
  is an \<open>int\<close> (the values stay far inside 64 bits); the 32-bit intermediate results of the
  division routines are reduced modulo \<open>2^32\<close> where the code stores them in a \<open>uint32_t\<close>.
  C division truncates, so it is \<open>sdiv\<close>.
\<close>

record timeval =
  tv_sec :: int
  tv_usec :: int

record timespec =
  ts_sec :: int
  ts_nsec :: int

definition to_u64 :: "int \<Rightarrow> int" where
  "to_u64 x = x mod 18446744073709551616"

lemma to_u64_small [simp]: "0 \<le> x \<Longrightarrow> x < 18446744073709551616 \<Longrightarrow> to_u64 x = x"
  by (simp add: to_u64_def)

lemma to_u64_range: "0 \<le> to_u64 x" "to_u64 x < 18446744073709551616"
  by (simp_all add: to_u64_def)

section \<open>Conversions\<close>

definition TIMEVAL_TO_TIMESPEC :: "timeval \<Rightarrow> timespec" where
  "TIMEVAL_TO_TIMESPEC tv = \<lparr>ts_sec = tv_sec tv, ts_nsec = tv_usec tv * 1000\<rparr>"

definition TIMESPEC_TO_TIMEVAL :: "timespec \<Rightarrow> timeval" where
  "TIMESPEC_TO_TIMEVAL ts = \<lparr>tv_sec = ts_sec ts, tv_usec = ts_nsec ts sdiv 1000\<rparr>"

definition ROUND_TIMESPEC_TO_MICROSEC :: "timespec \<Rightarrow> timespec" where
  "ROUND_TIMESPEC_TO_MICROSEC ts = ts\<lparr>ts_nsec := ((ts_nsec ts + 500) sdiv 1000) * 1000\<rparr>"

definition TIMEVAL_TO_MICROSEC :: "timeval \<Rightarrow> int" where
  "TIMEVAL_TO_MICROSEC tv = tv_sec tv * 1000000 + tv_usec tv"

definition TIMESPEC_TO_NANOSEC :: "timespec \<Rightarrow> int" where
  "TIMESPEC_TO_NANOSEC ts = ts_sec ts * 1000000000 + ts_nsec ts"

definition NANOSEC_TO_TIMESPEC :: "int \<Rightarrow> timespec" where
  "NANOSEC_TO_TIMESPEC x = \<lparr>ts_sec = x div 1000000000, ts_nsec = x mod 1000000000\<rparr>"

definition MICROSEC_TO_TIMEVAL :: "int \<Rightarrow> timeval" where
  "MICROSEC_TO_TIMEVAL x =
     (let s = x sdiv 1000000 in \<lparr>tv_sec = s, tv_usec = x - s * 1000000\<rparr>)"

definition MILLISEC_TO_TIMEVAL :: "int \<Rightarrow> timeval" where
  "MILLISEC_TO_TIMEVAL x =
     (let s = x sdiv 1000 in \<lparr>tv_sec = s, tv_usec = (x * 1000) - s * 1000000\<rparr>)"

section \<open>Clearing, testing, adding, subtracting, comparing\<close>

definition timerclear :: timeval where
  "timerclear = \<lparr>tv_sec = 0, tv_usec = 0\<rparr>"

definition timesclear :: timespec where
  "timesclear = \<lparr>ts_sec = 0, ts_nsec = 0\<rparr>"

definition timerisset :: "timeval \<Rightarrow> bool" where
  "timerisset tv \<longleftrightarrow> tv_sec tv \<noteq> 0 \<or> tv_usec tv \<noteq> 0"

definition timesisset :: "timespec \<Rightarrow> bool" where
  "timesisset ts \<longleftrightarrow> ts_sec ts \<noteq> 0 \<or> ts_nsec ts \<noteq> 0"

definition timeradd :: "timeval \<Rightarrow> timeval \<Rightarrow> timeval" where
  "timeradd t u =
     (let s = tv_sec t + tv_sec u; us = tv_usec t + tv_usec u
      in if us \<ge> 1000000 then \<lparr>tv_sec = s + 1, tv_usec = us - 1000000\<rparr>
         else \<lparr>tv_sec = s, tv_usec = us\<rparr>)"

definition timersub :: "timeval \<Rightarrow> timeval \<Rightarrow> timeval" where
  "timersub t u =
     (let s = tv_sec t - tv_sec u; us = tv_usec t - tv_usec u
      in if us < 0 then \<lparr>tv_sec = s - 1, tv_usec = us + 1000000\<rparr>
         else \<lparr>tv_sec = s, tv_usec = us\<rparr>)"

definition timessub :: "timespec \<Rightarrow> timespec \<Rightarrow> timespec" where
  "timessub t u =
     (let s = ts_sec t - ts_sec u; ns = ts_nsec t - ts_nsec u
      in if ns < 0 then \<lparr>ts_sec = s - 1, ts_nsec = ns + 1000000000\<rparr>
         else \<lparr>ts_sec = s, ts_nsec = ns\<rparr>)"

definition timercmp :: "(int \<Rightarrow> int \<Rightarrow> bool) \<Rightarrow> timeval \<Rightarrow> timeval \<Rightarrow> bool" where
  "timercmp cmp t u =
     (if tv_sec t = tv_sec u then cmp (tv_usec t) (tv_usec u) else cmp (tv_sec t) (tv_sec u))"

definition timescmp :: "(int \<Rightarrow> int \<Rightarrow> bool) \<Rightarrow> timespec \<Rightarrow> timespec \<Rightarrow> bool" where
  "timescmp cmp t u =
     (if ts_sec t = ts_sec u then cmp (ts_nsec t) (ts_nsec u) else cmp (ts_sec t) (ts_sec u))"

text \<open>The carry loop of \<open>timermul\<close>: \<open>while (tv_usec > 1000000)\<close>.\<close>

function timermul_carry :: "int \<Rightarrow> int \<Rightarrow> timeval" where
  "timermul_carry s us =
     (if us > 1000000 then timermul_carry (s + 1) (us - 1000000) else \<lparr>tv_sec = s, tv_usec = us\<rparr>)"
  by pat_completeness auto
termination
  by (relation "measure (\<lambda>(s, us). nat us)") auto

declare timermul_carry.simps [simp del]

definition timermul :: "timeval \<Rightarrow> int \<Rightarrow> timeval" where
  "timermul t x = timermul_carry (tv_sec t * x) (tv_usec t * x)"

section \<open>Division (comm/timer.c, with the macros of include/network.h)\<close>

text \<open>\<open>do_div\<close> narrows both operands to 32 bits; a divisor that narrows to 0 traps (\<open>None\<close>).
  The result is the quotient left in \<open>n\<close> and the remainder, the value of the macro.\<close>

definition do_div :: "int \<Rightarrow> int \<Rightarrow> (int \<times> int) option" where
  "do_div n base =
     (if to_u32 base = 0 then None
      else Some (to_u32 n div to_u32 base, to_u32 n mod to_u32 base))"

definition do_div_64 :: "int \<Rightarrow> int \<Rightarrow> (int \<times> int) option" where
  "do_div_64 n base =
     (if to_u32 base = 0 then None
      else Some (to_u64 n div to_u32 base, to_u32 (to_u64 n mod to_u32 base)))"

definition timerdiv :: "timeval \<Rightarrow> int \<Rightarrow> timeval option" where
  "timerdiv tvp d =
     (if d = 0 \<or> d = 1 then Some tvp
      else let interval = to_u32 (to_u32 (to_u32 (tv_sec tvp) * 1000000) + tv_usec tvp)
           in case do_div interval d of None \<Rightarrow> None
              | Some (q, _) \<Rightarrow>
                  (let s = q div 1000000
                   in Some \<lparr>tv_sec = s, tv_usec = q - s * 1000000\<rparr>))"

definition timesdiv :: "timespec \<Rightarrow> int \<Rightarrow> timespec option" where
  "timesdiv tvs d =
     (if d = 0 \<or> d = 1 then Some tvs
      else let interval = to_u32 (to_u32 (to_u32 (ts_sec tvs) * 1000000000) + ts_nsec tvs)
           in case do_div interval d of None \<Rightarrow> None
              | Some (q, _) \<Rightarrow>
                  (let s = q div 1000000000
                   in Some \<lparr>ts_sec = s, ts_nsec = q - s * 1000000000\<rparr>))"

section \<open>Measuring elapsed time\<close>

definition init_delta_time :: timeval where
  "init_delta_time = timerclear"

text \<open>\<open>now\<close> is what \<open>gettimeofday\<close> returns inside the call; it is read only on the second branch.\<close>

definition get_delta_time :: "timeval \<Rightarrow> timeval \<Rightarrow> timespec" where
  "get_delta_time ctx now =
     (if \<not> timerisset ctx then timesclear else TIMEVAL_TO_TIMESPEC (timersub now ctx))"

section \<open>Normalised values\<close>

definition norm_tv :: "timeval \<Rightarrow> bool" where
  "norm_tv t \<longleftrightarrow> 0 \<le> tv_usec t \<and> tv_usec t < 1000000"

definition norm_ts :: "timespec \<Rightarrow> bool" where
  "norm_ts t \<longleftrightarrow> 0 \<le> ts_nsec t \<and> ts_nsec t < 1000000000"

lemmas tv_defs = norm_tv_def TIMEVAL_TO_MICROSEC_def Let_def
lemmas ts_defs = norm_ts_def TIMESPEC_TO_NANOSEC_def Let_def

lemma timeradd_norm: "norm_tv t \<Longrightarrow> norm_tv u \<Longrightarrow> norm_tv (timeradd t u)"
  by (auto simp: timeradd_def tv_defs)

lemma timeradd_us: "TIMEVAL_TO_MICROSEC (timeradd t u) = TIMEVAL_TO_MICROSEC t + TIMEVAL_TO_MICROSEC u"
  by (auto simp: timeradd_def tv_defs algebra_simps)

lemma timersub_norm: "norm_tv t \<Longrightarrow> norm_tv u \<Longrightarrow> norm_tv (timersub t u)"
  by (auto simp: timersub_def tv_defs)

lemma timersub_us: "TIMEVAL_TO_MICROSEC (timersub t u) = TIMEVAL_TO_MICROSEC t - TIMEVAL_TO_MICROSEC u"
  by (auto simp: timersub_def tv_defs algebra_simps)

lemma timessub_norm: "norm_ts t \<Longrightarrow> norm_ts u \<Longrightarrow> norm_ts (timessub t u)"
  by (auto simp: timessub_def ts_defs)

lemma timessub_ns: "TIMESPEC_TO_NANOSEC (timessub t u) = TIMESPEC_TO_NANOSEC t - TIMESPEC_TO_NANOSEC u"
  by (auto simp: timessub_def ts_defs algebra_simps)

lemma timercmp_less:
  "norm_tv t \<Longrightarrow> norm_tv u \<Longrightarrow> timercmp (<) t u \<longleftrightarrow> TIMEVAL_TO_MICROSEC t < TIMEVAL_TO_MICROSEC u"
  by (auto simp: timercmp_def tv_defs)

lemma timescmp_greater:
  "norm_ts t \<Longrightarrow> norm_ts u \<Longrightarrow> timescmp (>) t u \<longleftrightarrow> TIMESPEC_TO_NANOSEC t > TIMESPEC_TO_NANOSEC u"
  by (auto simp: timescmp_def ts_defs)

lemma timesisset_ns: "norm_ts t \<Longrightarrow> timesisset t \<longleftrightarrow> TIMESPEC_TO_NANOSEC t \<noteq> 0"
  by (cases "ts_sec t < 0"; cases "ts_sec t > 0") (auto simp: timesisset_def ts_defs)

lemma NANOSEC_TO_TIMESPEC_norm [simp]: "norm_ts (NANOSEC_TO_TIMESPEC x)"
  by (simp add: NANOSEC_TO_TIMESPEC_def ts_defs)

lemma NANOSEC_TO_TIMESPEC_ns [simp]: "TIMESPEC_TO_NANOSEC (NANOSEC_TO_TIMESPEC x) = x"
  by (simp add: NANOSEC_TO_TIMESPEC_def ts_defs)

lemma TIMEVAL_TO_TIMESPEC_norm: "norm_tv t \<Longrightarrow> norm_ts (TIMEVAL_TO_TIMESPEC t)"
  by (auto simp: TIMEVAL_TO_TIMESPEC_def norm_ts_def norm_tv_def)

lemma TIMEVAL_TO_TIMESPEC_ns: "TIMESPEC_TO_NANOSEC (TIMEVAL_TO_TIMESPEC t) = 1000 * TIMEVAL_TO_MICROSEC t"
  by (simp add: TIMEVAL_TO_TIMESPEC_def TIMESPEC_TO_NANOSEC_def TIMEVAL_TO_MICROSEC_def)

lemma timesclear_simps [simp]:
  "norm_ts timesclear" "TIMESPEC_TO_NANOSEC timesclear = 0" "\<not> timesisset timesclear"
  by (simp_all add: timesclear_def ts_defs timesisset_def)

lemma timermul_carry_us:
  "TIMEVAL_TO_MICROSEC (timermul_carry s us) = s * 1000000 + us"
proof (induction s us rule: timermul_carry.induct)
  case (1 s us)
  then show ?case
    by (cases "us > 1000000") (simp_all add: timermul_carry.simps [of s us] TIMEVAL_TO_MICROSEC_def)
qed

lemma timermul_carry_usec:
  "0 \<le> us \<Longrightarrow> 0 \<le> tv_usec (timermul_carry s us) \<and> tv_usec (timermul_carry s us) \<le> 1000000 \<and>
     (tv_usec (timermul_carry s us) = 1000000 \<longleftrightarrow> us \<noteq> 0 \<and> us mod 1000000 = 0)"
proof (induction s us rule: timermul_carry.induct)
  case (1 s us)
  show ?case
  proof (cases "us > 1000000")
    case True
    with 1 have IH: "0 \<le> tv_usec (timermul_carry (s + 1) (us - 1000000)) \<and>
        tv_usec (timermul_carry (s + 1) (us - 1000000)) \<le> 1000000 \<and>
        (tv_usec (timermul_carry (s + 1) (us - 1000000)) = 1000000 \<longleftrightarrow>
           us - 1000000 \<noteq> 0 \<and> (us - 1000000) mod 1000000 = 0)" by simp
    have "(us - 1000000) mod 1000000 = us mod 1000000" by simp
    with IH True show ?thesis by (simp add: timermul_carry.simps [of s us])
  next
    case False
    with 1(2) have us: "0 \<le> us" "us \<le> 1000000" by auto
    then have "us mod 1000000 = 0 \<longleftrightarrow> us = 0 \<or> us = 1000000"
      by (cases "us = 1000000") auto
    with False us show ?thesis by (auto simp: timermul_carry.simps [of s us])
  qed
qed

lemma to_u32_add_mult: "to_u32 (to_u32 (to_u32 a * c) + b) = to_u32 (a * c + b)"
  unfolding to_u32_def by (simp only: mod_add_left_eq mod_mult_left_eq)

text \<open>The 32-bit result of the two division routines, for every input: they divide the time
  modulo \<open>2^32\<close> units by the divisor modulo \<open>2^32\<close>.\<close>

lemma timerdiv_eq:
  assumes "d \<noteq> 0" "d \<noteq> 1"
  shows "timerdiv t d =
    (if to_u32 d = 0 then None
     else let q = to_u32 (TIMEVAL_TO_MICROSEC t) div to_u32 d
          in Some \<lparr>tv_sec = q div 1000000, tv_usec = q mod 1000000\<rparr>)"
  using assms
  by (simp add: timerdiv_def do_div_def to_u32_add_mult TIMEVAL_TO_MICROSEC_def to_u32_range
      minus_div_mult_eq_mod [symmetric] Let_def)

lemma timesdiv_eq:
  assumes "d \<noteq> 0" "d \<noteq> 1"
  shows "timesdiv t d =
    (if to_u32 d = 0 then None
     else let q = to_u32 (TIMESPEC_TO_NANOSEC t) div to_u32 d
          in Some \<lparr>ts_sec = q div 1000000000, ts_nsec = q mod 1000000000\<rparr>)"
  using assms
  by (simp add: timesdiv_def do_div_def to_u32_add_mult TIMESPEC_TO_NANOSEC_def to_u32_range
      minus_div_mult_eq_mod [symmetric] Let_def)

section \<open>Properties\<close>

text \<open>Dividing a normalised, non-negative timeval below \<open>2^32\<close> microseconds (about 71
  minutes) by a divisor that fits 32 bits gives exactly the quotient in microseconds, normalised.\<close>

theorem timerdiv_exact:
  assumes "norm_tv t" "0 \<le> tv_sec t" "TIMEVAL_TO_MICROSEC t < 4294967296" "1 < d" "d < 4294967296"
  shows "\<exists>t'. timerdiv t d = Some t' \<and> norm_tv t' \<and> TIMEVAL_TO_MICROSEC t' = TIMEVAL_TO_MICROSEC t div d"
proof -
  have "0 \<le> TIMEVAL_TO_MICROSEC t" using assms by (simp add: TIMEVAL_TO_MICROSEC_def norm_tv_def)
  with assms show ?thesis
    by (simp add: timerdiv_eq Let_def norm_tv_def) (simp add: TIMEVAL_TO_MICROSEC_def)
qed

theorem timerdiv_exact_witness:
  "\<exists>t'. timerdiv \<lparr>tv_sec = 7, tv_usec = 500000\<rparr> 3 = Some t' \<and> norm_tv t' \<and>
     TIMEVAL_TO_MICROSEC t' = TIMEVAL_TO_MICROSEC \<lparr>tv_sec = 7, tv_usec = 500000\<rparr> div 3"
  by (rule timerdiv_exact) (simp_all add: tv_defs)

text \<open>\<open>timesdiv\<close> keeps its interval in 32 bits of nanoseconds: for every timespec and every
  32-bit divisor above 1 the result is the quotient of the time modulo \<open>2^32\<close> ns, so from
  4.29 seconds on it is not the time divided (5 s divided by 2 is not 2.5 s).\<close>

theorem timesdiv_wraps_at_4s:
  "(\<forall>t d. 1 < d \<and> d < 4294967296 \<longrightarrow>
      (\<exists>t'. timesdiv t d = Some t' \<and> norm_ts t' \<and>
            TIMESPEC_TO_NANOSEC t' = (TIMESPEC_TO_NANOSEC t mod 4294967296) div d)) \<and>
   timesdiv \<lparr>ts_sec = 5, ts_nsec = 0\<rparr> 2 = Some \<lparr>ts_sec = 0, ts_nsec = 352516352\<rparr>"
proof (intro conjI allI impI)
  fix t :: timespec and d :: int
  assume "1 < d \<and> d < 4294967296"
  then show "\<exists>t'. timesdiv t d = Some t' \<and> norm_ts t' \<and>
      TIMESPEC_TO_NANOSEC t' = (TIMESPEC_TO_NANOSEC t mod 4294967296) div d"
    by (simp add: timesdiv_eq Let_def norm_ts_def to_u32_def [of "TIMESPEC_TO_NANOSEC t"])
      (simp add: TIMESPEC_TO_NANOSEC_def)
qed (simp add: timesdiv_def do_div_def to_u32_def)

theorem timesdiv_wraps_at_4s_witness:
  "\<exists>t'. timesdiv \<lparr>ts_sec = 9, ts_nsec = 5\<rparr> 7 = Some t' \<and> norm_ts t' \<and>
     TIMESPEC_TO_NANOSEC t' = (TIMESPEC_TO_NANOSEC \<lparr>ts_sec = 9, ts_nsec = 5\<rparr> mod 4294967296) div 7"
  using timesdiv_wraps_at_4s by simp

text \<open>Multiplying a time by a non-negative factor keeps its value, but the carry loop of
  \<open>timermul\<close> stops at \<open>tv_usec \<le> 1000000\<close>: the result is left denormalised, with a whole
  second in \<open>tv_usec\<close>, exactly when the product of the microseconds is a non-zero multiple of
  a second.\<close>

theorem timermul_value_and_carry:
  assumes "norm_tv t" "0 \<le> x"
  shows "TIMEVAL_TO_MICROSEC (timermul t x) = TIMEVAL_TO_MICROSEC t * x \<and>
         (norm_tv (timermul t x) \<longleftrightarrow> \<not> (tv_usec t * x \<noteq> 0 \<and> tv_usec t * x mod 1000000 = 0))"
proof -
  have "0 \<le> tv_usec t * x" using assms by (simp add: norm_tv_def)
  from timermul_carry_usec [OF this, of "tv_sec t * x"] show ?thesis
    by (auto simp: timermul_def timermul_carry_us norm_tv_def)
      (simp_all add: TIMEVAL_TO_MICROSEC_def algebra_simps)
qed

theorem timermul_value_and_carry_witness:
  "TIMEVAL_TO_MICROSEC (timermul \<lparr>tv_sec = 1, tv_usec = 500000\<rparr> 4) = 6000000 \<and>
   \<not> norm_tv (timermul \<lparr>tv_sec = 1, tv_usec = 500000\<rparr> 4)"
  using timermul_value_and_carry [of "\<lparr>tv_sec = 1, tv_usec = 500000\<rparr>" 4]
  by (simp add: norm_tv_def TIMEVAL_TO_MICROSEC_def)

end
