(* ===== verification/Pacing.thy ===== *)
theory Pacing
  imports Timer
begin

text \<open>
  The rate control of network/network.c: \<open>do_sleep\<close>, with the sleeping routines of comm/sleep.c
  and include/sleep.h it selects from. The \<open>static\<close> variables of \<open>do_sleep\<close> are the record
  \<open>pacer\<close>; the instant \<open>now\<close> is what \<open>gettimeofday\<close> returns in \<open>get_delta_time\<close>.
\<close>

datatype accurate =
    Accurate_gtod | Accurate_select | Accurate_rdtsc | Accurate_ioport
  | Accurate_nanosleep | Accurate_abs_time

record pacer =
  st_nap :: timespec
  st_delta_time :: timespec
  st_skip_length :: int

definition pacer_init :: pacer where
  "pacer_init = \<lparr>st_nap = timesclear, st_delta_time = timesclear, st_skip_length = 0\<rparr>"

text \<open>The \<open>switch\<close> at the end of \<open>do_sleep\<close>: the sleep performed, if the mode is known.\<close>

fun select_method :: "accurate \<Rightarrow> timespec \<Rightarrow> (accurate \<times> timespec) option" where
  "select_method Accurate_select nap = Some (Accurate_select, nap)"
| "select_method Accurate_ioport nap = Some (Accurate_ioport, nap)"
| "select_method Accurate_gtod nap = Some (Accurate_gtod, nap)"
| "select_method Accurate_nanosleep nap = Some (Accurate_nanosleep, nap)"
| "select_method _ nap = None"

text \<open>
  The part of \<open>do_sleep\<close> that compares the bytes sent with the time elapsed. \<open>None\<close> is the trap
  of a speed whose low 32 bits are 0; otherwise the new \<open>*skip_timestamp\<close> and the new statics.
\<close>

definition plan_nap :: "timeval \<Rightarrow> timeval \<Rightarrow> int \<Rightarrow> int \<Rightarrow> int \<Rightarrow> pacer \<Rightarrow> (bool \<times> pacer) option" where
  "plan_nap ctx start speed send_size len p =
     (if timerisset ctx then
        (case do_div_64 (to_u64 ((send_size + len) * 8 * 1000000)) speed of
           None \<Rightarrow> None
         | Some (next_tx_us, _) \<Rightarrow>
             (let tx_us = to_u64 (TIMEVAL_TO_MICROSEC ctx - TIMEVAL_TO_MICROSEC start);
                  delta_us = (if next_tx_us \<ge> tx_us then next_tx_us - tx_us else 0)
              in if delta_us \<noteq> 0
                 then Some (False, p\<lparr>st_nap := NANOSEC_TO_TIMESPEC (to_u64 (delta_us * 1000))\<rparr>)
                 else (case do_div_64 (to_u64 ((tx_us - next_tx_us) * speed)) 8000000 of
                         None \<Rightarrow> None
                       | Some (sl, _) \<Rightarrow>
                           Some (True, p\<lparr>st_nap := timesclear, st_skip_length := sl\<rparr>))))
      else Some (False, p))"

definition do_sleep ::
  "accurate \<Rightarrow> timeval \<Rightarrow> timeval \<Rightarrow> int \<Rightarrow> int \<Rightarrow> int \<Rightarrow> bool \<Rightarrow> timeval \<Rightarrow> pacer
   \<Rightarrow> (bool \<times> (accurate \<times> timespec) option \<times> pacer) option" where
  "do_sleep accurate ctx start speed send_size len skip now p =
     (if skip \<and> to_u64 len < st_skip_length p
      then Some (True, None, p\<lparr>st_skip_length := st_skip_length p - to_u64 len\<rparr>)
      else
        (let p0 = (if skip then p\<lparr>st_skip_length := 0\<rparr> else p)
         in case plan_nap ctx start speed send_size len p0 of
              None \<Rightarrow> None
            | Some (skip', p1) \<Rightarrow>
                (let nap = st_nap p1
                 in if \<not> timesisset nap then Some (skip', None, p1)
                    else let delta = get_delta_time ctx now;
                             p2 = p1\<lparr>st_delta_time := delta\<rparr>;
                             nap' = (if timesisset delta
                                     then if timescmp (>) nap delta then timessub nap delta else timesclear
                                     else nap)
                         in Some (skip', select_method accurate nap', p2))))"

text \<open>
  The adjuster of \<open>do_sleep\<close> is 0 (\<open>userdef_timer\<close> is never set), so the branch that applies it
  is dead and is not repeated in the model.
\<close>

section \<open>Sleeping routines\<close>

text \<open>\<open>select_sleep\<close>: the timeout given to \<open>select\<close>.\<close>

definition select_sleep :: "timespec \<Rightarrow> timeval" where
  "select_sleep nap = TIMESPEC_TO_TIMEVAL nap"

text \<open>\<open>gettimeofday_sleep\<close> polls the clock: the number of readings until the first one at or after
  \<open>sleep_until\<close>, \<open>None\<close> when there is none among the first \<open>fuel\<close> readings.\<close>

fun gtod_poll :: "nat \<Rightarrow> (nat \<Rightarrow> timeval) \<Rightarrow> nat \<Rightarrow> timeval \<Rightarrow> nat option" where
  "gtod_poll 0 clk n until = None"
| "gtod_poll (Suc fuel) clk n until =
     (if timercmp (<) (clk n) until then gtod_poll fuel clk (Suc n) until else Some n)"

definition gettimeofday_sleep :: "nat \<Rightarrow> (nat \<Rightarrow> timeval) \<Rightarrow> timespec \<Rightarrow> nat option" where
  "gettimeofday_sleep fuel clk nap = gtod_poll fuel clk 1 (timeradd (clk 0) (TIMESPEC_TO_TIMEVAL nap))"

text \<open>\<open>ioport_sleep\<close> writes to port 0x80, one microsecond each; the model counts the writes.
  The variable \<open>usec\<close> is a \<open>u_int32_t\<close>.\<close>

fun outb_loop :: "nat \<Rightarrow> nat \<Rightarrow> nat" where
  "outb_loop 0 outs = outs"
| "outb_loop (Suc usec) outs = outb_loop usec (Suc outs)"

fun outb_seconds :: "nat \<Rightarrow> int \<Rightarrow> nat \<Rightarrow> nat" where
  "outb_seconds 0 sec outs = outs"
| "outb_seconds (Suc i) sec outs = outb_seconds i sec (outb_loop (nat (to_u32 (sec * 1000000))) outs)"

definition ioport_sleep :: "timespec \<Rightarrow> nat" where
  "ioport_sleep nap =
     (let nap_for = TIMESPEC_TO_TIMEVAL nap;
          outs = outb_seconds (nat (tv_sec nap_for)) (tv_sec nap_for) 0;
          usec = to_u32 (to_u32 (ts_nsec nap sdiv 1000) - 1)
      in outb_loop (nat usec) outs)"

lemma outb_loop_eq: "outb_loop n k = n + k"
  by (induction n arbitrary: k) simp_all

lemma outb_seconds_eq: "outb_seconds n s k = n * nat (to_u32 (s * 1000000)) + k"
  by (induction n arbitrary: k) (simp_all add: outb_loop_eq)

lemma ioport_sleep_eq:
  "ioport_sleep nap = nat (ts_sec nap) * nat (to_u32 (ts_sec nap * 1000000)) +
     nat (to_u32 (to_u32 (ts_nsec nap sdiv 1000) - 1))"
  by (simp add: ioport_sleep_def Let_def outb_loop_eq outb_seconds_eq TIMESPEC_TO_TIMEVAL_def)

section \<open>Frame: what \<open>do_sleep\<close> needs to return\<close>

lemma do_div_64_total: "to_u32 b \<noteq> 0 \<Longrightarrow> \<exists>q r. do_div_64 n b = Some (q, r)"
  by (simp add: do_div_64_def)

lemma plan_nap_total: "to_u32 speed \<noteq> 0 \<Longrightarrow> \<exists>s' p'. plan_nap ctx start speed sz len p = Some (s', p')"
  by (auto simp: plan_nap_def do_div_64_def Let_def to_u32_def)

lemma do_sleep_total:
  "to_u32 speed \<noteq> 0 \<Longrightarrow> \<exists>r. do_sleep a ctx start speed sz len skip now p = Some r"
  using plan_nap_total [of speed ctx start sz len "if skip then p\<lparr>st_skip_length := 0\<rparr> else p"]
  by (auto simp: do_sleep_def Let_def)

section \<open>The schedule\<close>

lemma plan_nap_eq:
  assumes "timerisset ctx" "0 < speed" "speed < 4294967296"
    "TIMEVAL_TO_MICROSEC start \<le> TIMEVAL_TO_MICROSEC ctx"
    "TIMEVAL_TO_MICROSEC ctx - TIMEVAL_TO_MICROSEC start < 4294967296"
    "0 \<le> sz + len" "sz + len < 2000000000000"
  shows "plan_nap ctx start speed sz len p =
     (let next = (sz + len) * 8000000 div speed;
          tx = TIMEVAL_TO_MICROSEC ctx - TIMEVAL_TO_MICROSEC start
      in if next > tx then Some (False, p\<lparr>st_nap := NANOSEC_TO_TIMESPEC (to_u64 ((next - tx) * 1000))\<rparr>)
         else Some (True, p\<lparr>st_nap := timesclear, st_skip_length := (tx - next) * speed div 8000000\<rparr>))"
proof -
  define bits where "bits = (sz + len) * 8000000"
  define tx where "tx = TIMEVAL_TO_MICROSEC ctx - TIMEVAL_TO_MICROSEC start"
  let ?N = "bits div speed"
  have bits: "(sz + len) * 8 * 1000000 = bits" "0 \<le> bits" "bits < 18446744073709551616"
    using assms by (simp_all add: bits_def)
  have small: "to_u64 bits = bits" "to_u32 speed = speed" "to_u64 tx = tx" "to_u32 8000000 = 8000000"
    using assms bits by (simp_all add: tx_def)
  have N0: "0 \<le> ?N" using assms bits by (simp add: pos_imp_zdiv_nonneg_iff)
  have "(tx - ?N) * speed < 18446744073709551616 \<and> 0 \<le> (tx - ?N) * speed" if "?N \<le> tx"
  proof -
    have "(tx - ?N) * speed \<le> 4294967295 * 4294967295"
      using that assms N0 by (intro mult_mono) (auto simp: tx_def)
    then show ?thesis using that assms by simp
  qed
  then have slack: "?N \<le> tx \<Longrightarrow> to_u64 ((tx - ?N) * speed) = (tx - ?N) * speed" by simp
  have "plan_nap ctx start speed sz len p =
      (if ?N > tx then Some (False, p\<lparr>st_nap := NANOSEC_TO_TIMESPEC (to_u64 ((?N - tx) * 1000))\<rparr>)
       else Some (True, p\<lparr>st_nap := timesclear, st_skip_length := (tx - ?N) * speed div 8000000\<rparr>))"
    using assms(1,2) small slack
    unfolding plan_nap_def do_div_64_def Let_def bits(1) tx_def [symmetric] by auto
  then show ?thesis by (simp add: bits_def tx_def Let_def)
qed

lemma do_sleep_schedule:
  assumes "norm_tv ctx" "norm_tv now" "norm_tv start" "timerisset ctx" "0 < speed" "speed < 4294967296"
    "TIMEVAL_TO_MICROSEC start \<le> TIMEVAL_TO_MICROSEC ctx" "TIMEVAL_TO_MICROSEC ctx \<le> TIMEVAL_TO_MICROSEC now"
    "TIMEVAL_TO_MICROSEC ctx - TIMEVAL_TO_MICROSEC start < 4294967296"
    "0 \<le> sz + len" "sz + len < 2000000000000"
    and due: "due = (sz + len) * 8000000 div speed" "due < 1000000000000000"
    and tx: "tx = TIMEVAL_TO_MICROSEC ctx - TIMEVAL_TO_MICROSEC start"
  shows "due > tx \<Longrightarrow> \<exists>ts p'. do_sleep Accurate_select ctx start speed sz len False now p =
            Some (False, Some (Accurate_select, ts), p') \<and> norm_ts ts \<and>
            TIMESPEC_TO_NANOSEC ts = 1000 * max 0 (TIMEVAL_TO_MICROSEC start + due - TIMEVAL_TO_MICROSEC now)"
    and "due \<le> tx \<Longrightarrow> do_sleep Accurate_select ctx start speed sz len False now p =
            Some (True, None, p\<lparr>st_nap := timesclear, st_skip_length := (tx - due) * speed div 8000000\<rparr>)"
proof -
  note plan = plan_nap_eq [OF assms(4-6,7,9-11), of p, folded due(1) tx]
  show "do_sleep Accurate_select ctx start speed sz len False now p =
            Some (True, None, p\<lparr>st_nap := timesclear, st_skip_length := (tx - due) * speed div 8000000\<rparr>)"
    if "due \<le> tx"
    using that plan by (simp add: do_sleep_def Let_def)
  assume "due > tx"
  define nap where "nap = NANOSEC_TO_TIMESPEC ((due - tx) * 1000)"
  define d where "d = get_delta_time ctx now"
  define out where "out = (if timesisset d then if timescmp (>) nap d then timessub nap d else timesclear else nap)"
  have nap: "norm_ts nap" "TIMESPEC_TO_NANOSEC nap = (due - tx) * 1000" by (simp_all add: nap_def)
  have d: "norm_ts d" "TIMESPEC_TO_NANOSEC d = 1000 * (TIMEVAL_TO_MICROSEC now - TIMEVAL_TO_MICROSEC ctx)"
    using assms(1,2,4)
    by (simp_all add: d_def get_delta_time_def TIMEVAL_TO_TIMESPEC_norm timersub_norm TIMEVAL_TO_TIMESPEC_ns timersub_us)
  have "norm_ts out" using d(1) nap(1) by (simp add: out_def timessub_norm)
  moreover have "TIMESPEC_TO_NANOSEC out = 1000 * max 0 (TIMEVAL_TO_MICROSEC start + due - TIMEVAL_TO_MICROSEC now)"
    using d nap \<open>due > tx\<close> tx
    by (auto simp: out_def timesisset_ns timescmp_greater timessub_ns)
  moreover have "0 \<le> tx" using assms(7) tx by simp
  then have "to_u64 ((due - tx) * 1000) = (due - tx) * 1000" using \<open>due > tx\<close> due(2) by simp
  with plan \<open>due > tx\<close> have "plan_nap ctx start speed sz len p = Some (False, p\<lparr>st_nap := nap\<rparr>)"
    by (simp add: nap_def)
  moreover have "timesisset nap" using nap \<open>due > tx\<close> by (simp add: timesisset_ns)
  ultimately have "do_sleep Accurate_select ctx start speed sz len False now p =
      Some (False, Some (Accurate_select, out), p\<lparr>st_nap := nap, st_delta_time := d\<rparr>)"
    by (simp add: do_sleep_def Let_def out_def d_def)
  with \<open>norm_ts out\<close> \<open>TIMESPEC_TO_NANOSEC out = _\<close> show "\<exists>ts p'. do_sleep Accurate_select ctx start speed sz len False now p =
            Some (False, Some (Accurate_select, ts), p') \<and> norm_ts ts \<and>
            TIMESPEC_TO_NANOSEC ts = 1000 * max 0 (TIMEVAL_TO_MICROSEC start + due - TIMEVAL_TO_MICROSEC now)"
    by blast
qed

lemma less_next_multiple: "0 < s \<Longrightarrow> a < (a div s + 1) * (s :: int)"
  unfolding distrib_right using div_mult_mod_eq [of a s] pos_mod_bound [of s a] by linarith

lemma div_less_of_less_mult:
  assumes "0 < s" "a < t * (s :: int)"
  shows "a div s < t"
proof (rule ccontr)
  assume "\<not> a div s < t"
  then have "t * s \<le> a div s * s" using assms(1) by (intro mult_right_mono) auto
  also have "\<dots> \<le> a" using div_mult_mod_eq [of a s] pos_mod_sign [OF assms(1), of a] by linarith
  finally show False using assms(2) by simp
qed

section \<open>Properties\<close>

text \<open>C1: The rate control keeps the schedule. With a set time stamp, a running clock and a
  speed of 1 to \<open>2^32 - 1\<close> bits per second, let \<open>due\<close> be the microseconds the bytes sent so far
  take at that speed. If they were not yet due at the last time stamp, the sleep requested ends
  exactly at \<open>start + due\<close> (at once if that is past). Otherwise no sleep is requested, and the
  number of bytes that may go out without looking at the clock is such that even with them the
  transmission is not ahead of the schedule at the time stamp.\<close>

theorem do_sleep_keeps_rate:
  assumes "norm_tv ctx" "norm_tv now" "norm_tv start" "timerisset ctx" "0 < speed" "speed < 4294967296"
    "TIMEVAL_TO_MICROSEC start \<le> TIMEVAL_TO_MICROSEC ctx" "TIMEVAL_TO_MICROSEC ctx \<le> TIMEVAL_TO_MICROSEC now"
    "TIMEVAL_TO_MICROSEC ctx - TIMEVAL_TO_MICROSEC start < 4294967296"
    "0 \<le> sz + len" "sz + len < 2000000000000" "(sz + len) * 8000000 div speed < 1000000000000000"
  shows "\<exists>skip' nap p'. do_sleep Accurate_select ctx start speed sz len False now p = Some (skip', nap, p') \<and>
     (case nap of
        Some (m, ts) \<Rightarrow> \<not> skip' \<and> m = Accurate_select \<and> norm_ts ts \<and>
          TIMESPEC_TO_NANOSEC ts =
            1000 * max 0 (TIMEVAL_TO_MICROSEC start + (sz + len) * 8000000 div speed - TIMEVAL_TO_MICROSEC now)
      | None \<Rightarrow> skip' \<and> 0 \<le> st_skip_length p' \<and>
          (sz + len + st_skip_length p') * 8000000 div speed \<le> TIMEVAL_TO_MICROSEC ctx - TIMEVAL_TO_MICROSEC start)"
proof -
  let ?due = "(sz + len) * 8000000 div speed" and ?tx = "TIMEVAL_TO_MICROSEC ctx - TIMEVAL_TO_MICROSEC start"
  note sched = do_sleep_schedule [OF assms(1-11) refl assms(12) refl, of p]
  show ?thesis
  proof (cases "?due > ?tx")
    case True
    from sched(1) [OF this] show ?thesis by auto
  next
    case False
    let ?sl = "(?tx - ?due) * speed div 8000000"
    have "?sl * 8000000 \<le> (?tx - ?due) * speed"
      using div_mult_mod_eq [of "(?tx - ?due) * speed" 8000000] pos_mod_sign [of 8000000 "(?tx - ?due) * speed"]
      by linarith
    moreover have "(sz + len) * 8000000 < (?due + 1) * speed"
      by (rule less_next_multiple [OF assms(5)])
    ultimately have "(sz + len + ?sl) * 8000000 < (?tx + 1) * speed"
      by (simp add: algebra_simps)
    then have "(sz + len + ?sl) * 8000000 div speed < ?tx + 1"
      by (rule div_less_of_less_mult [OF assms(5)])
    moreover have "0 \<le> ?sl" using False assms(5) by (simp add: pos_imp_zdiv_nonneg_iff)
    ultimately show ?thesis using sched(2) False by auto
  qed
qed

text \<open>\<open>ioport_sleep\<close> does not sleep for the time asked. A nap below one microsecond makes its
  unsigned counter wrap and writes \<open>2^32 - 1\<close> times (over an hour), and a nap of whole seconds
  takes the square of them: each second of the loop writes for all of them.\<close>

theorem ioport_sleep_wrong_length:
  "(\<forall>ns. 0 \<le> ns \<and> ns < 1000 \<longrightarrow> ioport_sleep \<lparr>ts_sec = 0, ts_nsec = ns\<rparr> = 4294967295) \<and>
   (\<forall>s. 0 < s \<and> s \<le> 4294 \<longrightarrow>
      ioport_sleep \<lparr>ts_sec = s, ts_nsec = 1000\<rparr> = nat (s * s * 1000000))"
proof (intro conjI allI impI)
  fix ns :: int
  assume "0 \<le> ns \<and> ns < 1000"
  then have "ns sdiv 1000 = 0" by (simp add: signed_divide_int_def)
  then show "ioport_sleep \<lparr>ts_sec = 0, ts_nsec = ns\<rparr> = 4294967295"
    by (simp add: ioport_sleep_eq to_u32_def)
next
  fix s :: int
  assume s: "0 < s \<and> s \<le> 4294"
  have "(1000 :: int) sdiv 1000 = 1" by (simp add: signed_divide_int_def)
  with s show "ioport_sleep \<lparr>ts_sec = s, ts_nsec = 1000\<rparr> = nat (s * s * 1000000)"
    by (simp add: ioport_sleep_eq nat_mult_distrib [symmetric])
qed

theorem ioport_sleep_wrong_length_witness:
  "ioport_sleep \<lparr>ts_sec = 0, ts_nsec = 500\<rparr> = 4294967295 \<and>
   ioport_sleep \<lparr>ts_sec = 3, ts_nsec = 1000\<rparr> = 9000000"
  using ioport_sleep_wrong_length by simp

theorem do_sleep_keeps_rate_witness:
  "\<exists>skip' nap p'. do_sleep Accurate_select \<lparr>tv_sec = 10, tv_usec = 0\<rparr> \<lparr>tv_sec = 9, tv_usec = 0\<rparr> 8000 1500 500
      False \<lparr>tv_sec = 10, tv_usec = 7\<rparr> pacer_init = Some (skip', nap, p') \<and>
     (case nap of
        Some (m, ts) \<Rightarrow> \<not> skip' \<and> m = Accurate_select \<and> norm_ts ts \<and>
          TIMESPEC_TO_NANOSEC ts = 1000 * max 0 (TIMEVAL_TO_MICROSEC \<lparr>tv_sec = 9, tv_usec = 0\<rparr> +
             (1500 + 500) * 8000000 div 8000 - TIMEVAL_TO_MICROSEC \<lparr>tv_sec = 10, tv_usec = 7\<rparr>)
      | None \<Rightarrow> skip' \<and> 0 \<le> st_skip_length p' \<and> (1500 + 500 + st_skip_length p') * 8000000 div 8000 \<le>
          TIMEVAL_TO_MICROSEC \<lparr>tv_sec = 10, tv_usec = 0\<rparr> - TIMEVAL_TO_MICROSEC \<lparr>tv_sec = 9, tv_usec = 0\<rparr>)"
  by (rule do_sleep_keeps_rate) (simp_all add: tv_defs timerisset_def)

end
