(* ===== verification/Comm.thy ===== *)
theory Comm
  imports Prelude
begin

text \<open>
  The shared vocabulary of include/comm.h: the enumerations of missions, scans and commands with
  their C values (a mission type ends in \<open>_T\<close> here, in an underscore there), the test environment \<open>ENV\<close>, the commands of the user interface and the record of
  the running mission.
\<close>

datatype mission_type =
    ARP_REQUEST_STORM_T | ARP_HOST_REPLY_STORM_T | ARP_CACHE_SATURATION_STORM_T | ARP_GRAMMEAR_T
  | ICMP_STORM_STORM_T | ICMP_FUZZER_T | ICMP_GRAMMAR_T | ICMP_TYPE_CODE_T

datatype mission_status = STOPPED | RUNNING | PAUSED | ERROR | END

datatype scan_status = S_RUNNING | S_PAUSED | S_STOPPED | S_ERROR

datatype scan_type = TCP_SCAN | UDP_SCAN

datatype command_type = T_SCAN | T_MISSION | T_ANALYIZE

datatype command_order = START | PAUSE | RESUME | STOP

fun mission_type_value :: "mission_type \<Rightarrow> int" where
  "mission_type_value ARP_REQUEST_STORM_T = 0"
| "mission_type_value ARP_HOST_REPLY_STORM_T = 1"
| "mission_type_value ARP_CACHE_SATURATION_STORM_T = 2"
| "mission_type_value ARP_GRAMMEAR_T = 3"
| "mission_type_value ICMP_STORM_STORM_T = 4"
| "mission_type_value ICMP_FUZZER_T = 5"
| "mission_type_value ICMP_GRAMMAR_T = 6"
| "mission_type_value ICMP_TYPE_CODE_T = 7"

fun mission_status_value :: "mission_status \<Rightarrow> int" where
  "mission_status_value STOPPED = 0"
| "mission_status_value RUNNING = 1"
| "mission_status_value PAUSED = 2"
| "mission_status_value ERROR = 3"
| "mission_status_value END = 4"

text \<open>\<open>ENV\<close>: the addresses are C arrays of 16 bytes, the hardware addresses of 6, the device name
  of 16.\<close>

record ENV =
  host :: "u8 list"
  target1 :: "u8 list"
  target2 :: "u8 list"
  host_mac :: "u8 list"
  target1_mac :: "u8 list"
  target2_mac :: "u8 list"
  env_device :: "u8 list"

definition ENV_zero :: ENV where
  "ENV_zero = \<lparr>host = replicate 16 0, target1 = replicate 16 0, target2 = replicate 16 0,
     host_mac = replicate 6 0, target1_mac = replicate 6 0, target2_mac = replicate 6 0,
     env_device = replicate 16 0\<rparr>"

definition ENV_ok :: "ENV \<Rightarrow> bool" where
  "ENV_ok e \<longleftrightarrow> length (host e) = 16 \<and> length (target1 e) = 16 \<and> length (target2 e) = 16 \<and>
     length (host_mac e) = 6 \<and> length (target1_mac e) = 6 \<and> length (target2_mac e) = 6 \<and>
     length (env_device e) = 16"

lemma ENV_zero_ok [simp]: "ENV_ok ENV_zero"
  by (simp add: ENV_ok_def ENV_zero_def)

record running_mission =
  running_thread_id :: int
  mission_start_time :: int
  rm_status :: mission_status
  rm_type :: mission_type

definition running_zero :: running_mission where
  "running_zero = \<lparr>running_thread_id = 0, mission_start_time = 0, rm_status = STOPPED,
     rm_type = ARP_REQUEST_STORM_T\<rparr>"

end
