(* ===== verification/Net_World.thy ===== *)
theory Net_World
  imports Pacing Comm
begin

text \<open>
  The setting in which the traffic generators of network/ run. Everything outside the program
  (libnet, the clocks, \<open>rand\<close>) is the record \<open>env\<close>: the answer to the \<open>n\<close>-th external call of
  a run is the value of its field at \<open>n\<close>. The program's side is the record \<open>net\<close>: the number of
  external calls so far, the protocol blocks of the libnet context, the frames handed to
  \<open>libnet_write\<close> with its result, the sleeps made, the statics of \<open>do_sleep\<close>, the shared
  \<open>Running\<close> record, and the pacing locals that every sending function declares for itself
  (a sending function never uses its own after it has called another one that declares them).
\<close>

type_synonym mac = "u8 list"

text \<open>One protocol block, as requested from a \<open>libnet_build_*\<close> function.\<close>

datatype block =
    Arp_block u16 u16 u8 u8 u16 "u8 list" "u8 list" "u8 list" "u8 list"
  | Eth_block mac mac u16 "u8 list"
  | Eth_auto_block mac u16
  | Icmp_echo_block u8 u8 u16 u16 u16 "u8 list"
  | Icmp_unreach_block u8 u8 u16 "u8 list"
  | Icmp_timestamp_block u8 u8 u16 u16 u16 u32 u32 u32
  | Icmp_timeexceed_block u8 u8 u16
  | Icmp_redirect_block u8 u8 u16 u32
  | Ipv4_block u16 u8 u16 u16 u8 u8 u16 u32 u32 "u8 list"

type_synonym frame = "block list"

record env =
  e_init :: "u8 list \<Rightarrow> nat \<Rightarrow> bool"
  e_build :: "nat \<Rightarrow> int"
  e_write :: "nat \<Rightarrow> int"
  e_cull :: "nat \<Rightarrow> int \<times> int"
  e_ipaddr4 :: "nat \<Rightarrow> u32"
  e_prand :: "nat \<Rightarrow> u32"
  e_clock :: "nat \<Rightarrow> int"
  e_now :: "nat \<Rightarrow> timeval"
  e_rand :: "nat \<Rightarrow> nat"
  e_self :: int

record net =
  tick :: nat
  pkt :: frame
  sent :: "(frame \<times> int) list"
  naps :: "(accurate \<times> timespec) list"
  pacer :: pacer
  Running :: running_mission
  delta_ctx :: timeval
  start_time :: timeval
  bytes_sent :: int
  skip_timestamp :: bool

section \<open>External calls\<close>

definition ext :: "(nat \<Rightarrow> 'a) \<Rightarrow> net \<Rightarrow> 'a \<times> net" where
  "ext f w = (f (tick w), w\<lparr>tick := Suc (tick w)\<rparr>)"

definition libnet_init :: "env \<Rightarrow> u8 list \<Rightarrow> net \<Rightarrow> bool \<times> net" where
  "libnet_init E dev w = (let (ok, w1) = ext (e_init E dev) w in (ok, w1\<lparr>pkt := []\<rparr>))"

definition libnet_build :: "env \<Rightarrow> block \<Rightarrow> net \<Rightarrow> int \<times> net" where
  "libnet_build E b w =
     (let (t, w1) = ext (e_build E) w in (t, if t = -1 then w1 else w1\<lparr>pkt := pkt w1 @ [b]\<rparr>))"

definition libnet_write :: "env \<Rightarrow> net \<Rightarrow> int \<times> net" where
  "libnet_write E w = (let (n, w1) = ext (e_write E) w in (n, w1\<lparr>sent := sent w1 @ [(pkt w1, n)]\<rparr>))"

definition libnet_destroy :: "net \<Rightarrow> net" where
  "libnet_destroy w = w\<lparr>pkt := []\<rparr>"

definition libnet_clear_packet :: "net \<Rightarrow> net" where
  "libnet_clear_packet w = w\<lparr>pkt := []\<rparr>"

text \<open>A four-byte object in memory order on the little-endian target.\<close>

definition le_bytes :: "u32 \<Rightarrow> u8 list" where
  "le_bytes x = [ucast x, ucast (drop_bit 8 x), ucast (drop_bit 16 x), ucast (drop_bit 24 x)]"

section \<open>Pacing inside a sending function\<close>

text \<open>The declarations at the head of every paced function: \<open>skip_timestamp\<close>, \<open>delta_ctx\<close>,
  \<open>start_time\<close>, \<open>bytes_sent\<close>.\<close>

definition init_pacing :: "env \<Rightarrow> net \<Rightarrow> net" where
  "init_pacing E w =
     (let (t, w1) = ext (e_now E) w
      in w1\<lparr>skip_timestamp := False, delta_ctx := init_delta_time, start_time := t, bytes_sent := 0\<rparr>)"

definition start_delta_time :: "env \<Rightarrow> net \<Rightarrow> net" where
  "start_delta_time E w = (let (t, w1) = ext (e_now E) w in w1\<lparr>delta_ctx := t\<rparr>)"

definition call_do_sleep :: "env \<Rightarrow> accurate \<Rightarrow> int \<Rightarrow> int \<Rightarrow> net \<Rightarrow> ('r, net) flow" where
  "call_do_sleep E accurate speed len w =
     (let (now, w1) = ext (e_now E) w
      in case do_sleep accurate (delta_ctx w1) (start_time w1) speed (bytes_sent w1) len
                (skip_timestamp w1) now (pacer w1) of
           None \<Rightarrow> Trap w1
         | Some (skip', nap, p') \<Rightarrow>
             Next (w1\<lparr>skip_timestamp := skip', pacer := p',
                     naps := naps w1 @ (case nap of None \<Rightarrow> [] | Some n \<Rightarrow> [n])\<rparr>))"

text \<open>The tail of a sending loop: \<open>if (!top_speed) { do_sleep(...); bytes_sent += added;
  if (!skip_timestamp) start_delta_time(&delta_ctx); }\<close>; the second form stamps the time in
  any case.\<close>

definition pace :: "env \<Rightarrow> bool \<Rightarrow> int \<Rightarrow> int \<Rightarrow> int \<Rightarrow> net \<Rightarrow> ('r, net) flow" where
  "pace E top_speed speed len added w =
     (if top_speed then Next w
      else and_then (call_do_sleep E Accurate_select speed len w)
             (\<lambda>w1. let w2 = w1\<lparr>bytes_sent := to_u64 (bytes_sent w1 + added)\<rparr>
                   in Next (if skip_timestamp w2 then w2 else start_delta_time E w2)))"

definition pace_always :: "env \<Rightarrow> bool \<Rightarrow> int \<Rightarrow> int \<Rightarrow> int \<Rightarrow> net \<Rightarrow> ('r, net) flow" where
  "pace_always E top_speed speed len added w =
     (if top_speed then Next w
      else and_then (call_do_sleep E Accurate_select speed len w)
             (\<lambda>w1. Next (start_delta_time E (w1\<lparr>bytes_sent := to_u64 (bytes_sent w1 + added)\<rparr>))))"

section \<open>Storms\<close>

definition CLOCKS_PER_SEC :: int where
  "CLOCKS_PER_SEC = 1000000"

text \<open>The loop of \<open>send_storm\<close>. \<open>None\<close> means that the loop is still running after \<open>fuel\<close>
  iterations.\<close>

fun send_storm_loop :: "nat \<Rightarrow> env \<Rightarrow> int \<Rightarrow> int \<Rightarrow> bool \<Rightarrow> int \<Rightarrow> int \<Rightarrow> net \<Rightarrow> (int, net) flow option" where
  "send_storm_loop 0 E speed storm_time top_speed start end_t w = None"
| "send_storm_loop (Suc fuel) E speed storm_time top_speed start end_t w =
     (if end_t \<le> storm_time then
        (let (send_len, w1) = libnet_write E w
         in if send_len = -1 then Some (Return (-1) w1)
            else case pace E top_speed speed send_len send_len w1 of
                   Next w2 \<Rightarrow>
                     (let (c, w3) = ext (e_clock E) w2
                      in send_storm_loop fuel E speed storm_time top_speed start
                           ((c - start) sdiv CLOCKS_PER_SEC) w3)
                 | r \<Rightarrow> Some r)
      else Some (Return 1 w))"

definition send_storm :: "nat \<Rightarrow> env \<Rightarrow> int \<Rightarrow> int \<Rightarrow> bool \<Rightarrow> net \<Rightarrow> (int, net) flow option" where
  "send_storm fuel E speed storm_time top_speed w =
     (let (start, w1) = ext (e_clock E) w;
          (c, w2) = ext (e_clock E) w1;
          w3 = init_pacing E w2
      in send_storm_loop fuel E speed storm_time top_speed start ((c - start) sdiv CLOCKS_PER_SEC) w3)"

text \<open>A storm inside the loop of its caller: the result is ignored, a trap is not.\<close>

fun storm_done :: "(int, net) flow \<Rightarrow> (int, net) flow" where
  "storm_done (Return r w) = Next w"
| "storm_done f = f"

fun set_time_loop :: "nat \<Rightarrow> env \<Rightarrow> int \<Rightarrow> int \<Rightarrow> int \<Rightarrow> bool \<Rightarrow> int \<Rightarrow> int \<Rightarrow> net \<Rightarrow> (int, net) flow option" where
  "set_time_loop 0 E speed test_time storm_time top_speed start end_t w = None"
| "set_time_loop (Suc fuel) E speed test_time storm_time top_speed start end_t w =
     (if end_t \<le> test_time then
        (case send_storm (Suc fuel) E speed storm_time top_speed w of
           None \<Rightarrow> None
         | Some r \<Rightarrow>
             (case storm_done r of
                Next w1 \<Rightarrow>
                  (let (c, w2) = ext (e_clock E) w1
                   in set_time_loop fuel E speed test_time storm_time top_speed start
                        ((c - start) sdiv CLOCKS_PER_SEC) w2)
              | r' \<Rightarrow> Some r'))
      else Some (Return 1 w))"

definition send_storm_set_time ::
  "nat \<Rightarrow> env \<Rightarrow> int \<Rightarrow> int \<Rightarrow> int \<Rightarrow> bool \<Rightarrow> net \<Rightarrow> (int, net) flow option" where
  "send_storm_set_time fuel E speed test_time storm_time top_speed w =
     (let (start, w1) = ext (e_clock E) w;
          (c, w2) = ext (e_clock E) w1
      in set_time_loop fuel E speed test_time storm_time top_speed start ((c - start) sdiv CLOCKS_PER_SEC) w2)"

fun random_time_loop :: "nat \<Rightarrow> env \<Rightarrow> int \<Rightarrow> int \<Rightarrow> bool \<Rightarrow> int \<Rightarrow> int \<Rightarrow> net \<Rightarrow> (int, net) flow option" where
  "random_time_loop 0 E speed test_time top_speed start end_t w = None"
| "random_time_loop (Suc fuel) E speed test_time top_speed start end_t w =
     (if end_t \<le> test_time then
        (let (l, w1) = ext (e_rand E) w
         in case send_storm (Suc fuel) E speed (int (l mod 10)) top_speed w1 of
              None \<Rightarrow> None
            | Some r \<Rightarrow>
                (case storm_done r of
                   Next w2 \<Rightarrow>
                     (let (c, w3) = ext (e_clock E) w2
                      in random_time_loop fuel E speed test_time top_speed start
                           ((c - start) sdiv CLOCKS_PER_SEC) w3)
                 | r' \<Rightarrow> Some r'))
      else Some (Return 1 w))"

definition send_storm_random_time ::
  "nat \<Rightarrow> env \<Rightarrow> int \<Rightarrow> int \<Rightarrow> bool \<Rightarrow> net \<Rightarrow> (int, net) flow option" where
  "send_storm_random_time fuel E speed test_time top_speed w =
     (let (R, w0) = ext (e_rand E) w;
          (start, w1) = ext (e_clock E) w0;
          (c, w2) = ext (e_clock E) w1
      in random_time_loop fuel E speed test_time top_speed start ((c - start) sdiv CLOCKS_PER_SEC) w2)"

text \<open>The choice every storm makes after building its frame.\<close>

definition run_storm :: "nat \<Rightarrow> env \<Rightarrow> int \<Rightarrow> int \<Rightarrow> int \<Rightarrow> bool \<Rightarrow> net \<Rightarrow> (int, net) flow option" where
  "run_storm fuel E speed test_time storm_time top_speed w =
     (if storm_time \<noteq> 0 then send_storm_set_time fuel E speed test_time storm_time top_speed w
      else send_storm_random_time fuel E speed test_time top_speed w)"

section \<open>Create_Random\<close>

text \<open>A \<open>memcpy\<close> into a buffer at an offset; \<open>None\<close> when it runs over the end.\<close>

definition memcpy_at :: "u8 list \<Rightarrow> nat \<Rightarrow> u8 list \<Rightarrow> u8 list option" where
  "memcpy_at buf off bs =
     (if off + length bs \<le> length buf
      then Some (take off buf @ bs @ drop (off + length bs) buf) else None)"

fun random_words :: "env \<Rightarrow> nat \<Rightarrow> nat \<Rightarrow> u8 list \<Rightarrow> net \<Rightarrow> u8 list option \<times> net" where
  "random_words E 0 j buf w = (Some buf, w)"
| "random_words E (Suc k) j buf w =
     (let (R, w1) = ext (e_rand E) w
      in case memcpy_at buf (4 * j) (le_bytes (of_nat R)) of
           None \<Rightarrow> (None, w1)
         | Some buf' \<Rightarrow> random_words E k (Suc j) buf' w1)"

definition Create_Random :: "env \<Rightarrow> nat \<Rightarrow> u8 list \<Rightarrow> net \<Rightarrow> u8 list option \<times> net" where
  "Create_Random E len Rd w =
     (let i = len div 4;
          (buf, w1) = random_words E i 0 Rd w;
          m = len mod 4;
          (R, w2) = ext (e_rand E) w1
      in (case buf of None \<Rightarrow> None
          | Some b \<Rightarrow> memcpy_at b (4 * i) (take m (le_bytes (of_nat R))), w2))"

section \<open>The shared record of the running mission\<close>

definition RUNING_MISSION_W :: "int \<Rightarrow> mission_status \<Rightarrow> int \<Rightarrow> mission_type \<Rightarrow> net \<Rightarrow> net" where
  "RUNING_MISSION_W thread_id status started name w =
     w\<lparr>Running := \<lparr>running_thread_id = thread_id, mission_start_time = started,
                   rm_status = status, rm_type = name\<rparr>\<rparr>"

section \<open>What the calls leave unchanged\<close>

lemma ext_simps [simp]: "fst (ext f w) = f (tick w)" "snd (ext f w) = w\<lparr>tick := Suc (tick w)\<rparr>"
  by (simp_all add: ext_def)

lemma libnet_init_simps [simp]:
  "fst (libnet_init E dev w) = e_init E dev (tick w)"
  "tick (snd (libnet_init E dev w)) = Suc (tick w)" "pkt (snd (libnet_init E dev w)) = []"
  "sent (snd (libnet_init E dev w)) = sent w"
  by (simp_all add: libnet_init_def ext_def Let_def)

lemma libnet_build_simps [simp]:
  "fst (libnet_build E b w) = e_build E (tick w)"
  "tick (snd (libnet_build E b w)) = Suc (tick w)"
  "pkt (snd (libnet_build E b w)) = (if e_build E (tick w) = -1 then pkt w else pkt w @ [b])"
  "sent (snd (libnet_build E b w)) = sent w"
  by (simp_all add: libnet_build_def ext_def Let_def)

lemma libnet_write_simps [simp]:
  "fst (libnet_write E w) = e_write E (tick w)"
  "tick (snd (libnet_write E w)) = Suc (tick w)" "pkt (snd (libnet_write E w)) = pkt w"
  "sent (snd (libnet_write E w)) = sent w @ [(pkt w, e_write E (tick w))]"
  by (simp_all add: libnet_write_def ext_def Let_def)

lemma libnet_clear_simps [simp]:
  "tick (libnet_clear_packet w) = tick w" "pkt (libnet_clear_packet w) = []"
  "sent (libnet_clear_packet w) = sent w"
  by (simp_all add: libnet_clear_packet_def)

lemma libnet_destroy_simps [simp]:
  "tick (libnet_destroy w) = tick w" "pkt (libnet_destroy w) = []"
  "sent (libnet_destroy w) = sent w"
  by (simp_all add: libnet_destroy_def)

lemma init_pacing_simps [simp]:
  "tick (init_pacing E w) = Suc (tick w)" "pkt (init_pacing E w) = pkt w" "sent (init_pacing E w) = sent w"
  by (simp_all add: init_pacing_def ext_def Let_def)

lemma start_delta_time_simps [simp]:
  "tick (start_delta_time E w) = Suc (tick w)" "pkt (start_delta_time E w) = pkt w"
  "sent (start_delta_time E w) = sent w"
  by (simp_all add: start_delta_time_def ext_def Let_def)

lemma RUNING_MISSION_W_simps [simp]:
  "tick (RUNING_MISSION_W i s t n w) = tick w" "pkt (RUNING_MISSION_W i s t n w) = pkt w"
  "sent (RUNING_MISSION_W i s t n w) = sent w"
  by (simp_all add: RUNING_MISSION_W_def)

text \<open>The speeds that cannot trap: no pacing at all, or a divisor that is not 0 in 32 bits.\<close>

definition paced_ok :: "bool \<Rightarrow> int \<Rightarrow> bool" where
  "paced_ok top_speed speed \<longleftrightarrow> top_speed \<or> to_u32 speed \<noteq> 0"

lemma call_do_sleep_ok:
  assumes "to_u32 speed \<noteq> 0"
  shows "\<exists>w'. call_do_sleep E a speed len w = Next w' \<and> tick w \<le> tick w' \<and> pkt w' = pkt w \<and> sent w' = sent w"
proof -
  let ?w1 = "w\<lparr>tick := Suc (tick w)\<rparr>"
  obtain s' nap p' where "do_sleep a (delta_ctx w) (start_time w) speed (bytes_sent w) len
      (skip_timestamp w) (e_now E (tick w)) (pacer w) = Some (s', nap, p')"
    using do_sleep_total [OF assms] by (metis prod_cases3)
  then show ?thesis by (simp add: call_do_sleep_def ext_def)
qed

lemma pace_ok:
  assumes "paced_ok tsp speed"
  shows "\<exists>w'. pace E tsp speed len added w = (Next w' :: ('r, net) flow) \<and> tick w \<le> tick w' \<and> pkt w' = pkt w \<and> sent w' = sent w"
proof (cases tsp)
  case False
  with assms have "to_u32 speed \<noteq> 0" by (simp add: paced_ok_def)
  from call_do_sleep_ok [OF this, of E Accurate_select len w] obtain w1 where
    "call_do_sleep E Accurate_select speed len w = (Next w1 :: ('r, net) flow)"
    "tick w \<le> tick w1" "pkt w1 = pkt w" "sent w1 = sent w" by blast
  with False show ?thesis by (simp add: pace_def Let_def)
qed (simp add: pace_def)

lemma pace_always_ok:
  assumes "paced_ok tsp speed"
  shows "\<exists>w'. pace_always E tsp speed len added w = (Next w' :: ('r, net) flow) \<and> tick w \<le> tick w' \<and> pkt w' = pkt w \<and> sent w' = sent w"
proof (cases tsp)
  case False
  with assms have "to_u32 speed \<noteq> 0" by (simp add: paced_ok_def)
  from call_do_sleep_ok [OF this, of E Accurate_select len w] obtain w1 where
    "call_do_sleep E Accurate_select speed len w = (Next w1 :: ('r, net) flow)"
    "tick w \<le> tick w1" "pkt w1 = pkt w" "sent w1 = sent w" by blast
  with False show ?thesis by (simp add: pace_always_def)
qed (simp add: pace_always_def)

section \<open>Storms resend one frame and end\<close>

text \<open>\<open>resends w w'\<close>: between the two states only copies of the current frame were written.\<close>

definition resends :: "net \<Rightarrow> net \<Rightarrow> bool" where
  "resends w w' \<longleftrightarrow> pkt w' = pkt w \<and> tick w \<le> tick w' \<and>
     (\<exists>rs. sent w' = sent w @ map (Pair (pkt w)) rs)"

lemma resends_refl [simp]: "resends w w"
  by (auto simp: resends_def intro: exI [of _ "[]"])

lemma resends_trans: "resends u v \<Longrightarrow> resends v w \<Longrightarrow> resends u w"
  by (auto simp: resends_def intro: exI [of _ "_ @ _"])

lemma resends_same: "pkt w' = pkt w \<Longrightarrow> tick w \<le> tick w' \<Longrightarrow> sent w' = sent w \<Longrightarrow> resends w w'"
  by (auto simp: resends_def intro: exI [of _ "[]"])

lemma resends_write: "resends w (snd (libnet_write E w))"
  by (auto simp: resends_def intro: exI [of _ "[e_write E (tick w)]"])

definition clock_advances :: "env \<Rightarrow> bool" where
  "clock_advances E \<longleftrightarrow> (\<forall>B. \<exists>N. \<forall>n\<ge>N. B \<le> e_clock E n)"

lemma seconds_exceed:
  assumes "start + (max 0 t + 1) * CLOCKS_PER_SEC \<le> c"
  shows "t < (c - start) sdiv CLOCKS_PER_SEC"
proof -
  have "0 < c - start" using assms by (auto simp: CLOCKS_PER_SEC_def max_def split: if_splits)
  then have "(c - start) sdiv CLOCKS_PER_SEC = (c - start) div CLOCKS_PER_SEC"
    by (simp add: signed_divide_int_def CLOCKS_PER_SEC_def)
  moreover have "max 0 t + 1 \<le> (c - start) div CLOCKS_PER_SEC"
    using assms by (simp add: CLOCKS_PER_SEC_def)
  ultimately show ?thesis by simp
qed

lemma clock_passes:
  assumes "clock_advances E"
  obtains N where "\<And>n. N \<le> n \<Longrightarrow> t < (e_clock E n - start) sdiv CLOCKS_PER_SEC"
  using assms seconds_exceed unfolding clock_advances_def by metis

text \<open>The frames of one storm: copies of the current one, the last write failing exactly when the
  storm reports \<open>-1\<close>, no other write failing.\<close>

definition storm_result :: "net \<Rightarrow> int \<Rightarrow> net \<Rightarrow> bool" where
  "storm_result w r w' \<longleftrightarrow> pkt w' = pkt w \<and> tick w \<le> tick w' \<and>
     (\<exists>rs. sent w' = sent w @ map (Pair (pkt w)) (rs @ (if r = -1 then [-1] else [])) \<and> -1 \<notin> set rs)"

lemma storm_result_resends: "storm_result w r w' \<Longrightarrow> resends w w'"
  unfolding storm_result_def resends_def by blast

lemma storm_result_step:
  assumes "pkt w1 = pkt w" "tick w \<le> tick w1" "sent w1 = sent w @ [(pkt w, n)]" "n \<noteq> -1"
    "storm_result w1 r w'"
  shows "storm_result w r w'"
proof -
  from assms(5) obtain rs where
    "sent w' = sent w1 @ map (Pair (pkt w1)) (rs @ (if r = -1 then [-1] else []))" "-1 \<notin> set rs"
    unfolding storm_result_def by blast
  then have "sent w' = sent w @ map (Pair (pkt w)) ((n # rs) @ (if r = -1 then [-1] else []))"
    "-1 \<notin> set (n # rs)"
    using assms(1,3,4) by simp_all
  then show ?thesis using assms unfolding storm_result_def by (metis le_trans)
qed

lemma send_storm_loop_settles:
  assumes N: "\<And>n. N \<le> n \<Longrightarrow> storm_time < (e_clock E n - start) sdiv CLOCKS_PER_SEC"
    and ok: "paced_ok tsp speed"
  shows "\<exists>r w'. settles (\<lambda>n. send_storm_loop n E speed storm_time tsp start end_t w) (Return r w') \<and>
           (r = 1 \<or> r = -1) \<and> storm_result w r w'"
proof (induction "(if end_t \<le> storm_time then Suc (N - tick w) else 0)" arbitrary: w end_t rule: less_induct)
  case less
  show ?case
  proof (cases "end_t \<le> storm_time")
    case False
    have "settles (\<lambda>n. send_storm_loop n E speed storm_time tsp start end_t w) (Return 1 w)"
      by (rule settles_Suc) (use False in simp)
    moreover have "storm_result w 1 w" by (auto simp: storm_result_def)
    ultimately show ?thesis by blast
  next
    case True
    let ?n = "e_write E (tick w)" and ?w1 = "snd (libnet_write E w)"
    show ?thesis
    proof (cases "?n = -1")
      case fail: True
      have "settles (\<lambda>n. send_storm_loop n E speed storm_time tsp start end_t w) (Return (-1) ?w1)"
        by (rule settles_Suc) (use True fail in \<open>simp add: case_prod_unfold\<close>)
      moreover have "storm_result w (-1) ?w1" using fail
        by (auto simp: storm_result_def intro: exI [of _ "[]"])
      ultimately show ?thesis by blast
    next
      case good: False
      obtain w2 where w2: "pace E tsp speed ?n ?n ?w1 = (Next w2 :: (int, net) flow)"
        "tick ?w1 \<le> tick w2" "pkt w2 = pkt ?w1" "sent w2 = sent ?w1"
        using pace_ok [OF ok] by blast
      let ?w3 = "w2\<lparr>tick := Suc (tick w2)\<rparr>"
      let ?e = "(e_clock E (tick w2) - start) sdiv CLOCKS_PER_SEC"
      have "(if ?e \<le> storm_time then Suc (N - tick ?w3) else 0)
             < (if end_t \<le> storm_time then Suc (N - tick w) else 0)"
      proof (cases "?e \<le> storm_time")
        case e: True
        then have "tick w2 < N" using N [of "tick w2"] by (meson not_le)
        then show ?thesis using e True w2(2) by simp
      qed (use True in simp)
      from less [OF this] obtain r w' where
        IH: "settles (\<lambda>n. send_storm_loop n E speed storm_time tsp start ?e ?w3) (Return r w')"
        "r = 1 \<or> r = -1" "storm_result ?w3 r w'" by blast
      have "settles (\<lambda>n. send_storm_loop n E speed storm_time tsp start end_t w) (Return r w')"
        by (rule settles_Suc) (use True good w2(1) IH(1) in \<open>simp add: case_prod_unfold\<close>)
      moreover have "storm_result w r w'"
        by (rule storm_result_step [OF _ _ _ good IH(3)]) (use w2 in simp_all)
      ultimately show ?thesis using IH(2) by blast
    qed
  qed
qed

lemma send_storm_settles:
  assumes "clock_advances E" "paced_ok tsp speed"
  shows "\<exists>r w'. settles (\<lambda>n. send_storm n E speed storm_time tsp w) (Return r w') \<and>
           (r = 1 \<or> r = -1) \<and> storm_result w r w' \<and> tick w < tick w'"
proof -
  let ?start = "e_clock E (tick w)" and ?c = "e_clock E (Suc (tick w))"
  let ?w3 = "init_pacing E (w\<lparr>tick := Suc (Suc (tick w))\<rparr>)"
  obtain N where "\<And>n. N \<le> n \<Longrightarrow> storm_time < (e_clock E n - ?start) sdiv CLOCKS_PER_SEC"
    using clock_passes [OF assms(1), of storm_time ?start] by blast
  from send_storm_loop_settles [OF this assms(2)] obtain r w' where
    *: "settles (\<lambda>n. send_storm_loop n E speed storm_time tsp ?start ((?c - ?start) sdiv CLOCKS_PER_SEC) ?w3)
        (Return r w')" "r = 1 \<or> r = -1" "storm_result ?w3 r w'" by blast
  have "settles (\<lambda>n. send_storm n E speed storm_time tsp w) (Return r w')"
    using *(1) by (simp add: send_storm_def ext_def)
  moreover have "storm_result w r w'" "tick w < tick w'"
    using *(3) by (simp_all add: storm_result_def)
  ultimately show ?thesis using *(2) by blast
qed

lemma resends_tick: "resends w w1 \<Longrightarrow> resends w (w1\<lparr>tick := Suc (tick w1)\<rparr>)"
  by (auto simp: resends_def)

lemma resends_tick': "resends (w\<lparr>tick := Suc (tick w)\<rparr>) w1 \<Longrightarrow> resends w w1"
  by (auto simp: resends_def)

text \<open>One round of the two outer loops: a storm, then a reading of the clock.\<close>

lemma storm_round:
  assumes "clock_advances E" "paced_ok tsp speed"
    and rest: "\<And>w1. resends w w1 \<Longrightarrow> tick w < tick w1 \<Longrightarrow>
      \<exists>w2. settles (\<lambda>n. rest n w1) (Return 1 w2) \<and> resends w1 w2"
    and h: "\<And>n r w1. send_storm (Suc n) E speed storm_time tsp w = Some (Return r w1) \<Longrightarrow> h n = rest n w1"
  shows "\<exists>w2. settles h (Return 1 w2) \<and> resends w w2"
proof -
  obtain r w1 where 1: "settles (\<lambda>n. send_storm n E speed storm_time tsp w) (Return r w1)"
    "storm_result w r w1" "tick w < tick w1"
    using send_storm_settles [OF assms(1,2)] by blast
  have r: "resends w w1" by (rule storm_result_resends [OF 1(2)])
  from rest [OF r 1(3)] obtain w2 where 2: "settles (\<lambda>n. rest n w1) (Return 1 w2)" "resends w1 w2" by blast
  have "settles h (Return 1 w2)"
    by (rule settles_bind [OF settles_shift [OF 1(1)], where g = "\<lambda>n y. rest n w1"]) (use 2(1) h in simp_all)
  then show ?thesis using resends_trans [OF r 2(2)] by blast
qed

lemma set_time_loop_settles:
  assumes clk: "clock_advances E" and ok: "paced_ok tsp speed"
    and N: "\<And>n. N \<le> n \<Longrightarrow> test_time < (e_clock E n - start) sdiv CLOCKS_PER_SEC"
  shows "\<exists>w'. settles (\<lambda>n. set_time_loop n E speed test_time storm_time tsp start end_t w) (Return 1 w') \<and>
           resends w w'"
proof (induction "(if end_t \<le> test_time then Suc (N - tick w) else 0)" arbitrary: w end_t rule: less_induct)
  case less
  let ?e = "\<lambda>u. (e_clock E (tick u) - start) sdiv CLOCKS_PER_SEC"
  show ?case
  proof (cases "end_t \<le> test_time")
    case False
    have "settles (\<lambda>n. set_time_loop n E speed test_time storm_time tsp start end_t w) (Return 1 w)"
      by (rule settles_Suc) (use False in simp)
    then show ?thesis using resends_refl by blast
  next
    case True
    have "\<exists>w'. settles (\<lambda>n. set_time_loop (Suc n) E speed test_time storm_time tsp start end_t w) (Return 1 w') \<and>
           resends w w'"
    proof (rule storm_round [OF clk ok, where storm_time = storm_time])
      fix w1 :: net
      assume w1: "tick w < tick w1"
      let ?w2 = "w1\<lparr>tick := Suc (tick w1)\<rparr>"
      have "?e w1 \<le> test_time \<Longrightarrow> tick w1 < N" using N by (meson not_le)
      then have "(if ?e w1 \<le> test_time then Suc (N - tick ?w2) else 0)
             < (if end_t \<le> test_time then Suc (N - tick w) else 0)" using True w1 by auto
      from less [OF this] show "\<exists>w2. settles (\<lambda>n. set_time_loop n E speed test_time storm_time tsp start
           (?e w1) ?w2) (Return 1 w2) \<and> resends w1 w2"
        using resends_tick' by blast
    qed (use True in \<open>simp add: ext_def\<close>)
    then show ?thesis
      by (blast intro: settles_Suc [where f = "\<lambda>n. set_time_loop n E speed test_time storm_time tsp start end_t w"])
  qed
qed

lemma random_time_loop_settles:
  assumes clk: "clock_advances E" and ok: "paced_ok tsp speed"
    and N: "\<And>n. N \<le> n \<Longrightarrow> test_time < (e_clock E n - start) sdiv CLOCKS_PER_SEC"
  shows "\<exists>w'. settles (\<lambda>n. random_time_loop n E speed test_time tsp start end_t w) (Return 1 w') \<and>
           resends w w'"
proof (induction "(if end_t \<le> test_time then Suc (N - tick w) else 0)" arbitrary: w end_t rule: less_induct)
  case less
  let ?e = "\<lambda>u. (e_clock E (tick u) - start) sdiv CLOCKS_PER_SEC"
  let ?u = "w\<lparr>tick := Suc (tick w)\<rparr>"
  show ?case
  proof (cases "end_t \<le> test_time")
    case False
    have "settles (\<lambda>n. random_time_loop n E speed test_time tsp start end_t w) (Return 1 w)"
      by (rule settles_Suc) (use False in simp)
    then show ?thesis using resends_refl by blast
  next
    case True
    have "\<exists>w'. settles (\<lambda>n. random_time_loop (Suc n) E speed test_time tsp start end_t w) (Return 1 w') \<and>
           resends ?u w'"
    proof (rule storm_round [OF clk ok, where storm_time = "int (e_rand E (tick w) mod 10)"])
      fix w1 :: net
      assume w1: "tick ?u < tick w1"
      let ?w2 = "w1\<lparr>tick := Suc (tick w1)\<rparr>"
      have "?e w1 \<le> test_time \<Longrightarrow> tick w1 < N" using N by (meson not_le)
      then have "(if ?e w1 \<le> test_time then Suc (N - tick ?w2) else 0)
             < (if end_t \<le> test_time then Suc (N - tick w) else 0)" using True w1 by auto
      from less [OF this] show "\<exists>w2. settles (\<lambda>n. random_time_loop n E speed test_time tsp start
           (?e w1) ?w2) (Return 1 w2) \<and> resends w1 w2"
        using resends_tick' by blast
    qed (use True in \<open>simp add: ext_def\<close>)
    then show ?thesis using resends_tick'
      by (blast intro: settles_Suc [where f = "\<lambda>n. random_time_loop n E speed test_time tsp start end_t w"])
  qed
qed

lemma run_storm_settles:
  assumes "clock_advances E" "paced_ok tsp speed"
  shows "\<exists>w'. settles (\<lambda>n. run_storm n E speed test_time storm_time tsp w) (Return 1 w') \<and> resends w w'"
proof (cases "storm_time = 0")
  case False
  let ?u = "w\<lparr>tick := Suc (Suc (tick w))\<rparr>"
  obtain N where "\<And>n. N \<le> n \<Longrightarrow> test_time < (e_clock E n - e_clock E (tick w)) sdiv CLOCKS_PER_SEC"
    using clock_passes [OF assms(1), of test_time "e_clock E (tick w)"] by blast
  then have "\<exists>w'. settles (\<lambda>n. set_time_loop n E speed test_time storm_time tsp (e_clock E (tick w))
       ((e_clock E (Suc (tick w)) - e_clock E (tick w)) sdiv CLOCKS_PER_SEC) ?u) (Return 1 w') \<and> resends ?u w'"
    by (rule set_time_loop_settles [OF assms])
  then show ?thesis using False Suc_leD
    by (fastforce simp: run_storm_def send_storm_set_time_def ext_def resends_def)
next
  case True
  let ?u = "w\<lparr>tick := Suc (Suc (Suc (tick w)))\<rparr>"
  obtain N where "\<And>n. N \<le> n \<Longrightarrow> test_time < (e_clock E n - e_clock E (Suc (tick w))) sdiv CLOCKS_PER_SEC"
    using clock_passes [OF assms(1), of test_time "e_clock E (Suc (tick w))"] by blast
  then have "\<exists>w'. settles (\<lambda>n. random_time_loop n E speed test_time tsp (e_clock E (Suc (tick w)))
       ((e_clock E (Suc (Suc (tick w))) - e_clock E (Suc (tick w))) sdiv CLOCKS_PER_SEC) ?u) (Return 1 w') \<and> resends ?u w'"
    by (rule random_time_loop_settles [OF assms])
  then show ?thesis using True Suc_leD
    by (fastforce simp: run_storm_def send_storm_random_time_def ext_def resends_def)
qed

section \<open>What \<open>Create_Random\<close> writes\<close>

definition rand_bytes :: "env \<Rightarrow> nat \<Rightarrow> nat \<Rightarrow> u8 list" where
  "rand_bytes E t k = concat (map (\<lambda>n. le_bytes (of_nat (e_rand E (t + n)))) [0..<k])"

lemma length_le_bytes [simp]: "length (le_bytes x) = 4"
  by (simp add: le_bytes_def)

lemma rand_bytes_0 [simp]: "rand_bytes E t 0 = []"
  by (simp add: rand_bytes_def)

lemma rand_bytes_Suc: "rand_bytes E t (Suc k) = le_bytes (of_nat (e_rand E t)) @ rand_bytes E (Suc t) k"
  by (simp add: rand_bytes_def upt_conv_Cons map_Suc_upt [symmetric] o_def del: upt_Suc)

lemma rand_bytes_snoc: "rand_bytes E t (Suc k) = rand_bytes E t k @ le_bytes (of_nat (e_rand E (t + k)))"
  by (simp add: rand_bytes_def)

lemma length_rand_bytes [simp]: "length (rand_bytes E t k) = 4 * k"
  by (induction k arbitrary: t) (simp_all add: rand_bytes_Suc)

lemma random_words_writes:
  "4 * (j + k) \<le> length buf \<Longrightarrow> random_words E k j buf w =
     (Some (take (4 * j) buf @ rand_bytes E (tick w) k @ drop (4 * (j + k)) buf), w\<lparr>tick := tick w + k\<rparr>)"
proof (induction k arbitrary: j buf w)
  case (Suc k)
  let ?b = "take (4 * j) buf @ le_bytes (of_nat (e_rand E (tick w))) @ drop (4 * j + 4) buf"
  have "random_words E (Suc k) j buf w = random_words E k (Suc j) ?b (w\<lparr>tick := Suc (tick w)\<rparr>)"
    using Suc.prems by (simp add: ext_def memcpy_at_def)
  moreover have "4 * (Suc j + k) \<le> length ?b" using Suc.prems by simp
  moreover have "take (4 * Suc j) ?b = take (4 * j) buf @ le_bytes (of_nat (e_rand E (tick w)))"
    "drop (4 * (Suc j + k)) ?b = drop (4 * (j + Suc k)) buf"
    using Suc.prems by (simp_all add: min_def algebra_simps)
  ultimately show ?case by (simp add: Suc.IH rand_bytes_Suc)
qed simp

lemma random_words_overrun:
  "length buf < 4 * (j + k) \<Longrightarrow> 4 * j \<le> length buf \<Longrightarrow> fst (random_words E k j buf w) = None"
proof (induction k arbitrary: j buf w)
  case (Suc k)
  show ?case
  proof (cases "4 * j + 4 \<le> length buf")
    case True
    let ?b = "take (4 * j) buf @ le_bytes (of_nat (e_rand E (tick w))) @ drop (4 * j + 4) buf"
    have "random_words E (Suc k) j buf w = random_words E k (Suc j) ?b (w\<lparr>tick := Suc (tick w)\<rparr>)"
      using True by (simp add: ext_def memcpy_at_def)
    then show ?thesis using Suc.IH [of ?b "Suc j"] Suc.prems True by simp
  qed (simp add: ext_def memcpy_at_def)
qed simp

lemma Create_Random_value:
  "fst (Create_Random E len Rd w) =
     (if len \<le> length Rd then Some (take len (rand_bytes E (tick w) (len div 4 + 1)) @ drop len Rd)
      else None)"
proof (cases "4 * (len div 4) \<le> length Rd")
  case True
  have len: "len = 4 * (len div 4) + len mod 4" by simp
  let ?R = "le_bytes (of_nat (e_rand E (tick w + len div 4)))"
  have take: "take len (rand_bytes E (tick w) (len div 4 + 1)) =
      rand_bytes E (tick w) (len div 4) @ take (len mod 4) ?R"
    by (simp add: rand_bytes_snoc minus_mult_div_eq_mod)
  have "Create_Random E len Rd w =
      (memcpy_at (rand_bytes E (tick w) (len div 4) @ drop (4 * (len div 4)) Rd) (4 * (len div 4))
         (take (len mod 4) ?R), w\<lparr>tick := Suc (tick w + len div 4)\<rparr>)"
    using random_words_writes [of 0 "len div 4" Rd E w] True
    by (simp add: Create_Random_def ext_def Let_def)
  then show ?thesis using True len take by (auto simp: memcpy_at_def)
next
  case False
  then have "fst (random_words E (len div 4) 0 Rd w) = None" by (intro random_words_overrun) simp_all
  moreover have "length Rd < len" using False by linarith
  ultimately show ?thesis by (auto simp: Create_Random_def case_prod_unfold Let_def)
qed

lemma random_words_frame:
  "pkt (snd (random_words E k j buf w)) = pkt w" "sent (snd (random_words E k j buf w)) = sent w"
  by (induction E k j buf w rule: random_words.induct) (auto simp: ext_def split: option.splits)

lemma Create_Random_frame:
  "pkt (snd (Create_Random E len Rd w)) = pkt w" "sent (snd (Create_Random E len Rd w)) = sent w"
  by (simp_all add: Create_Random_def case_prod_unfold Let_def random_words_frame)

section \<open>A concrete setting\<close>

text \<open>The state in which the server starts, and an environment in which every libnet call
  succeeds, the clocks advance by 0.4 s per reading and \<open>rand\<close> counts.\<close>

definition net_init :: net where
  "net_init = \<lparr>tick = 0, pkt = [], sent = [], naps = [], pacer = pacer_init,
     Running = running_zero,
     delta_ctx = \<lparr>tv_sec = 0, tv_usec = 0\<rparr>, start_time = \<lparr>tv_sec = 0, tv_usec = 0\<rparr>, bytes_sent = 0, skip_timestamp = False\<rparr>"

definition good_env :: env where
  "good_env = \<lparr>e_init = \<lambda>d n. True, e_build = \<lambda>n. 1, e_write = \<lambda>n. 60, e_cull = \<lambda>n. (1, 60),
     e_ipaddr4 = \<lambda>n. 0x0100007F, e_prand = \<lambda>n. of_nat n, e_clock = \<lambda>n. 400000 * int n,
     e_now = \<lambda>n. \<lparr>tv_sec = int n, tv_usec = 0\<rparr>, e_rand = \<lambda>n. n, e_self = 7\<rparr>"

lemma good_env_simps [simp]:
  "e_init good_env = (\<lambda>d n. True)" "e_build good_env = (\<lambda>n. 1)" "e_write good_env = (\<lambda>n. 60)"
  "e_cull good_env = (\<lambda>n. (1, 60))" "e_ipaddr4 good_env = (\<lambda>n. 0x0100007F)" "e_prand good_env = of_nat"
  "e_clock good_env = (\<lambda>n. 400000 * int n)" "e_rand good_env = (\<lambda>n. n)" "e_self good_env = 7"
  by (simp_all add: good_env_def)

lemma good_env_advances: "clock_advances good_env"
  unfolding clock_advances_def
proof (intro allI)
  fix B :: int
  have "\<forall>n\<ge>nat B. B \<le> e_clock good_env n" by auto
  then show "\<exists>N. \<forall>n\<ge>N. B \<le> e_clock good_env n" by blast
qed

section \<open>Properties\<close>

text \<open>A storm ends and only repeats its frame. If the clock of the process advances and the
  speed cannot trap, \<open>send_storm\<close> returns 1 or -1, having written nothing but copies of the
  current frame; it returns -1 exactly when a write failed, and then that write was its last.\<close>

theorem send_storm_ends:
  assumes "clock_advances E" "paced_ok tsp speed"
  shows "\<exists>r w' rs. settles (\<lambda>fuel. send_storm fuel E speed storm_time tsp w) (Return r w') \<and>
     pkt w' = pkt w \<and> -1 \<notin> set rs \<and>
     ((r = 1 \<and> sent w' = sent w @ map (Pair (pkt w)) rs) \<or>
      (r = -1 \<and> sent w' = sent w @ map (Pair (pkt w)) (rs @ [-1])))"
proof -
  obtain r w' where "settles (\<lambda>n. send_storm n E speed storm_time tsp w) (Return r w')"
    "r = 1 \<or> r = -1" "storm_result w r w'"
    using send_storm_settles [OF assms] by blast
  then show ?thesis unfolding storm_result_def by (auto split: if_splits)
qed

theorem send_storm_ends_witness:
  "\<exists>r w' rs. settles (\<lambda>fuel. send_storm fuel good_env 1000 2 False net_init) (Return r w') \<and>
     pkt w' = pkt net_init \<and> -1 \<notin> set rs \<and>
     ((r = 1 \<and> sent w' = sent net_init @ map (Pair (pkt net_init)) rs) \<or>
      (r = -1 \<and> sent w' = sent net_init @ map (Pair (pkt net_init)) (rs @ [-1])))"
  by (rule send_storm_ends) (simp_all add: good_env_advances paced_ok_def)

text \<open>C6: The whole storm test, in both its forms (a fixed time per storm, or a random one when
  that is 0), returns 1 whatever the writes answer, having written copies of the current frame
  only. Without the advance of the clock there is no such bound: the storms have no counter.\<close>

theorem run_storm_ends:
  assumes "clock_advances E" "paced_ok tsp speed"
  shows "\<exists>w' rs. settles (\<lambda>fuel. run_storm fuel E speed test_time storm_time tsp w) (Return 1 w') \<and>
     pkt w' = pkt w \<and> sent w' = sent w @ map (Pair (pkt w)) rs"
  using run_storm_settles [OF assms] unfolding resends_def by blast

theorem run_storm_ends_witness:
  "\<exists>w' rs. settles (\<lambda>fuel. run_storm fuel good_env 1000 3 0 True net_init) (Return 1 w') \<and>
     pkt w' = pkt net_init \<and> sent w' = sent net_init @ map (Pair (pkt net_init)) rs"
  by (rule run_storm_ends) (simp_all add: good_env_advances paced_ok_def)

text \<open>\<open>Create_Random\<close> fills exactly the \<open>len\<close> bytes asked for with consecutive outputs of
  \<open>rand\<close> and leaves the rest of the buffer alone, and it is memory safe exactly when the buffer
  has at least \<open>len\<close> bytes.\<close>

theorem Create_Random_fills:
  "fst (Create_Random E len Rd w) =
     (if len \<le> length Rd then Some (take len (rand_bytes E (tick w) (len div 4 + 1)) @ drop len Rd)
      else None)"
  by (rule Create_Random_value)

end
