(* ===== verification/Jobs.thy ===== *)
theory Jobs
  imports Net_World
begin

text \<open>
  What the generators of network/ethernet.c, network/arp.c and network/icmp.c share: their argument
  structs, the way a storm ends, and the lemmas on one iteration of a generator loop (build a
  frame, write it, pace, clear the packet).
\<close>

text \<open>The argument structs of the three headers. Each has a subset of these fields; the byte
  arrays have 16 bytes for the addresses, 6 for the hardware addresses and 10 for the device.\<close>

record job =
  ip_dst :: "u8 list"
  ip_src :: "u8 list"
  enet_src :: "u8 list"
  enet_dst :: "u8 list"
  device :: "u8 list"
  speed :: int
  test_time :: int
  storm_time :: int
  top_speed :: bool

definition job_ok :: "job \<Rightarrow> bool" where
  "job_ok a \<longleftrightarrow> length (ip_dst a) = 16 \<and> length (ip_src a) = 16 \<and> length (enet_src a) = 6 \<and>
     length (enet_dst a) = 6 \<and> length (device a) = 10"

abbreviation "job_paced a \<equiv> paced_ok (top_speed a) (speed a)"

text \<open>A storm whose result the caller drops, followed by \<open>return 1\<close>.\<close>

definition finish_storm :: "(net \<Rightarrow> net) \<Rightarrow> (int, net) flow option \<Rightarrow> (int, net) flow option" where
  "finish_storm f r = map_option (\<lambda>x. and_then (storm_done x) (\<lambda>w. Return 1 (f w))) r"

definition frames_sent :: "net \<Rightarrow> frame list" where
  "frames_sent w = map fst (sent w)"

lemma frames_sent_cong: "sent w' = sent w \<Longrightarrow> frames_sent w' = frames_sent w"
  by (simp add: frames_sent_def)

lemma frames_sent_tick [simp]: "frames_sent (w\<lparr>tick := t\<rparr>) = frames_sent w"
  "frames_sent (w\<lparr>pkt := p\<rparr>) = frames_sent w"
  by (simp_all add: frames_sent_def)

lemma frames_sent_calls [simp]:
  "frames_sent (snd (libnet_init E dev w)) = frames_sent w"
  "frames_sent (snd (libnet_build E b w)) = frames_sent w"
  "frames_sent (snd (libnet_write E w)) = frames_sent w @ [pkt w]"
  "frames_sent (libnet_clear_packet w) = frames_sent w"
  "frames_sent (libnet_destroy w) = frames_sent w"
  "frames_sent (init_pacing E w) = frames_sent w"
  by (simp_all add: frames_sent_def)

abbreviation no_packet :: "net \<Rightarrow> bool" where
  "no_packet w \<equiv> pkt w = []"

abbreviation build_fails :: "env \<Rightarrow> bool" where
  "build_fails E \<equiv> (\<exists>n. e_build E n = -1)"

abbreviation gen_emits :: "env \<Rightarrow> (net \<Rightarrow> (int, net) flow) \<Rightarrow> frame list \<Rightarrow> bool" where
  "gen_emits E m fs \<equiv> emits frames_sent no_packet 0 (build_fails E) m fs"

text \<open>What follows the building of a frame in every generator loop.\<close>

definition write_and_pace :: "env \<Rightarrow> bool \<Rightarrow> int \<Rightarrow> int \<Rightarrow> net \<Rightarrow> (int, net) flow" where
  "write_and_pace E tsp sp packet_s w =
     (let (send_len, w1) = libnet_write E w
      in and_then (pace E tsp sp send_len packet_s w1) (\<lambda>w2. Next (libnet_clear_packet w2)))"

lemma write_and_pace_next:
  assumes "paced_ok tsp sp"
  shows "\<exists>w'. write_and_pace E tsp sp ps w = Next w' \<and> no_packet w' \<and>
           frames_sent w' = frames_sent w @ [pkt w]"
proof -
  obtain w2 where "pace E tsp sp (e_write E (tick w)) ps (snd (libnet_write E w)) = (Next w2 :: (int, net) flow)"
    "sent w2 = sent (snd (libnet_write E w))"
    using pace_ok [OF assms] by blast
  then show ?thesis by (simp add: write_and_pace_def case_prod_unfold frames_sent_def)
qed

text \<open>A generator that ran to its end or stopped at the first block libnet refused.\<close>

definition generated :: "env \<Rightarrow> frame list \<Rightarrow> net \<Rightarrow> (int, net) flow \<Rightarrow> bool" where
  "generated E fs w r \<longleftrightarrow>
     (\<exists>w'. r = Return 1 w' \<and> frames_sent w' = frames_sent w @ fs) \<or>
     (build_fails E \<and> (\<exists>w' p. r = Return 0 w' \<and> strict_prefix p fs \<and> frames_sent w' = frames_sent w @ p))"

lemma emits_generated:
  assumes "gen_emits E m fs" "no_packet w" "frames_sent w = frames_sent w0"
    "\<And>u. frames_sent (f u) = frames_sent u"
  shows "generated E fs w0 (and_then (m w) (\<lambda>w'. Return 1 (f w')))"
  using assms(1,2)
proof (cases rule: emits_cases)
  case (falls s')
  then show ?thesis using assms(3,4) by (auto simp: generated_def)
next
  case (returns s' p)
  then show ?thesis using assms(3) by (auto simp: generated_def)
qed

lemma generated_complete:
  assumes "generated E fs w r" "\<And>n. e_build E n \<noteq> -1"
  shows "\<exists>w'. r = Return 1 w' \<and> frames_sent w' = frames_sent w @ fs"
  using assms by (auto simp: generated_def)

lemma settles_finish:
  assumes "clock_advances E" "paced_ok tsp sp"
  shows "\<exists>w1 rs. settles (\<lambda>n. finish_storm f (run_storm n E sp tt st tsp w)) (Return 1 (f w1)) \<and>
     sent w1 = sent w @ map (Pair (pkt w)) rs"
proof -
  obtain w1 where 1: "settles (\<lambda>n. run_storm n E sp tt st tsp w) (Return 1 w1)" "resends w w1"
    using run_storm_settles [OF assms] by blast
  have "settles (\<lambda>n. finish_storm f (run_storm n E sp tt st tsp w)) (Return 1 (f w1))"
    by (rule settles_bind [OF 1(1), where g = "\<lambda>n y. Some (Return 1 (f w1))"])
      (simp_all add: finish_storm_def)
  then show ?thesis using 1(2) by (auto simp: resends_def)
qed

lemma settles_finish_storm:
  assumes "clock_advances E" "paced_ok tsp sp" "\<And>u. sent (f u) = sent u"
  shows "\<exists>w' rs. settles (\<lambda>n. finish_storm f (run_storm n E sp tt st tsp w)) (Return 1 w') \<and>
     sent w' = sent w @ map (Pair (pkt w)) rs"
  using settles_finish [OF assms(1,2)] assms(3) by metis

section \<open>Building a frame block by block\<close>

text \<open>\<open>if (libnet_build_...(...) == -1) { cleanup; return 0; }\<close>.\<close>

definition build_or_fail :: "env \<Rightarrow> (net \<Rightarrow> net) \<Rightarrow> block \<Rightarrow> net \<Rightarrow> (int, net) flow" where
  "build_or_fail E cleanup b w =
     (let (t, w1) = libnet_build E b w in if t = -1 then Return 0 (cleanup w1) else Next w1)"

fun build_blocks :: "env \<Rightarrow> ((net \<Rightarrow> net) \<times> block) list \<Rightarrow> net \<Rightarrow> (int, net) flow" where
  "build_blocks E [] w = Next w"
| "build_blocks E ((cleanup, b) # bs) w = and_then (build_or_fail E cleanup b w) (build_blocks E bs)"

text \<open>The tail of the loops that stamp the time in any case.\<close>

definition write_and_pace_always :: "env \<Rightarrow> bool \<Rightarrow> int \<Rightarrow> net \<Rightarrow> (int, net) flow" where
  "write_and_pace_always E tsp sp w =
     (let (send_len, w1) = libnet_write E w
      in and_then (pace_always E tsp sp send_len send_len w1) (\<lambda>w2. Next (libnet_clear_packet w2)))"

lemma write_and_pace_always_next:
  assumes "paced_ok tsp sp"
  shows "\<exists>w'. write_and_pace_always E tsp sp w = Next w' \<and> no_packet w' \<and>
           frames_sent w' = frames_sent w @ [pkt w]"
proof -
  obtain w2 where "pace_always E tsp sp (e_write E (tick w)) (e_write E (tick w)) (snd (libnet_write E w)) =
      (Next w2 :: (int, net) flow)" "sent w2 = sent (snd (libnet_write E w))"
    using pace_always_ok [OF assms] by blast
  then show ?thesis by (simp add: write_and_pace_always_def case_prod_unfold frames_sent_def)
qed

lemma build_blocks_cases:
  assumes "\<forall>x\<in>set bs. \<forall>u. sent (fst x u) = sent u"
  shows "(\<exists>w'. build_blocks E bs w = Next w' \<and> pkt w' = pkt w @ map snd bs \<and> sent w' = sent w) \<or>
    (build_fails E \<and> (\<exists>w'. build_blocks E bs w = Return 0 w' \<and> sent w' = sent w))"
  using assms
proof (induction bs arbitrary: w)
  case (Cons x bs)
  obtain c b where x: "x = (c, b)" by (cases x)
  show ?case
  proof (cases "e_build E (tick w) = -1")
    case True
    then have "build_blocks E (x # bs) w = Return 0 (c (snd (libnet_build E b w)))"
      by (simp add: x build_or_fail_def case_prod_unfold)
    moreover have "sent (c (snd (libnet_build E b w))) = sent w" using Cons.prems by (simp add: x)
    ultimately show ?thesis using True by blast
  next
    case False
    then have "build_blocks E (x # bs) w = build_blocks E bs (snd (libnet_build E b w))"
      by (simp add: x build_or_fail_def case_prod_unfold)
    then show ?thesis using Cons.IH [of "snd (libnet_build E b w)"] Cons.prems False by (auto simp: x)
  qed
qed simp

text \<open>A frame built from scratch, written, paced: one iteration of a generator.\<close>

lemma send_blocks_emits:
  assumes "\<forall>x\<in>set bs. \<forall>u. sent (fst x u) = sent u" "paced_ok tsp sp"
  shows "gen_emits E (\<lambda>w. and_then (build_blocks E bs w) (write_and_pace_always E tsp sp)) [map snd bs]"
  unfolding emits_def
proof (intro allI impI)
  fix w :: net
  assume w: "no_packet w"
  from build_blocks_cases [OF assms(1), of E w]
  show "(\<exists>s'. and_then (build_blocks E bs w) (write_and_pace_always E tsp sp) = Next s' \<and> no_packet s' \<and>
        frames_sent s' = frames_sent w @ [map snd bs]) \<or>
      (build_fails E \<and> (\<exists>s' p. and_then (build_blocks E bs w) (write_and_pace_always E tsp sp) = Return 0 s' \<and>
        strict_prefix p [map snd bs] \<and> frames_sent s' = frames_sent w @ p))"
  proof (elim disjE exE conjE)
    fix w1
    assume 1: "build_blocks E bs w = Next w1" "pkt w1 = pkt w @ map snd bs" "sent w1 = sent w"
    obtain w2 where "write_and_pace_always E tsp sp w1 = Next w2" "no_packet w2"
      "frames_sent w2 = frames_sent w1 @ [pkt w1]"
      using write_and_pace_always_next [OF assms(2)] by blast
    with 1 w show ?thesis by (simp add: frames_sent_def)
  next
    fix n w1
    assume 1: "e_build E n = -1" "build_blocks E bs w = Return 0 w1" "sent w1 = sent w"
    then show ?thesis
      by (intro disjI2 conjI exI [of _ n] exI [of _ w1] exI [of _ "[]"]) (simp_all add: frames_sent_def)
  qed
qed

section \<open>A concrete job\<close>

definition lab_job :: job where
  "lab_job = \<lparr>ip_dst = [49, 46, 50, 46, 51, 46, 52] @ replicate 9 0,
     ip_src = [49, 46, 50, 46, 51, 46, 53] @ replicate 9 0,
     enet_src = [2, 0, 0, 0, 0, 1], enet_dst = [2, 0, 0, 0, 0, 2], device = replicate 10 0,
     speed = 100000, test_time = 2, storm_time = 1, top_speed = False\<rparr>"

end
