(* ===== verification/Ethernet_Frames.thy ===== *)
theory Ethernet_Frames
  imports Jobs
begin

text \<open>
  The Ethernet generators of network/ethernet.c: the three storms, the grammar test, which sends
  every combination of 18 types, 12 destinations and 12 sources, and the fuzzer.
\<close>

section \<open>Storms\<close>

definition ethernet_storm :: "mac \<Rightarrow> nat \<Rightarrow> nat \<Rightarrow> env \<Rightarrow> job \<Rightarrow> net \<Rightarrow> (int, net) flow option" where
  "ethernet_storm dst payload_s fuel E a w =
     (let (l, w1) = libnet_init E (device a) w
      in if \<not> l then Some (Return 0 w1)
         else let (t, w2) = libnet_build E (Eth_block dst (enet_src a) 0x0800 (replicate payload_s 0)) w1
              in if t = -1 then Some (Return 0 w2)
                 else finish_storm (\<lambda>w. w)
                        (run_storm fuel E (speed a) (test_time a) (storm_time a) (top_speed a) w2))"

definition Ethernet_Brodacast_Storm :: "nat \<Rightarrow> env \<Rightarrow> job \<Rightarrow> net \<Rightarrow> (int, net) flow option" where
  "Ethernet_Brodacast_Storm = ethernet_storm [0xff, 0xff, 0xff, 0xff, 0xff, 0xff] 48"

definition Ethernet_Multicast_Storm :: "nat \<Rightarrow> env \<Rightarrow> job \<Rightarrow> net \<Rightarrow> (int, net) flow option" where
  "Ethernet_Multicast_Storm = ethernet_storm [0x01, 0x00, 0x5e, 0x00, 0x00, 0x01] 46"

definition Ethernet_Unicast_Storm :: "nat \<Rightarrow> env \<Rightarrow> job \<Rightarrow> net \<Rightarrow> (int, net) flow option" where
  "Ethernet_Unicast_Storm fuel E a = ethernet_storm (enet_dst a) 46 fuel E a"

section \<open>Ethernet_Grammar\<close>

definition m_enet :: "job \<Rightarrow> mac list" where
  "m_enet a =
    [[0x11, 0x22, 0x33, 0x44, 0x55, 0x66], [0xaa, 0xbb, 0xcc, 0xdd, 0xee, 0xff],
     [0x01, 0x00, 0x5e, 0x00, 0x00, 0x01], [0x01, 0x00, 0x5e, 0x00, 0x00, 0x02],
     [0x01, 0x00, 0x5e, 0x00, 0x00, 0x03], [0x01, 0x00, 0x5e, 0x00, 0x00, 0x04],
     [0x01, 0x00, 0x5e, 0x00, 0x00, 0x05], [0xff, 0xff, 0xff, 0xff, 0xff, 0xff],
     [0xff, 0xee, 0xdd, 0xcc, 0xbb, 0xaa], [0xd8, 0x5d, 0x4c, 0x6e, 0xc9, 0x5e],
     enet_dst a, enet_src a]"

definition protocol_type :: "u16 list" where
  "protocol_type =
    [0x0000, 0x0001, 0x001f, 0x007f, 0x00fe, 0x00ff, 0x1fff, 0x7fff, 0xfff0, 0xfffe, 0xffff,
     0x86dd, 0x060d, 0x002d, 0x002f, 0x0806, 0x002e, 0x05dc]"

text \<open>The body of the three nested loops; \<open>packet_s\<close> is the value of the variable of that name,
  which the code adds to \<open>bytes_sent\<close> without ever setting it.\<close>

definition eth_grammar_body :: "env \<Rightarrow> int \<Rightarrow> job \<Rightarrow> nat \<Rightarrow> nat \<Rightarrow> nat \<Rightarrow> net \<Rightarrow> (int, net) flow" where
  "eth_grammar_body E packet_s a j k f w =
     (let (t, w1) = libnet_build E (Eth_block (m_enet a ! k) (m_enet a ! f) (protocol_type ! j) (replicate 46 0)) w
      in if t = -1 then Return 0 w1
         else write_and_pace E (top_speed a) (speed a) packet_s w1)"

definition Ethernet_Grammar :: "env \<Rightarrow> int \<Rightarrow> job \<Rightarrow> net \<Rightarrow> (int, net) flow" where
  "Ethernet_Grammar E packet_s a w =
     (let w1 = init_pacing E w;
          (l, w2) = libnet_init E (device a) w1
      in if \<not> l then Return 0 w2
         else and_then
                (for_each (\<lambda>j. for_each (\<lambda>k. for_each (\<lambda>f. eth_grammar_body E packet_s a j k f)
                   [0..<12]) [0..<12]) [0..<18] w2)
                (\<lambda>w3. Return 1 w3))"

section \<open>Ethernet_Fuzzer\<close>

text \<open>
  The loop of the fuzzer, which has no exit of its own: \<open>protocol_type\<close> is a 16-bit variable, so
  the condition \<open>protocol_type <= 0xffff\<close> always holds. \<open>Next\<close> is the state after \<open>n\<close> iterations
  that did not leave the function.
\<close>

fun fuzzer_loop :: "nat \<Rightarrow> env \<Rightarrow> job \<Rightarrow> u16 \<Rightarrow> net \<Rightarrow> (int, net) flow" where
  "fuzzer_loop 0 E a proto w = Next w"
| "fuzzer_loop (Suc n) E a proto w =
     (if \<not> proto \<le> 0xffff then Return 1 w
      else
        (let (R, w1) = ext (e_rand E) w;
             r = R mod 1000
         in if r = 0 then fuzzer_loop n E a proto w1
            else
              (case Create_Random E r (replicate (r + 1) 0) w1 of
                 (None, w2) \<Rightarrow> Trap w2
               | (Some payload, w2) \<Rightarrow>
                   (let (t, w3) = libnet_build E (Eth_block (enet_dst a) (enet_src a) proto (take r payload)) w2
                    in if t = -1 then Return 0 w3
                       else
                         (let (send_len, w4) = libnet_write E w3
                          in and_then (pace_always E (top_speed a) (speed a) send_len send_len w4)
                               (\<lambda>w5. fuzzer_loop n E a (proto + 1) (libnet_clear_packet w5)))))))"

definition Ethernet_Fuzzer :: "nat \<Rightarrow> env \<Rightarrow> job \<Rightarrow> net \<Rightarrow> (int, net) flow" where
  "Ethernet_Fuzzer n E a w =
     (let w1 = init_pacing E w;
          (l, w2) = libnet_init E (device a) w1
      in if \<not> l then Return 0 w2 else fuzzer_loop n E a 0 w2)"

section \<open>Lemmas\<close>

lemma eth_grammar_body_emits:
  assumes "job_paced a"
  shows "gen_emits E (eth_grammar_body E ps a j k f)
     [[Eth_block (m_enet a ! k) (m_enet a ! f) (protocol_type ! j) (replicate 46 0)]]"
proof -
  let ?b = "Eth_block (m_enet a ! k) (m_enet a ! f) (protocol_type ! j) (replicate 46 0)"
  { fix w :: net
    assume "no_packet w"
    obtain w' where w': "write_and_pace E (top_speed a) (speed a) ps (snd (libnet_build E ?b w)) = Next w'"
      "no_packet w'" "frames_sent w' = frames_sent w @ [pkt (snd (libnet_build E ?b w))]"
      using write_and_pace_next [OF assms] frames_sent_calls(2) by metis
    have "(\<exists>s'. eth_grammar_body E ps a j k f w = Next s' \<and> no_packet s' \<and> frames_sent s' = frames_sent w @ [[?b]]) \<or>
      (build_fails E \<and> (\<exists>s' p. eth_grammar_body E ps a j k f w = Return 0 s' \<and> strict_prefix p [[?b]] \<and>
         frames_sent s' = frames_sent w @ p))"
    proof (cases "e_build E (tick w) = -1")
      case True
      then show ?thesis
        by (intro disjI2 conjI exI [of _ "tick w"] exI [of _ "snd (libnet_build E ?b w)"] exI [of _ "[]"])
          (simp_all add: eth_grammar_body_def case_prod_unfold)
    next
      case False
      then show ?thesis using w' \<open>no_packet w\<close>
        by (simp add: eth_grammar_body_def case_prod_unfold)
    qed }
  then show ?thesis unfolding emits_def by blast
qed

text \<open>The frames of the grammar test: every type with every destination and every source.\<close>

definition eth_grammar_frames :: "job \<Rightarrow> frame list" where
  "eth_grammar_frames a =
     [[Eth_block d s p (replicate 46 0)]. p \<leftarrow> protocol_type, d \<leftarrow> m_enet a, s \<leftarrow> m_enet a]"

lemma length_m_enet [simp]: "length (m_enet a) = 12"
  by (simp add: m_enet_def)

lemma length_protocol_type [simp]: "length protocol_type = 18"
  by (simp add: protocol_type_def)

lemma eth_grammar_loops_emit:
  assumes "job_paced a"
  shows "gen_emits E (for_each (\<lambda>j. for_each (\<lambda>k. for_each (\<lambda>f. eth_grammar_body E ps a j k f)
           [0..<12]) [0..<12]) [0..<18]) (eth_grammar_frames a)"
proof -
  let ?G = "\<lambda>p d. concat (map (\<lambda>s. [[Eth_block d s p (replicate 46 0)]]) (m_enet a))"
  have "gen_emits E (for_each (\<lambda>j. for_each (\<lambda>k. for_each (\<lambda>f. eth_grammar_body E ps a j k f)
           [0..<12]) [0..<12]) [0..<18])
         (concat (map (\<lambda>j. concat (map (\<lambda>k. concat (map (\<lambda>f.
            [[Eth_block (m_enet a ! k) (m_enet a ! f) (protocol_type ! j) (replicate 46 0)]])
            [0..<12])) [0..<12])) [0..<18]))"
    by (intro emits_for_each eth_grammar_body_emits assms)
  moreover have "map (\<lambda>f. [[Eth_block d (m_enet a ! f) p (replicate 46 0)]]) [0..<12] =
      map (\<lambda>s. [[Eth_block d s p (replicate 46 0)]]) (m_enet a)" for d p
    using map_upt_nth [of "\<lambda>s. [[Eth_block d s p (replicate 46 0)]]" "m_enet a"] by simp
  ultimately show ?thesis
    using concat_upt_nth2 [of 18 protocol_type 12 "m_enet a" ?G]
    by (simp add: eth_grammar_frames_def del: upt_conv_Nil)
qed

lemma length_eth_grammar_frames: "length (eth_grammar_frames a) = 2592"
  by (simp add: eth_grammar_frames_def length_concat o_def m_enet_def protocol_type_def)

text \<open>What the fuzzer has sent after any number of iterations: consecutive types from \<open>proto\<close> on.\<close>

definition fuzz_frames :: "job \<Rightarrow> u16 \<Rightarrow> u8 list list \<Rightarrow> frame list" where
  "fuzz_frames a proto payloads =
     map2 (\<lambda>i p. [Eth_block (enet_dst a) (enet_src a) (proto + of_nat i) p]) [0..<length payloads] payloads"

lemma fuzz_frames_Cons:
  "fuzz_frames a proto (p # ps) =
     [Eth_block (enet_dst a) (enet_src a) proto p] # fuzz_frames a (proto + 1) ps"
  by (simp add: fuzz_frames_def upt_conv_Cons map_Suc_upt [symmetric] zip_map1 del: upt_Suc)
    (simp add: case_prod_unfold algebra_simps)

lemma fuzzer_loop_frames:
  assumes "job_paced a" "\<And>n. e_build E n \<noteq> -1"
  shows "no_packet w \<Longrightarrow> \<exists>w' ps. fuzzer_loop n E a proto w = Next w' \<and> length ps \<le> n \<and>
     (\<forall>p\<in>set ps. 0 < length p \<and> length p < 1000) \<and>
     frames_sent w' = frames_sent w @ fuzz_frames a proto ps"
proof (induction n arbitrary: proto w)
  case 0
  have "frames_sent w = frames_sent w @ fuzz_frames a proto []" by (simp add: fuzz_frames_def)
  then show ?case by (intro exI [of _ w] exI [of _ "[]"]) simp
next
  case (Suc n)
  let ?w1 = "w\<lparr>tick := Suc (tick w)\<rparr>" and ?r = "e_rand E (tick w) mod 1000"
  have "(0xffff :: u16) = -1" by simp
  then have cond: "proto \<le> 0xffff" by (metis word_order.extremum)
  show ?case
  proof (cases "?r = 0")
    case True
    obtain w' ps where "fuzzer_loop n E a proto ?w1 = Next w'" "length ps \<le> n"
      "\<forall>p\<in>set ps. 0 < length p \<and> length p < 1000" "frames_sent w' = frames_sent ?w1 @ fuzz_frames a proto ps"
      using Suc.IH [of ?w1 proto] Suc.prems by auto
    then show ?thesis using True cond by (intro exI [of _ w'] exI [of _ ps]) (simp add: ext_def)
  next
    case False
    define buf where "buf = take ?r (rand_bytes E (tick ?w1) (?r div 4 + 1)) @ drop ?r (replicate (?r + 1) (0::u8))"
    define w2 where "w2 = snd (Create_Random E ?r (replicate (?r + 1) 0) ?w1)"
    have cr: "Create_Random E ?r (replicate (?r + 1) 0) ?w1 = (Some buf, w2)"
      using Create_Random_value [of E ?r "replicate (?r + 1) 0" ?w1] by (simp add: buf_def w2_def prod_eq_iff)
    have w2: "no_packet w2" "frames_sent w2 = frames_sent w"
      using Suc.prems Create_Random_frame [of E ?r "replicate (?r + 1) 0" ?w1]
      by (simp_all add: w2_def frames_sent_def)
    let ?p = "take ?r buf"
    let ?b = "Eth_block (enet_dst a) (enet_src a) proto ?p"
    let ?w4 = "snd (libnet_write E (snd (libnet_build E ?b w2)))"
    have len: "length ?p = ?r" by (simp add: buf_def)
    have ne: "buf \<noteq> []" using len False by auto
    obtain w5 where w5: "pace_always E (top_speed a) (speed a) len len ?w4 = (Next w5 :: (int, net) flow)"
      "sent w5 = sent ?w4" if "len = e_write E (Suc (tick w2))" for len
      using pace_always_ok [OF assms(1)] by metis
    obtain w' ps where "fuzzer_loop n E a (proto + 1) (libnet_clear_packet w5) = Next w'" "length ps \<le> n"
      "\<forall>p\<in>set ps. 0 < length p \<and> length p < 1000"
      "frames_sent w' = frames_sent (libnet_clear_packet w5) @ fuzz_frames a (proto + 1) ps"
      using Suc.IH [of "libnet_clear_packet w5" "proto + 1"] by auto
    moreover have "frames_sent w5 = frames_sent w @ [[?b]]"
      using w5(2) w2 assms(2) by (simp add: frames_sent_def)
    ultimately show ?thesis
      using cr w5(1) assms(2) False cond len ne
      by (intro exI [of _ w'] exI [of _ "?p # ps"]) (simp add: ext_def case_prod_unfold fuzz_frames_Cons)
  qed
qed

lemma ethernet_storm_ends:
  assumes "clock_advances E" "job_paced a"
  shows "\<exists>r w' rs. settles (\<lambda>fuel. ethernet_storm dst n fuel E a w) (Return r w') \<and>
     sent w' = sent w @ map (Pair [Eth_block dst (enet_src a) 0x0800 (replicate n 0)]) rs \<and>
     (if e_init E (device a) (tick w) \<and> e_build E (Suc (tick w)) \<noteq> -1 then r = 1 else r = 0 \<and> rs = [])"
proof (cases "e_init E (device a) (tick w) \<and> e_build E (Suc (tick w)) \<noteq> -1")
  case True
  let ?b = "Eth_block dst (enet_src a) 0x0800 (replicate n 0)"
  let ?w2 = "snd (libnet_build E ?b (snd (libnet_init E (device a) w)))"
  obtain w' rs where "settles (\<lambda>k. finish_storm (\<lambda>w. w) (run_storm k E (speed a) (test_time a) (storm_time a)
      (top_speed a) ?w2)) (Return 1 w')" "sent w' = sent ?w2 @ map (Pair (pkt ?w2)) rs"
    using settles_finish_storm [OF assms, of "\<lambda>w. w" "test_time a" "storm_time a" ?w2] by blast
  with True show ?thesis
    by (intro exI [of _ 1] exI [of _ w'] exI [of _ rs]) (simp add: ethernet_storm_def case_prod_unfold)
next
  case False
  define w' where "w' = (if e_init E (device a) (tick w)
    then snd (libnet_build E (Eth_block dst (enet_src a) 0x0800 (replicate n 0)) (snd (libnet_init E (device a) w)))
    else snd (libnet_init E (device a) w))"
  have "ethernet_storm dst n fuel E a w = Some (Return 0 w')" for fuel
    using False by (auto simp: ethernet_storm_def case_prod_unfold Let_def w'_def)
  moreover have "sent w' = sent w" by (simp add: w'_def)
  ultimately show ?thesis using False
    by (intro exI [of _ 0] exI [of _ w'] exI [of _ "[]"]) simp
qed

section \<open>Properties\<close>

text \<open>Each of the three Ethernet storms, for a clock that advances and a speed that cannot trap,
  returns 0 without having sent anything when libnet refuses the context or the frame, and 1
  otherwise; then all it has sent are copies of its one frame, with the destination and the
  payload size of that storm.\<close>

theorem Ethernet_storms_end:
  assumes "clock_advances E" "job_paced a"
    "(storm, dst, n) \<in> {(Ethernet_Brodacast_Storm, replicate 6 0xff, 48),
       (Ethernet_Multicast_Storm, [0x01, 0, 0x5e, 0, 0, 0x01], 46), (Ethernet_Unicast_Storm, enet_dst a, 46)}"
  shows "\<exists>r w' rs. settles (\<lambda>fuel. storm fuel E a w) (Return r w') \<and>
     sent w' = sent w @ map (Pair [Eth_block dst (enet_src a) 0x0800 (replicate n 0)]) rs \<and>
     (if e_init E (device a) (tick w) \<and> e_build E (Suc (tick w)) \<noteq> -1 then r = 1 else r = 0 \<and> rs = [])"
proof -
  have "(\<lambda>fuel. storm fuel E a w) = (\<lambda>fuel. ethernet_storm dst n fuel E a w)"
    using assms(3)
    by (auto simp: Ethernet_Brodacast_Storm_def Ethernet_Multicast_Storm_def Ethernet_Unicast_Storm_def
        numeral_eq_Suc)
  then show ?thesis using ethernet_storm_ends [OF assms(1,2)] by simp
qed

text \<open>C32: \<open>Ethernet_Grammar\<close> sends exactly the 2592 combinations of its types, destinations and
  sources, once each and in order, and returns 1, also when writes fail; if libnet refuses a frame
  it returns 0 after a strict prefix of them.\<close>

theorem Ethernet_Grammar_cross_product:
  assumes "e_init E (device a) (Suc (tick w))" "job_paced a"
  shows "generated E (eth_grammar_frames a) w (Ethernet_Grammar E packet_s a w) \<and>
     length (eth_grammar_frames a) = 2592"
proof
  let ?w2 = "snd (libnet_init E (device a) (init_pacing E w))"
  let ?loops = "for_each (\<lambda>j. for_each (\<lambda>k. for_each (\<lambda>f. eth_grammar_body E packet_s a j k f)
           [0..<12]) [0..<12]) [0..<18]"
  have "generated E (eth_grammar_frames a) w (and_then (?loops ?w2) (\<lambda>w'. Return 1 w'))"
    by (rule emits_generated [OF eth_grammar_loops_emit [OF assms(2)]]) simp_all
  then show "generated E (eth_grammar_frames a) w (Ethernet_Grammar E packet_s a w)"
    using assms(1) by (simp add: Ethernet_Grammar_def case_prod_unfold Let_def)
qed (rule length_eth_grammar_frames)

text \<open>\<open>Ethernet_Fuzzer\<close> never returns as long as libnet accepts its frames: after any number of
  iterations it is still in its loop, and has sent frames of the consecutive types 0, 1, 2, ...
  (wrapping at 65536), each with 1 to 999 bytes of payload.\<close>

theorem Ethernet_Fuzzer_never_returns:
  assumes "e_init E (device a) (Suc (tick w))" "job_paced a" "\<forall>n. e_build E n \<noteq> -1"
  shows "\<exists>w' ps. Ethernet_Fuzzer n E a w = Next w' \<and> length ps \<le> n \<and>
     (\<forall>p\<in>set ps. 0 < length p \<and> length p < 1000) \<and>
     frames_sent w' = frames_sent w @ fuzz_frames a 0 ps"
  using fuzzer_loop_frames [OF assms(2), of E "snd (libnet_init E (device a) (init_pacing E w))" n 0] assms(1,3)
  by (simp add: Ethernet_Fuzzer_def case_prod_unfold Let_def)

section \<open>Concrete runs\<close>

theorem Ethernet_storms_end_witness:
  "\<exists>r w' rs. settles (\<lambda>fuel. Ethernet_Unicast_Storm fuel good_env lab_job net_init) (Return r w') \<and>
     sent w' = sent net_init @ map (Pair [Eth_block (enet_dst lab_job) (enet_src lab_job) 0x0800 (replicate 46 0)]) rs \<and>
     (if e_init good_env (device lab_job) (tick net_init) \<and> e_build good_env (Suc (tick net_init)) \<noteq> -1
      then r = 1 else r = 0 \<and> rs = [])"
  by (rule Ethernet_storms_end) (simp_all add: good_env_advances paced_ok_def lab_job_def)

theorem Ethernet_Grammar_cross_product_witness:
  "generated good_env (eth_grammar_frames lab_job) net_init (Ethernet_Grammar good_env 7 lab_job net_init) \<and>
     length (eth_grammar_frames lab_job) = 2592"
  by (rule Ethernet_Grammar_cross_product) (simp_all add: paced_ok_def lab_job_def)

theorem Ethernet_Fuzzer_never_returns_witness:
  "\<exists>w' ps. Ethernet_Fuzzer 100000 good_env lab_job net_init = Next w' \<and> length ps \<le> 100000 \<and>
     (\<forall>p\<in>set ps. 0 < length p \<and> length p < 1000) \<and>
     frames_sent w' = frames_sent net_init @ fuzz_frames lab_job 0 ps"
  by (rule Ethernet_Fuzzer_never_returns) (simp_all add: paced_ok_def lab_job_def)

end
