(* ===== verification/Arp_Frames.thy ===== *)
theory Arp_Frames
  imports Jobs Address
begin

text \<open>
  The ARP generators of network/arp.c: the two storms, the cache saturation storm and the grammar
  test \<open>ARP_Grammear\<close>, whose eleven loops are a definition each, in the order of the code.
\<close>

abbreviation (input) "ARPHRD_ETHER \<equiv> (1 :: u16)"
abbreviation (input) "ETHERTYPE_IP \<equiv> (0x0800 :: u16)"
abbreviation (input) "ETHERTYPE_ARP \<equiv> (0x0806 :: u16)"
abbreviation (input) "ARPOP_REPLY \<equiv> (2 :: u16)"

section \<open>Storms\<close>

text \<open>The common middle of the two storms: build the ARP block and the Ethernet block, storm,
  destroy the context. The sender and target addresses are passed as the four bytes of a variable.\<close>

definition arp_storm ::
  "(net \<Rightarrow> net) \<Rightarrow> u32 \<Rightarrow> u32 \<Rightarrow> mac \<Rightarrow> nat \<Rightarrow> env \<Rightarrow> job \<Rightarrow> net \<Rightarrow> (int, net) flow option" where
  "arp_storm finish sender target eth_dst fuel E a w =
     (let (t, w1) = libnet_build E (Arp_block ARPHRD_ETHER ETHERTYPE_IP 6 4 ARPOP_REPLY (enet_src a)
                      (le_bytes sender) (enet_dst a) (le_bytes target)) w
      in if t = -1 then Some (Return 0 w1)
         else let (t', w2) = libnet_build E (Eth_auto_block eth_dst ETHERTYPE_ARP) w1
              in if t' = -1 then Some (Return 0 w2)
                 else finish_storm finish
                        (run_storm fuel E (speed a) (test_time a) (storm_time a) (top_speed a) w2))"

text \<open>
  \<open>ARP_Request_Storm\<close>. The code sets \<open>ip_src = a->enet_src\<close>, so the sixteen bytes read as the
  text of the source address are the six of \<open>enet_src\<close>, the six of \<open>enet_dst\<close> and the first four
  of \<open>device\<close>, the fields that follow it in the struct. \<open>g\<close> is what the uninitialised local of
  \<open>Get_long_address\<close> holds.
\<close>

definition ARP_Request_Storm :: "u32 \<Rightarrow> nat \<Rightarrow> env \<Rightarrow> job \<Rightarrow> net \<Rightarrow> (int, net) flow option" where
  "ARP_Request_Storm g fuel E a w =
     (let (now, w0) = ext (e_clock E) w;
          w1 = RUNING_MISSION_W (e_self E) RUNNING now ARP_REQUEST_STORM_T w0;
          (l, w2) = libnet_init E (device a) w1
      in if \<not> l then Some (Return 0 w2)
         else let s = Get_long_address g (Some (enet_src a @ enet_dst a @ take 4 (device a)));
                  d = Get_long_address g (Some (ip_dst a))
              in arp_storm
                   (\<lambda>w3. let (fin, w4) = ext (e_clock E) (libnet_destroy w3)
                         in RUNING_MISSION_W 0 END fin ARP_REQUEST_STORM_T w4)
                   s d [0xff, 0xff, 0xff, 0xff, 0xff, 0xff] fuel E a w2)"

text \<open>\<open>APR_Host_Reply_Storm\<close> parses \<open>ip_src\<close> into \<open>s\<close>, but passes the address of the local \<open>i\<close>,
  which is never set; \<open>i\<close> is its value.\<close>

definition APR_Host_Reply_Storm :: "u32 \<Rightarrow> u32 \<Rightarrow> nat \<Rightarrow> env \<Rightarrow> job \<Rightarrow> net \<Rightarrow> (int, net) flow option" where
  "APR_Host_Reply_Storm g i fuel E a w =
     (let (l, w1) = libnet_init E (device a) w
      in if \<not> l then Some (Return 0 w1)
         else let d = Get_long_address g (Some (ip_dst a))
              in arp_storm libnet_destroy i d (enet_dst a) fuel E a w1)"

section \<open>ARP_Grammear\<close>

definition Grammear_ARPHRD_TYPE :: "u16 list" where
  "Grammear_ARPHRD_TYPE =
    [0x0000, 0x0001, 0x0002, 0x0003, 0x0004, 0x0005, 0x0006, 0x0007, 0x0008, 0x0009, 0x000a,
     0x000b, 0x000c, 0x000d, 0x000e, 0x000f, 0x0100, 0x2573, 0x7325, 0xfffe, 0xffff]"

definition Grammear_ARP_POROTOL :: "u16 list" where
  "Grammear_ARP_POROTOL =
    [0x0000, 0x0001, 0x0002, 0x0003, 0x0004, 0x0005, 0x0006, 0x0007, 0x0008, 0x0009, 0x000a,
     0x00fe, 0x00ff, 0x0100, 0x0806, 0x8035, 0x86dd, 0x7325, 0xfffe, 0xffff]"

definition Grammear_ARP_OPCODE :: "u16 list" where
  "Grammear_ARP_OPCODE =
    [0x0000, 0x0001, 0x0002, 0x0003, 0x0004, 0x0005, 0x0006, 0x0007, 0x0008, 0x0009, 0x000a,
     0x00fe, 0x00ff, 0x0100, 0x0806, 0x8035, 0x86dd, 0x7325, 0xfffe, 0xffff]"

definition Grammear_ARP_HARDWARE_SIZE :: "u8 list" where
  "Grammear_ARP_HARDWARE_SIZE =
    [0x00, 0x01, 0x02, 0x03, 0x04, 0x05, 0x07, 0x25, 0x57, 0x60, 0xfe, 0xff]"

text \<open>Ten initialisers for twelve elements: C fills the rest with 0.\<close>

definition Grammear_ARP_POROTOL_SIZE :: "u8 list" where
  "Grammear_ARP_POROTOL_SIZE =
    [0x00, 0x01, 0x03, 0x05, 0x07, 0x25, 0x57, 0x60, 0xfe, 0xff, 0x00, 0x00]"

text \<open>The locals the eleven loops share: the own address \<open>i\<close> from libnet, the target \<open>d\<close>, the
  value \<open>packet_s\<close> of a variable never set, and the 16-bit value \<open>oob\<close> found behind the end of
  \<open>Grammear_ARP_POROTOL\<close>, which three loops read at index 20.\<close>

record grammear =
  gr_env :: env
  gr_job :: job
  gr_i :: u32
  gr_d :: u32
  gr_packet_s :: int
  gr_oob :: u16

abbreviation (input) "ARP_POROTOL \<equiv> (0x0800 :: u16)"
abbreviation (input) "ARPHRD_TYPE \<equiv> (0x0001 :: u16)"
abbreviation (input) "OPCODE \<equiv> (0x0001 :: u16)"

text \<open>The body all the loops have: one ARP block with the given header fields, one Ethernet
  block, the write, the pacing, the clearing of the packet.\<close>

definition arp_frame :: "grammear \<Rightarrow> u16 \<Rightarrow> u16 \<Rightarrow> u8 \<Rightarrow> u8 \<Rightarrow> u16 \<Rightarrow> frame" where
  "arp_frame G hrd pro hln pln op =
     [Arp_block hrd pro hln pln op (enet_src (gr_job G)) (le_bytes (gr_i G)) [0, 0, 0, 0, 0, 0] (le_bytes (gr_d G)),
      Eth_auto_block (enet_dst (gr_job G)) ETHERTYPE_ARP]"

definition arp_send :: "grammear \<Rightarrow> u16 \<Rightarrow> u16 \<Rightarrow> u8 \<Rightarrow> u8 \<Rightarrow> u16 \<Rightarrow> net \<Rightarrow> (int, net) flow" where
  "arp_send G hrd pro hln pln op w =
     (let E = gr_env G; a = gr_job G;
          (t, w1) = libnet_build E (Arp_block hrd pro hln pln op (enet_src a) (le_bytes (gr_i G))
                      [0, 0, 0, 0, 0, 0] (le_bytes (gr_d G))) w
      in if t = -1 then Return 0 w1
         else let (t', w2) = libnet_build E (Eth_auto_block (enet_dst a) ETHERTYPE_ARP) w1
              in if t' = -1 then Return 0 w2
                 else write_and_pace E (top_speed a) (speed a) (gr_packet_s G) w2)"

definition arp_phase1 :: "grammear \<Rightarrow> net \<Rightarrow> (int, net) flow" where
  "arp_phase1 G = for_each (\<lambda>j. arp_send G (Grammear_ARPHRD_TYPE ! j) ARP_POROTOL 6 4 OPCODE) [0..<21]"

definition arp_phase2 :: "grammear \<Rightarrow> net \<Rightarrow> (int, net) flow" where
  "arp_phase2 G = for_each (\<lambda>j. arp_send G ARPHRD_TYPE (Grammear_ARP_POROTOL ! j) 6 4 OPCODE) [0..<20]"

definition arp_phase3 :: "grammear \<Rightarrow> net \<Rightarrow> (int, net) flow" where
  "arp_phase3 G = for_each (\<lambda>j. for_each (\<lambda>m.
     arp_send G (Grammear_ARPHRD_TYPE ! m) (Grammear_ARP_POROTOL ! j) 6 4 OPCODE) [0..<20]) [0..<20]"

definition arp_phase4 :: "grammear \<Rightarrow> net \<Rightarrow> (int, net) flow" where
  "arp_phase4 G = for_each (\<lambda>j. for_each (\<lambda>m.
     arp_send G ARPHRD_TYPE ARP_POROTOL (Grammear_ARP_HARDWARE_SIZE ! j) (Grammear_ARP_POROTOL_SIZE ! m) OPCODE)
     [0..<10]) [0..<12]"

definition arp_phase5_hrd :: "grammear \<Rightarrow> nat \<Rightarrow> net \<Rightarrow> (int, net) flow" where
  "arp_phase5_hrd G j = for_each (\<lambda>m.
     arp_send G (Grammear_ARPHRD_TYPE ! m) ARP_POROTOL (Grammear_ARP_HARDWARE_SIZE ! j) 4 OPCODE) [0..<21]"

definition arp_phase5_pro :: "grammear \<Rightarrow> nat \<Rightarrow> net \<Rightarrow> (int, net) flow" where
  "arp_phase5_pro G j = for_each (\<lambda>m.
     arp_send G ARPHRD_TYPE (gr_oob G) (Grammear_ARP_HARDWARE_SIZE ! j) 4 OPCODE) [0..<20]"

definition arp_phase5 :: "grammear \<Rightarrow> net \<Rightarrow> (int, net) flow" where
  "arp_phase5 G = for_each (\<lambda>j w. and_then (arp_phase5_hrd G j w) (arp_phase5_pro G j)) [0..<12]"

definition arp_phase6_hrd :: "grammear \<Rightarrow> nat \<Rightarrow> net \<Rightarrow> (int, net) flow" where
  "arp_phase6_hrd G j = for_each (\<lambda>m.
     arp_send G (Grammear_ARPHRD_TYPE ! m) ARP_POROTOL 6 (Grammear_ARP_POROTOL_SIZE ! j) OPCODE) [0..<21]"

definition arp_phase6_pro :: "grammear \<Rightarrow> nat \<Rightarrow> net \<Rightarrow> (int, net) flow" where
  "arp_phase6_pro G j = for_each (\<lambda>m.
     arp_send G ARPHRD_TYPE (gr_oob G) 6 (Grammear_ARP_POROTOL_SIZE ! j) OPCODE) [0..<20]"

definition arp_phase6 :: "grammear \<Rightarrow> net \<Rightarrow> (int, net) flow" where
  "arp_phase6 G = for_each (\<lambda>j w. and_then (arp_phase6_hrd G j w) (arp_phase6_pro G j)) [0..<12]"

definition arp_phase7_hrd :: "grammear \<Rightarrow> nat \<Rightarrow> net \<Rightarrow> (int, net) flow" where
  "arp_phase7_hrd G j = for_each (\<lambda>m.
     arp_send G (Grammear_ARPHRD_TYPE ! m) ARP_POROTOL 6 4 (Grammear_ARP_OPCODE ! j)) [0..<21]"

definition arp_phase7_pro :: "grammear \<Rightarrow> nat \<Rightarrow> net \<Rightarrow> (int, net) flow" where
  "arp_phase7_pro G j = for_each (\<lambda>m.
     arp_send G ARPHRD_TYPE (gr_oob G) 6 4 (Grammear_ARP_OPCODE ! j)) [0..<20]"

definition arp_phase7_hln :: "grammear \<Rightarrow> nat \<Rightarrow> net \<Rightarrow> (int, net) flow" where
  "arp_phase7_hln G j = for_each (\<lambda>m.
     arp_send G ARPHRD_TYPE ARP_POROTOL (Grammear_ARP_HARDWARE_SIZE ! m) 4 (Grammear_ARP_OPCODE ! j)) [0..<12]"

definition arp_phase7_pln :: "grammear \<Rightarrow> nat \<Rightarrow> net \<Rightarrow> (int, net) flow" where
  "arp_phase7_pln G j = for_each (\<lambda>m.
     arp_send G ARPHRD_TYPE ARP_POROTOL 6 (Grammear_ARP_POROTOL_SIZE ! m) (Grammear_ARP_OPCODE ! j)) [0..<12]"

definition arp_phase7 :: "grammear \<Rightarrow> net \<Rightarrow> (int, net) flow" where
  "arp_phase7 G = for_each (\<lambda>j w.
     and_then (arp_phase7_hrd G j w) (\<lambda>w. and_then (arp_phase7_pro G j w)
       (\<lambda>w. and_then (arp_phase7_hln G j w) (arp_phase7_pln G j)))) [0..<20]"

definition ARP_Grammear :: "u32 \<Rightarrow> int \<Rightarrow> u16 \<Rightarrow> env \<Rightarrow> job \<Rightarrow> net \<Rightarrow> (int, net) flow" where
  "ARP_Grammear g packet_s oob E a w =
     (let w1 = init_pacing E w;
          (l, w2) = libnet_init E (device a) w1
      in if \<not> l then Return 0 w2
         else let (i, w3) = ext (e_ipaddr4 E) w2;
                  d = Get_long_address g (Some (ip_dst a));
                  G = \<lparr>gr_env = E, gr_job = a, gr_i = i, gr_d = d, gr_packet_s = packet_s, gr_oob = oob\<rparr>
              in and_then (and_then (arp_phase1 G w3) (\<lambda>w. and_then (arp_phase2 G w) (\<lambda>w. and_then (arp_phase3 G w)
                   (\<lambda>w. and_then (arp_phase4 G w) (\<lambda>w. and_then (arp_phase5 G w) (\<lambda>w. and_then (arp_phase6 G w)
                     (arp_phase7 G)))))))
                   (\<lambda>w. Return 1 (libnet_destroy w)))"

section \<open>Cache saturation\<close>

text \<open>One iteration of \<open>ARP_Cache_Send\<close> up to the pacing, with the new value of \<open>packet_s\<close>, which
  only a successful \<open>libnet_adv_cull_packet\<close> sets. A refused ARP block is only logged.\<close>

definition cache_send_body ::
  "env \<Rightarrow> mac \<Rightarrow> int \<Rightarrow> u32 \<Rightarrow> bool \<Rightarrow> int \<Rightarrow> net \<Rightarrow> (int, net) flow \<times> int" where
  "cache_send_body E dst sp d tsp packet_s w =
     (let (rand_s_ip, w1) = ext (e_rand E) w;
          (rand2, w2) = ext (e_rand E) w1;
          (rand3, w3) = ext (e_rand E) w2;
          src = le_bytes (of_nat rand2) @ take 2 (le_bytes (of_nat rand3));
          (t, w4) = libnet_build E (Arp_block ARPHRD_ETHER ETHERTYPE_IP 6 4 ARPOP_REPLY src
                      (le_bytes (of_nat rand_s_ip)) dst (le_bytes d)) w3;
          (t', w5) = libnet_build E (Eth_block dst src ETHERTYPE_ARP []) w4
      in if t' = -1 then (Return 0 w5, packet_s)
         else let ((r, len), w6) = ext (e_cull E) w5;
                  packet_s' = (if r = -1 then packet_s else len);
                  (send_len, w7) = libnet_write E w6
              in (pace E tsp sp send_len packet_s' w7, packet_s'))"

fun cache_send_loop ::
  "nat \<Rightarrow> env \<Rightarrow> mac \<Rightarrow> int \<Rightarrow> int \<Rightarrow> u32 \<Rightarrow> bool \<Rightarrow> int \<Rightarrow> int \<Rightarrow> int \<Rightarrow> net \<Rightarrow> (int, net) flow option" where
  "cache_send_loop 0 E dst sp storm d tsp start end_t packet_s w = None"
| "cache_send_loop (Suc fuel) E dst sp storm d tsp start end_t packet_s w =
     (if end_t \<le> storm then
        (case cache_send_body E dst sp d tsp packet_s w of
           (Next w1, packet_s') \<Rightarrow>
             (let (c, w2) = ext (e_clock E) w1
              in cache_send_loop fuel E dst sp storm d tsp start ((c - start) sdiv CLOCKS_PER_SEC) packet_s'
                   (libnet_clear_packet w2))
         | (r, _) \<Rightarrow> Some r)
      else Some (Next w))"

definition ARP_Cache_Send ::
  "nat \<Rightarrow> env \<Rightarrow> mac \<Rightarrow> int \<Rightarrow> int \<Rightarrow> u32 \<Rightarrow> bool \<Rightarrow> int \<Rightarrow> net \<Rightarrow> (int, net) flow option" where
  "ARP_Cache_Send fuel E dst sp storm d tsp packet_s w =
     (let (start, w1) = ext (e_clock E) w;
          (c, w2) = ext (e_clock E) w1
      in cache_send_loop fuel E dst sp storm d tsp start ((c - start) sdiv CLOCKS_PER_SEC) packet_s
           (init_pacing E w2))"

text \<open>The loop of \<open>ARP_Cache_Saturation_Storm\<close>. It calls \<open>ARP_Cache_Send\<close> with five of its six
  arguments: \<open>tsp\<close> gives the value the missing \<open>top_speed\<close> has in each call. The result is dropped.\<close>

fun saturation_loop ::
  "nat \<Rightarrow> env \<Rightarrow> (nat \<Rightarrow> bool) \<Rightarrow> int \<Rightarrow> job \<Rightarrow> u32 \<Rightarrow> int \<Rightarrow> int \<Rightarrow> net \<Rightarrow> (int, net) flow option" where
  "saturation_loop 0 E tsp packet_s a d start end_t w = None"
| "saturation_loop (Suc fuel) E tsp packet_s a d start end_t w =
     (if (end_t - start) sdiv CLOCKS_PER_SEC \<le> test_time a then
        (let (R, w1) = (if storm_time a \<noteq> 0 then (storm_time a, w)
                        else (let (r, w') = ext (e_rand E) w in (int (r mod 10), w')))
         in case ARP_Cache_Send (Suc fuel) E (enet_dst a) (speed a) R d (tsp (tick w1)) packet_s w1 of
              None \<Rightarrow> None
            | Some r \<Rightarrow>
                (case storm_done r of
                   Next w2 \<Rightarrow>
                     (let (c, w3) = ext (e_clock E) w2
                      in saturation_loop fuel E tsp packet_s a d start c w3)
                 | r' \<Rightarrow> Some r'))
      else Some (Return 1 (libnet_destroy w)))"

definition ARP_Cache_Saturation_Storm ::
  "u32 \<Rightarrow> nat \<Rightarrow> env \<Rightarrow> (nat \<Rightarrow> bool) \<Rightarrow> int \<Rightarrow> job \<Rightarrow> net \<Rightarrow> (int, net) flow option" where
  "ARP_Cache_Saturation_Storm g fuel E tsp packet_s a w =
     (let d = Get_long_address g (Some (ip_dst a));
          (l, w1) = libnet_init E (device a) w
      in if \<not> l then Some (Return 0 w1)
         else let (start, w2) = ext (e_clock E) w1;
                  (c, w3) = ext (e_clock E) w2
              in saturation_loop fuel E tsp packet_s a d start ((c - start) sdiv CLOCKS_PER_SEC) w3)"

section \<open>The frames of the grammar test\<close>

definition arp_frames5 :: "grammear \<Rightarrow> u8 \<Rightarrow> frame list" where
  "arp_frames5 G hln = map (\<lambda>h. arp_frame G h ARP_POROTOL hln 4 OPCODE) Grammear_ARPHRD_TYPE @
     replicate 20 (arp_frame G ARPHRD_TYPE (gr_oob G) hln 4 OPCODE)"

definition arp_frames6 :: "grammear \<Rightarrow> u8 \<Rightarrow> frame list" where
  "arp_frames6 G pln = map (\<lambda>h. arp_frame G h ARP_POROTOL 6 pln OPCODE) Grammear_ARPHRD_TYPE @
     replicate 20 (arp_frame G ARPHRD_TYPE (gr_oob G) 6 pln OPCODE)"

definition arp_frames7 :: "grammear \<Rightarrow> u16 \<Rightarrow> frame list" where
  "arp_frames7 G op = map (\<lambda>h. arp_frame G h ARP_POROTOL 6 4 op) Grammear_ARPHRD_TYPE @
     replicate 20 (arp_frame G ARPHRD_TYPE (gr_oob G) 6 4 op) @
     map (\<lambda>hln. arp_frame G ARPHRD_TYPE ARP_POROTOL hln 4 op) Grammear_ARP_HARDWARE_SIZE @
     map (\<lambda>pln. arp_frame G ARPHRD_TYPE ARP_POROTOL 6 pln op) Grammear_ARP_POROTOL_SIZE"

definition arp_grammar_frames :: "grammear \<Rightarrow> frame list" where
  "arp_grammar_frames G =
     map (\<lambda>h. arp_frame G h ARP_POROTOL 6 4 OPCODE) Grammear_ARPHRD_TYPE @
     map (\<lambda>p. arp_frame G ARPHRD_TYPE p 6 4 OPCODE) Grammear_ARP_POROTOL @
     concat (map (\<lambda>p. map (\<lambda>h. arp_frame G h p 6 4 OPCODE) (take 20 Grammear_ARPHRD_TYPE)) Grammear_ARP_POROTOL) @
     concat (map (\<lambda>hln. map (\<lambda>pln. arp_frame G ARPHRD_TYPE ARP_POROTOL hln pln OPCODE)
       (take 10 Grammear_ARP_POROTOL_SIZE)) Grammear_ARP_HARDWARE_SIZE) @
     concat (map (arp_frames5 G) Grammear_ARP_HARDWARE_SIZE) @
     concat (map (arp_frames6 G) Grammear_ARP_POROTOL_SIZE) @
     concat (map (arp_frames7 G) Grammear_ARP_OPCODE)"

lemma grammear_lengths [simp]:
  "length Grammear_ARPHRD_TYPE = 21" "length Grammear_ARP_POROTOL = 20" "length Grammear_ARP_OPCODE = 20"
  "length Grammear_ARP_HARDWARE_SIZE = 12" "length Grammear_ARP_POROTOL_SIZE = 12"
  by (simp_all add: Grammear_ARPHRD_TYPE_def Grammear_ARP_POROTOL_def Grammear_ARP_OPCODE_def
      Grammear_ARP_HARDWARE_SIZE_def Grammear_ARP_POROTOL_SIZE_def)

lemma arp_send_emits:
  assumes "job_paced (gr_job G)"
  shows "gen_emits (gr_env G) (arp_send G hrd pro hln pln op) [arp_frame G hrd pro hln pln op]"
proof -
  let ?E = "gr_env G" and ?a = "gr_job G"
  let ?b = "Arp_block hrd pro hln pln op (enet_src ?a) (le_bytes (gr_i G)) [0, 0, 0, 0, 0, 0] (le_bytes (gr_d G))"
  let ?e = "Eth_auto_block (enet_dst ?a) ETHERTYPE_ARP"
  { fix w :: net
    assume w: "no_packet w"
    let ?w1 = "snd (libnet_build ?E ?b w)"
    let ?w2 = "snd (libnet_build ?E ?e ?w1)"
    obtain w' where w': "write_and_pace ?E (top_speed ?a) (speed ?a) (gr_packet_s G) ?w2 = Next w'"
      "no_packet w'" "frames_sent w' = frames_sent ?w2 @ [pkt ?w2]"
      using write_and_pace_next [OF assms] by blast
    have "(\<exists>s'. arp_send G hrd pro hln pln op w = Next s' \<and> no_packet s' \<and>
        frames_sent s' = frames_sent w @ [[?b, ?e]]) \<or>
      (build_fails ?E \<and> (\<exists>s' p. arp_send G hrd pro hln pln op w = Return 0 s' \<and>
         strict_prefix p [[?b, ?e]] \<and> frames_sent s' = frames_sent w @ p))"
    proof (cases "e_build ?E (tick w) = -1")
      case True
      then have "arp_send G hrd pro hln pln op w = Return 0 ?w1"
        by (simp add: arp_send_def case_prod_unfold Let_def)
      with True show ?thesis
        by (intro disjI2 conjI exI [of _ "tick w"] exI [of _ ?w1] exI [of _ "[]"]) simp_all
    next
      case one: False
      show ?thesis
      proof (cases "e_build ?E (Suc (tick w)) = -1")
        case True
        with one have "arp_send G hrd pro hln pln op w = Return 0 ?w2"
          by (simp add: arp_send_def case_prod_unfold Let_def)
        with True show ?thesis
          by (intro disjI2 conjI exI [of _ "Suc (tick w)"] exI [of _ ?w2] exI [of _ "[]"]) simp_all
      next
        case False
        with one have "arp_send G hrd pro hln pln op w = Next w'"
          using w'(1) by (simp add: arp_send_def case_prod_unfold Let_def)
        with one False w w' show ?thesis by simp
      qed
    qed }
  then show ?thesis unfolding emits_def arp_frame_def by blast
qed

lemma arp_phase_simple_emits:
  assumes "job_paced (gr_job G)"
  shows "gen_emits (gr_env G) (arp_phase1 G) (map (\<lambda>h. arp_frame G h ARP_POROTOL 6 4 OPCODE) Grammear_ARPHRD_TYPE)"
    and "gen_emits (gr_env G) (arp_phase2 G) (map (\<lambda>p. arp_frame G ARPHRD_TYPE p 6 4 OPCODE) Grammear_ARP_POROTOL)"
  using emits_index1 [OF arp_send_emits [OF assms], of 21 Grammear_ARPHRD_TYPE "\<lambda>x. x" "\<lambda>x. ARP_POROTOL" "\<lambda>x. 6" "\<lambda>x. 4" "\<lambda>x. OPCODE"]
    emits_index1 [OF arp_send_emits [OF assms], of 20 Grammear_ARP_POROTOL "\<lambda>x. ARPHRD_TYPE" "\<lambda>x. x" "\<lambda>x. 6" "\<lambda>x. 4" "\<lambda>x. OPCODE"]
  by (simp_all add: arp_phase1_def arp_phase2_def)

lemma arp_phase34_emits:
  assumes "job_paced (gr_job G)"
  shows "gen_emits (gr_env G) (arp_phase3 G)
      (concat (map (\<lambda>p. map (\<lambda>h. arp_frame G h p 6 4 OPCODE) (take 20 Grammear_ARPHRD_TYPE)) Grammear_ARP_POROTOL))"
    and "gen_emits (gr_env G) (arp_phase4 G)
      (concat (map (\<lambda>hln. map (\<lambda>pln. arp_frame G ARPHRD_TYPE ARP_POROTOL hln pln OPCODE)
       (take 10 Grammear_ARP_POROTOL_SIZE)) Grammear_ARP_HARDWARE_SIZE))"
proof -
  note loop = emits_index1 [OF arp_send_emits [OF assms]]
  have "gen_emits (gr_env G) (for_each (\<lambda>m. arp_send G (Grammear_ARPHRD_TYPE ! m) p 6 4 OPCODE) [0..<20])
      (map (\<lambda>h. arp_frame G h p 6 4 OPCODE) (take 20 Grammear_ARPHRD_TYPE))" for p
    using loop [of 20 Grammear_ARPHRD_TYPE "\<lambda>x. x" "\<lambda>x. p" "\<lambda>x. 6" "\<lambda>x. 4" "\<lambda>x. OPCODE"] by simp
  from emits_index [OF this, of 20 Grammear_ARP_POROTOL "\<lambda>x. x"]
  show "gen_emits (gr_env G) (arp_phase3 G)
      (concat (map (\<lambda>p. map (\<lambda>h. arp_frame G h p 6 4 OPCODE) (take 20 Grammear_ARPHRD_TYPE)) Grammear_ARP_POROTOL))"
    by (simp add: arp_phase3_def)
  have "gen_emits (gr_env G) (for_each (\<lambda>m. arp_send G ARPHRD_TYPE ARP_POROTOL hln (Grammear_ARP_POROTOL_SIZE ! m) OPCODE) [0..<10])
      (map (\<lambda>pln. arp_frame G ARPHRD_TYPE ARP_POROTOL hln pln OPCODE) (take 10 Grammear_ARP_POROTOL_SIZE))" for hln
    using loop [of 10 Grammear_ARP_POROTOL_SIZE "\<lambda>x. ARPHRD_TYPE" "\<lambda>x. ARP_POROTOL" "\<lambda>x. hln" "\<lambda>x. x" "\<lambda>x. OPCODE"] by simp
  from emits_index [OF this, of 12 Grammear_ARP_HARDWARE_SIZE "\<lambda>x. x"]
  show "gen_emits (gr_env G) (arp_phase4 G)
      (concat (map (\<lambda>hln. map (\<lambda>pln. arp_frame G ARPHRD_TYPE ARP_POROTOL hln pln OPCODE)
       (take 10 Grammear_ARP_POROTOL_SIZE)) Grammear_ARP_HARDWARE_SIZE))"
    by (simp add: arp_phase4_def)
qed

lemma arp_phase56_emits:
  assumes "job_paced (gr_job G)"
  shows "gen_emits (gr_env G) (arp_phase5 G) (concat (map (arp_frames5 G) Grammear_ARP_HARDWARE_SIZE))"
    and "gen_emits (gr_env G) (arp_phase6 G) (concat (map (arp_frames6 G) Grammear_ARP_POROTOL_SIZE))"
proof -
  note loop = emits_index1 [OF arp_send_emits [OF assms]] and rep = emits_repeat [OF arp_send_emits [OF assms]]
  have "gen_emits (gr_env G) (for_each (\<lambda>m. arp_send G (Grammear_ARPHRD_TYPE ! m) ARP_POROTOL hln 4 OPCODE) [0..<21])
      (map (\<lambda>h. arp_frame G h ARP_POROTOL hln 4 OPCODE) Grammear_ARPHRD_TYPE)" for hln
    using loop [of 21 Grammear_ARPHRD_TYPE "\<lambda>x. x" "\<lambda>x. ARP_POROTOL" "\<lambda>x. hln" "\<lambda>x. 4" "\<lambda>x. OPCODE"] by simp
  then have "gen_emits (gr_env G) (\<lambda>w. and_then (for_each (\<lambda>m. arp_send G (Grammear_ARPHRD_TYPE ! m) ARP_POROTOL hln 4 OPCODE) [0..<21] w)
      (for_each (\<lambda>m. arp_send G ARPHRD_TYPE (gr_oob G) hln 4 OPCODE) [0..<20])) (arp_frames5 G hln)" for hln
    unfolding arp_frames5_def by (intro emits_then rep)
  from emits_index [OF this, of 12 Grammear_ARP_HARDWARE_SIZE "\<lambda>x. x"]
  show "gen_emits (gr_env G) (arp_phase5 G) (concat (map (arp_frames5 G) Grammear_ARP_HARDWARE_SIZE))"
    by (simp add: arp_phase5_def arp_phase5_hrd_def arp_phase5_pro_def)
  have "gen_emits (gr_env G) (for_each (\<lambda>m. arp_send G (Grammear_ARPHRD_TYPE ! m) ARP_POROTOL 6 pln OPCODE) [0..<21])
      (map (\<lambda>h. arp_frame G h ARP_POROTOL 6 pln OPCODE) Grammear_ARPHRD_TYPE)" for pln
    using loop [of 21 Grammear_ARPHRD_TYPE "\<lambda>x. x" "\<lambda>x. ARP_POROTOL" "\<lambda>x. 6" "\<lambda>x. pln" "\<lambda>x. OPCODE"] by simp
  then have "gen_emits (gr_env G) (\<lambda>w. and_then (for_each (\<lambda>m. arp_send G (Grammear_ARPHRD_TYPE ! m) ARP_POROTOL 6 pln OPCODE) [0..<21] w)
      (for_each (\<lambda>m. arp_send G ARPHRD_TYPE (gr_oob G) 6 pln OPCODE) [0..<20])) (arp_frames6 G pln)" for pln
    unfolding arp_frames6_def by (intro emits_then rep)
  from emits_index [OF this, of 12 Grammear_ARP_POROTOL_SIZE "\<lambda>x. x"]
  show "gen_emits (gr_env G) (arp_phase6 G) (concat (map (arp_frames6 G) Grammear_ARP_POROTOL_SIZE))"
    by (simp add: arp_phase6_def arp_phase6_hrd_def arp_phase6_pro_def)
qed

lemma arp_phase7_emits:
  assumes "job_paced (gr_job G)"
  shows "gen_emits (gr_env G) (arp_phase7 G) (concat (map (arp_frames7 G) Grammear_ARP_OPCODE))"
proof -
  note loop = emits_index1 [OF arp_send_emits [OF assms]] and rep = emits_repeat [OF arp_send_emits [OF assms]]
  have hrd: "gen_emits (gr_env G) (for_each (\<lambda>m. arp_send G (Grammear_ARPHRD_TYPE ! m) ARP_POROTOL 6 4 op) [0..<21])
      (map (\<lambda>h. arp_frame G h ARP_POROTOL 6 4 op) Grammear_ARPHRD_TYPE)" for op
    using loop [of 21 Grammear_ARPHRD_TYPE "\<lambda>x. x" "\<lambda>x. ARP_POROTOL" "\<lambda>x. 6" "\<lambda>x. 4" "\<lambda>x. op"] by simp
  have hln: "gen_emits (gr_env G) (for_each (\<lambda>m. arp_send G ARPHRD_TYPE ARP_POROTOL (Grammear_ARP_HARDWARE_SIZE ! m) 4 op) [0..<12])
      (map (\<lambda>h. arp_frame G ARPHRD_TYPE ARP_POROTOL h 4 op) Grammear_ARP_HARDWARE_SIZE)" for op
    using loop [of 12 Grammear_ARP_HARDWARE_SIZE "\<lambda>x. ARPHRD_TYPE" "\<lambda>x. ARP_POROTOL" "\<lambda>x. x" "\<lambda>x. 4" "\<lambda>x. op"] by simp
  have pln: "gen_emits (gr_env G) (for_each (\<lambda>m. arp_send G ARPHRD_TYPE ARP_POROTOL 6 (Grammear_ARP_POROTOL_SIZE ! m) op) [0..<12])
      (map (\<lambda>h. arp_frame G ARPHRD_TYPE ARP_POROTOL 6 h op) Grammear_ARP_POROTOL_SIZE)" for op
    using loop [of 12 Grammear_ARP_POROTOL_SIZE "\<lambda>x. ARPHRD_TYPE" "\<lambda>x. ARP_POROTOL" "\<lambda>x. 6" "\<lambda>x. x" "\<lambda>x. op"] by simp
  have "gen_emits (gr_env G) (\<lambda>w. and_then (for_each (\<lambda>m. arp_send G (Grammear_ARPHRD_TYPE ! m) ARP_POROTOL 6 4 op) [0..<21] w)
      (\<lambda>w. and_then (for_each (\<lambda>m. arp_send G ARPHRD_TYPE (gr_oob G) 6 4 op) [0..<20] w)
      (\<lambda>w. and_then (for_each (\<lambda>m. arp_send G ARPHRD_TYPE ARP_POROTOL (Grammear_ARP_HARDWARE_SIZE ! m) 4 op) [0..<12] w)
        (for_each (\<lambda>m. arp_send G ARPHRD_TYPE ARP_POROTOL 6 (Grammear_ARP_POROTOL_SIZE ! m) op) [0..<12]))))
      (arp_frames7 G op)" for op
    unfolding arp_frames7_def by (intro emits_then hrd rep hln pln)
  from emits_index [OF this, of 20 Grammear_ARP_OPCODE "\<lambda>x. x"] show ?thesis
    by (simp add: arp_phase7_def arp_phase7_hrd_def arp_phase7_pro_def arp_phase7_hln_def arp_phase7_pln_def)
qed

lemmas arp_phases_emit = arp_phase_simple_emits arp_phase34_emits arp_phase56_emits arp_phase7_emits

lemma length_arp_grammar_frames: "length (arp_grammar_frames G) = 2845"
  by (simp add: arp_grammar_frames_def length_concat o_def arp_frames5_def arp_frames6_def arp_frames7_def sum_list_triv)

section \<open>Cache saturation ends and sends ARP replies of random hosts\<close>

text \<open>The reply of a host that does not exist: sender addresses at random, the same hardware address
  in both headers.\<close>

definition spoofed_reply :: "mac \<Rightarrow> u32 \<Rightarrow> frame \<Rightarrow> bool" where
  "spoofed_reply dst d f \<longleftrightarrow> (\<exists>mac ip. length mac = 6 \<and> length ip = 4 \<and>
     f = [Arp_block ARPHRD_ETHER ETHERTYPE_IP 6 4 ARPOP_REPLY mac ip dst (le_bytes d), Eth_block dst mac ETHERTYPE_ARP []])"

definition spoofs :: "env \<Rightarrow> mac \<Rightarrow> u32 \<Rightarrow> net \<Rightarrow> net \<Rightarrow> bool" where
  "spoofs E dst d w w' \<longleftrightarrow> tick w \<le> tick w' \<and> (\<not> build_fails E \<longrightarrow> no_packet w \<longrightarrow>
     no_packet w' \<and> (\<exists>fs. frames_sent w' = frames_sent w @ fs \<and> (\<forall>f\<in>set fs. spoofed_reply dst d f)))"

lemma spoofs_refl: "spoofs E dst d w w"
  by (auto simp: spoofs_def)

lemma spoofs_trans: "spoofs E dst d u v \<Longrightarrow> spoofs E dst d v w \<Longrightarrow> spoofs E dst d u w"
  unfolding spoofs_def by (metis (no_types, lifting) Un_iff append_assoc le_trans set_append)

lemma spoofs_silent:
  "pkt w' = pkt w \<Longrightarrow> sent w' = sent w \<Longrightarrow> tick w \<le> tick w' \<Longrightarrow> spoofs E dst d w w'"
  by (auto simp: spoofs_def frames_sent_def)

lemma cache_send_body_cases:
  assumes "paced_ok tsp sp"
  shows "(\<exists>w' ps'. cache_send_body E dst sp d tsp ps w = (Next w', ps') \<and> tick w < tick w' \<and>
            spoofs E dst d w (libnet_clear_packet w')) \<or>
         (\<exists>w'. cache_send_body E dst sp d tsp ps w = (Return 0 w', ps) \<and> spoofs E dst d w w')"
proof -
  define w3 where "w3 = w\<lparr>tick := Suc (Suc (Suc (tick w)))\<rparr>"
  define src where "src = le_bytes (of_nat (e_rand E (Suc (tick w)))) @ take 2 (le_bytes (of_nat (e_rand E (Suc (Suc (tick w))))))"
  define arp where "arp = Arp_block ARPHRD_ETHER ETHERTYPE_IP 6 4 ARPOP_REPLY src (le_bytes (of_nat (e_rand E (tick w)))) dst (le_bytes d)"
  define eth where "eth = Eth_block dst src ETHERTYPE_ARP []"
  define w5 where "w5 = snd (libnet_build E eth (snd (libnet_build E arp w3)))"
  have reply: "spoofed_reply dst d [arp, eth]"
    unfolding spoofed_reply_def arp_def eth_def
    by (intro exI [of _ src] exI [of _ "le_bytes (of_nat (e_rand E (tick w)))"]) (simp add: src_def)
  have w5: "tick w5 = Suc (Suc (Suc (Suc (Suc (tick w)))))" "sent w5 = sent w"
    "\<not> build_fails E \<Longrightarrow> pkt w5 = pkt w @ [arp, eth]"
    by (simp_all add: w5_def w3_def)
  have body: "cache_send_body E dst sp d tsp ps w =
     (if e_build E (Suc (tick w3)) = -1 then (Return 0 w5, ps)
      else let ((r, len), w6) = ext (e_cull E) w5;
               packet_s' = (if r = -1 then ps else len);
               (send_len, w7) = libnet_write E w6
           in (pace E tsp sp send_len packet_s' w7, packet_s'))"
    by (simp add: cache_send_body_def ext_def w3_def [symmetric] src_def [symmetric] arp_def [symmetric]
        eth_def [symmetric] case_prod_unfold Let_def w5_def)
      (simp add: w3_def)
  show ?thesis
  proof (cases "e_build E (Suc (tick w3)) = -1")
    case True
    then have "spoofs E dst d w w5" using w5(1) by (auto simp: spoofs_def)
    with body True show ?thesis by simp
  next
    case False
    let ?w6 = "w5\<lparr>tick := Suc (tick w5)\<rparr>"
    let ?w7 = "snd (libnet_write E ?w6)"
    let ?ps = "if fst (e_cull E (tick w5)) = -1 then ps else snd (e_cull E (tick w5))"
    obtain w8 where w8: "pace E tsp sp (e_write E (tick ?w6)) ?ps ?w7 = (Next w8 :: (int, net) flow)"
      "tick ?w7 \<le> tick w8" "pkt w8 = pkt ?w7" "sent w8 = sent ?w7"
      using pace_ok [OF assms] by blast
    have "cache_send_body E dst sp d tsp ps w = (Next w8, ?ps)"
      using False w8(1) unfolding body
      by (cases "fst (e_cull E (tick w5)) = -1") (simp_all add: ext_def case_prod_unfold Let_def)
    moreover have "spoofs E dst d w (libnet_clear_packet w8)"
      using w8 w5 reply by (auto simp: spoofs_def frames_sent_def)
    moreover have "tick w < tick w8" using w8(2) w5(1) by simp
    ultimately show ?thesis by blast
  qed
qed

lemma spoofs_tick: "spoofs E dst d w w1 \<Longrightarrow> spoofs E dst d w (w1\<lparr>tick := Suc (tick w1)\<rparr>)"
  by (auto simp: spoofs_def)

lemma spoofs_clear_tick:
  "spoofs E dst d w (libnet_clear_packet w1) \<Longrightarrow>
   spoofs E dst d w (libnet_clear_packet (w1\<lparr>tick := Suc (tick w1)\<rparr>))"
  by (auto simp: spoofs_def)

lemma cache_send_loop_settles:
  assumes N: "\<And>n. N \<le> n \<Longrightarrow> storm < (e_clock E n - start) sdiv CLOCKS_PER_SEC"
    and ok: "paced_ok tsp sp"
  shows "\<exists>r w'. settles (\<lambda>n. cache_send_loop n E dst sp storm d tsp start end_t ps w) r \<and>
     (r = Next w' \<or> r = Return 0 w') \<and> spoofs E dst d w w'"
proof (induction "(if end_t \<le> storm then Suc (N - tick w) else 0)" arbitrary: w end_t ps rule: less_induct)
  case less
  let ?f = "\<lambda>n. cache_send_loop n E dst sp storm d tsp start end_t ps w"
  show ?case
  proof (cases "end_t \<le> storm")
    case False
    have "settles ?f (Next w)" by (rule settles_Suc) (use False in simp)
    then show ?thesis using spoofs_refl by blast
  next
    case True
    from cache_send_body_cases [OF ok, of E dst d ps w] show ?thesis
    proof (elim disjE exE conjE)
      fix w'
      assume b: "cache_send_body E dst sp d tsp ps w = (Return 0 w', ps)" "spoofs E dst d w w'"
      have "settles ?f (Return 0 w')" by (rule settles_Suc) (use True b in simp)
      then show ?thesis using b(2) by blast
    next
      fix w1 ps'
      assume b: "cache_send_body E dst sp d tsp ps w = (Next w1, ps')" "tick w < tick w1"
        "spoofs E dst d w (libnet_clear_packet w1)"
      let ?w2 = "libnet_clear_packet (w1\<lparr>tick := Suc (tick w1)\<rparr>)"
      let ?e = "(e_clock E (tick w1) - start) sdiv CLOCKS_PER_SEC"
      have "?e \<le> storm \<Longrightarrow> tick w1 < N" using N by (meson not_le)
      then have "(if ?e \<le> storm then Suc (N - tick ?w2) else 0) < (if end_t \<le> storm then Suc (N - tick w) else 0)"
        using True b(2) by auto
      from less [OF this, of ps'] obtain r w' where
        IH: "settles (\<lambda>n. cache_send_loop n E dst sp storm d tsp start ?e ps' ?w2) r"
        "r = Next w' \<or> r = Return 0 w'" "spoofs E dst d ?w2 w'" by blast
      have "settles ?f r" by (rule settles_Suc) (use True b(1) IH(1) in \<open>simp add: ext_def\<close>)
      moreover have "spoofs E dst d w w'"
        by (rule spoofs_trans [OF spoofs_clear_tick [OF b(3)] IH(3)])
      ultimately show ?thesis using IH(2) by blast
    qed
  qed
qed

lemma ARP_Cache_Send_settles:
  assumes "clock_advances E" "paced_ok tsp sp"
  shows "\<exists>r w'. settles (\<lambda>n. ARP_Cache_Send n E dst sp storm d tsp ps w) r \<and>
     storm_done r = Next w' \<and> spoofs E dst d w w' \<and> tick w < tick w'"
proof -
  let ?start = "e_clock E (tick w)" and ?c = "e_clock E (Suc (tick w))"
  let ?w3 = "init_pacing E (w\<lparr>tick := Suc (Suc (tick w))\<rparr>)"
  obtain N where "\<And>n. N \<le> n \<Longrightarrow> storm < (e_clock E n - ?start) sdiv CLOCKS_PER_SEC"
    using clock_passes [OF assms(1), of storm ?start] by blast
  from cache_send_loop_settles [OF this assms(2)] obtain r w' where
    *: "settles (\<lambda>n. cache_send_loop n E dst sp storm d tsp ?start ((?c - ?start) sdiv CLOCKS_PER_SEC) ps ?w3) r"
      "r = Next w' \<or> r = Return 0 w'" "spoofs E dst d ?w3 w'" by blast
  have "settles (\<lambda>n. ARP_Cache_Send n E dst sp storm d tsp ps w) r"
    using *(1) by (simp add: ARP_Cache_Send_def ext_def)
  moreover have "spoofs E dst d w ?w3" by (rule spoofs_silent) simp_all
  then have "spoofs E dst d w w'" using spoofs_trans *(3) by blast
  moreover have "tick w < tick w'" using *(3) by (simp add: spoofs_def)
  ultimately show ?thesis using *(2) by auto
qed

lemma saturation_loop_settles:
  assumes clk: "clock_advances E" and ok: "\<And>t. paced_ok (tsp t) (speed a)"
    and N: "\<And>n. N \<le> n \<Longrightarrow> test_time a < (e_clock E n - start) sdiv CLOCKS_PER_SEC"
  shows "\<exists>w'. settles (\<lambda>n. saturation_loop n E tsp ps a d start end_t w) (Return 1 w') \<and>
     spoofs E (enet_dst a) d w w'"
proof (induction "(if (end_t - start) sdiv CLOCKS_PER_SEC \<le> test_time a then Suc (N - tick w) else 0)"
    arbitrary: w end_t rule: less_induct)
  case less
  let ?P = "\<lambda>e. (e - start) sdiv CLOCKS_PER_SEC \<le> test_time a"
  let ?f = "\<lambda>n. saturation_loop n E tsp ps a d start end_t w"
  show ?case
  proof (cases "?P end_t")
    case False
    have "settles ?f (Return 1 (libnet_destroy w))" by (rule settles_Suc) (use False in simp)
    moreover have "spoofs E (enet_dst a) d w (libnet_destroy w)" by (simp add: spoofs_def)
    ultimately show ?thesis by blast
  next
    case True
    let ?R = "if storm_time a \<noteq> 0 then storm_time a else int (e_rand E (tick w) mod 10)"
    let ?w1 = "if storm_time a \<noteq> 0 then w else w\<lparr>tick := Suc (tick w)\<rparr>"
    obtain r w2 where s: "settles (\<lambda>n. ARP_Cache_Send n E (enet_dst a) (speed a) ?R d (tsp (tick ?w1)) ps ?w1) r"
      "storm_done r = Next w2" "spoofs E (enet_dst a) d ?w1 w2" "tick ?w1 < tick w2"
      using ARP_Cache_Send_settles [OF clk ok] by blast
    let ?w3 = "w2\<lparr>tick := Suc (tick w2)\<rparr>" and ?c = "e_clock E (tick w2)"
    have lt: "tick w < tick w2" using s(4) by (auto split: if_splits)
    have "?P ?c \<Longrightarrow> tick w2 < N" using N by (meson not_le)
    then have "(if ?P ?c then Suc (N - tick ?w3) else 0) < (if ?P end_t then Suc (N - tick w) else 0)"
      using True lt by auto
    from less [OF this] obtain w' where IH: "settles (\<lambda>n. saturation_loop n E tsp ps a d start ?c ?w3) (Return 1 w')"
      "spoofs E (enet_dst a) d ?w3 w'" by blast
    have step: "saturation_loop (Suc n) E tsp ps a d start end_t w = saturation_loop n E tsp ps a d start ?c ?w3"
      if "ARP_Cache_Send (Suc n) E (enet_dst a) (speed a) ?R d (tsp (tick ?w1)) ps ?w1 = Some r" for n
      using that True s(2) by (cases "storm_time a = 0") (simp_all add: ext_def)
    have "settles (\<lambda>n. saturation_loop (Suc n) E tsp ps a d start end_t w) (Return 1 w')"
      by (rule settles_bind [OF settles_shift [OF s(1)],
            where g = "\<lambda>n y. saturation_loop n E tsp ps a d start ?c ?w3", OF IH(1) step])
    moreover have "spoofs E (enet_dst a) d w ?w1" by (auto intro: spoofs_silent)
    then have "spoofs E (enet_dst a) d w w'"
      using spoofs_trans spoofs_tick [OF s(3)] IH(2) by blast
    ultimately show ?thesis using settles_Suc [of ?f] by blast
  qed
qed

section \<open>Properties\<close>

text \<open>C2: \<open>ARP_Grammear\<close> sends exactly the 2845 frames of its seven phases, in order, and returns 1;
  writes that fail do not stop it. If libnet refuses a block it returns 0 after a strict prefix of
  them.\<close>

theorem ARP_Grammear_sends_all:
  assumes "e_init E (device a) (Suc (tick w))" "job_paced a"
  shows "\<exists>i. generated E (arp_grammar_frames \<lparr>gr_env = E, gr_job = a, gr_i = i,
       gr_d = Get_long_address g (Some (ip_dst a)), gr_packet_s = packet_s, gr_oob = oob\<rparr>) w
       (ARP_Grammear g packet_s oob E a w) \<and>
     length (arp_grammar_frames \<lparr>gr_env = E, gr_job = a, gr_i = i,
       gr_d = Get_long_address g (Some (ip_dst a)), gr_packet_s = packet_s, gr_oob = oob\<rparr>) = 2845"
proof -
  let ?w2 = "snd (libnet_init E (device a) (init_pacing E w))"
  let ?G = "\<lparr>gr_env = E, gr_job = a, gr_i = e_ipaddr4 E (tick ?w2),
       gr_d = Get_long_address g (Some (ip_dst a)), gr_packet_s = packet_s, gr_oob = oob\<rparr>"
  let ?w3 = "?w2\<lparr>tick := Suc (tick ?w2)\<rparr>"
  have paced: "job_paced (gr_job ?G)" using assms(2) by simp
  have "gen_emits (gr_env ?G) (\<lambda>w. and_then (arp_phase1 ?G w) (\<lambda>w. and_then (arp_phase2 ?G w) (\<lambda>w. and_then (arp_phase3 ?G w)
      (\<lambda>w. and_then (arp_phase4 ?G w) (\<lambda>w. and_then (arp_phase5 ?G w) (\<lambda>w. and_then (arp_phase6 ?G w)
        (arp_phase7 ?G))))))) (arp_grammar_frames ?G)"
    unfolding arp_grammar_frames_def by (intro emits_then arp_phases_emit [OF paced])
  then have "generated E (arp_grammar_frames ?G) w (ARP_Grammear g packet_s oob E a w)"
    using emits_generated [of E _ "arp_grammar_frames ?G" ?w3 w libnet_destroy] assms(1)
    by (simp add: ARP_Grammear_def case_prod_unfold Let_def ext_def)
  then show ?thesis using length_arp_grammar_frames by blast
qed

text \<open>The blocks for which libnet, which copies as many bytes as the size fields say, reads behind
  the arrays it was given.\<close>

fun overreads :: "block \<Rightarrow> bool" where
  "overreads (Arp_block hrd pro hln pln op sha spa tha tpa) \<longleftrightarrow>
     length sha < unat hln \<or> length spa < unat pln \<or> length tha < unat hln \<or> length tpa < unat pln"
| "overreads b \<longleftrightarrow> False"

fun has_protocol :: "u16 \<Rightarrow> block \<Rightarrow> bool" where
  "has_protocol p (Arp_block hrd pro hln pln op sha spa tha tpa) \<longleftrightarrow> pro = p"
| "has_protocol p b \<longleftrightarrow> False"

lemma overreads_arp_frame:
  assumes "length (enet_src (gr_job G)) = 6"
  shows "list_ex overreads (arp_frame G hrd pro hln pln op) \<longleftrightarrow> 6 < unat hln \<or> 4 < unat pln"
  using assms by (auto simp: arp_frame_def)

lemma has_protocol_arp_frame: "list_ex (has_protocol p) (arp_frame G hrd pro hln pln op) \<longleftrightarrow> pro = p"
  by (auto simp: arp_frame_def)

lemmas grammear_counts = arp_grammar_frames_def arp_frames5_def arp_frames6_def arp_frames7_def
  filter_concat filter_map filter_replicate length_concat sum_list_triv o_def

text \<open>\<open>ARP_Grammear\<close> is not memory safe: with the six-byte source address it is given, 895 of
  its 2845 frames ask libnet to copy more bytes than the address arrays have.\<close>

theorem ARP_Grammear_overreads:
  assumes "length (enet_src (gr_job G)) = 6"
  shows "length (filter (list_ex overreads) (arp_grammar_frames G)) = 895"
  by (simp add: grammear_counts overreads_arp_frame [OF assms])
    (simp add: Grammear_ARPHRD_TYPE_def Grammear_ARP_POROTOL_def Grammear_ARP_OPCODE_def
      Grammear_ARP_HARDWARE_SIZE_def Grammear_ARP_POROTOL_SIZE_def)

text \<open>The loops of phases 5 to 7 that are to vary the protocol do not: each sends 20 times the
  same frame, with the value behind the end of the table (\<open>Grammear_ARP_POROTOL[20]\<close>). When that
  value is not a protocol the test uses otherwise, it is in exactly 880 of the 2845 frames.\<close>

theorem ARP_Grammear_protocol_out_of_bounds:
  assumes "gr_oob G \<notin> set (0x0800 # Grammear_ARP_POROTOL)"
  shows "length (filter (list_ex (has_protocol (gr_oob G))) (arp_grammar_frames G)) = 880"
proof -
  from assms have ne: "gr_oob G \<noteq> 0x0800" "0x0800 \<noteq> gr_oob G"
    "filter (\<lambda>p. p = gr_oob G) Grammear_ARP_POROTOL = []"
    by (auto simp: filter_empty_conv)
  have "concat (map (\<lambda>p. filter (\<lambda>x. p = gr_oob G) xs) Grammear_ARP_POROTOL) = []" for xs :: "u16 list"
    using assms by (auto simp: concat_eq_Nil_conv filter_empty_conv)
  then show ?thesis
    using ne assms by (simp add: grammear_counts has_protocol_arp_frame)
qed

text \<open>\<open>ARP_Request_Storm\<close> does not send requests from the host: the frames it repeats are ARP
  replies (operation 2) sent to the broadcast address, and as it parses the hardware address as the
  text of the source address, their sender address is 0.0.0.0 unless the first byte of the hardware
  address happens to be an ASCII digit. On success it marks the mission as ended.\<close>

theorem ARP_Request_Storm_frames:
  assumes "clock_advances E" "job_paced a" "job_ok a"
    "e_init E (device a) (Suc (tick w))" "\<forall>n. e_build E n \<noteq> -1"
    "\<not> (48 \<le> hd (enet_src a) \<and> hd (enet_src a) \<le> 57)"
  shows "\<exists>w' rs. settles (\<lambda>fuel. ARP_Request_Storm g fuel E a w) (Return 1 w') \<and>
     rm_status (Running w') = END \<and>
     sent w' = sent w @ map (Pair [Arp_block 1 0x0800 6 4 2 (enet_src a) [0, 0, 0, 0] (enet_dst a)
       (le_bytes (Get_long_address g (Some (ip_dst a)))), Eth_auto_block (replicate 6 0xff) 0x0806]) rs"
proof -
  let ?d = "Get_long_address g (Some (ip_dst a))"
  let ?arp = "Arp_block 1 0x0800 6 4 2 (enet_src a) [0, 0, 0, 0] (enet_dst a) (le_bytes ?d)"
  let ?eth = "Eth_auto_block [0xff, 0xff, 0xff, 0xff, 0xff, 0xff] 0x0806"
  let ?fin = "\<lambda>w3. let (fin, w4) = ext (e_clock E) (libnet_destroy w3)
                   in RUNING_MISSION_W 0 END fin ARP_REQUEST_STORM_T w4"
  define w2 where "w2 = snd (libnet_init E (device a) (RUNING_MISSION_W (e_self E) RUNNING
     (e_clock E (tick w)) ARP_REQUEST_STORM_T (w\<lparr>tick := Suc (tick w)\<rparr>)))"
  let ?w4 = "snd (libnet_build E ?eth (snd (libnet_build E ?arp w2)))"
  obtain c cs where c: "enet_src a = c # cs" "\<not> (48 \<le> c \<and> c \<le> 57)"
    using assms(3,6) by (cases "enet_src a") (auto simp: job_ok_def)
  have s0: "Get_long_address g (Some (enet_src a @ enet_dst a @ take 4 (device a))) = 0"
    using c by (auto simp: Get_long_address_def gla_loop.simps)
  have w2: "sent w2 = sent w" "pkt w2 = []" by (simp_all add: w2_def)
  obtain w1 rs where r: "settles (\<lambda>n. finish_storm ?fin (run_storm n E (speed a) (test_time a) (storm_time a)
      (top_speed a) ?w4)) (Return 1 (?fin w1))" "sent w1 = sent ?w4 @ map (Pair (pkt ?w4)) rs"
    using settles_finish [OF assms(1,2)] by blast
  have "settles (\<lambda>fuel. ARP_Request_Storm g fuel E a w) (Return 1 (?fin w1))"
    using r(1) assms(4,5) s0
    by (simp add: ARP_Request_Storm_def arp_storm_def ext_def case_prod_unfold Let_def w2_def [symmetric] le_bytes_def)
  moreover have "rm_status (Running (?fin w1)) = END"
    by (simp add: ext_def RUNING_MISSION_W_def)
  moreover have "sent (?fin w1) = sent w @ map (Pair [?arp, Eth_auto_block (replicate 6 0xff) 0x0806]) rs"
    using r(2) w2 assms(5) by (simp add: ext_def numeral_eq_Suc)
  ultimately show ?thesis by blast
qed

text \<open>\<open>APR_Host_Reply_Storm\<close> ignores the source address it is given: whatever \<open>ip_src\<close> is, the
  frames it repeats carry the bytes of its uninitialised local as sender address.\<close>

theorem APR_Host_Reply_Storm_sender:
  assumes "clock_advances E" "job_paced a" "e_init E (device a) (tick w)" "\<forall>n. e_build E n \<noteq> -1"
  shows "\<exists>w' rs. (\<forall>any. settles (\<lambda>fuel. APR_Host_Reply_Storm g i fuel E (a\<lparr>ip_src := any\<rparr>) w) (Return 1 w')) \<and>
     sent w' = sent w @ map (Pair [Arp_block 1 0x0800 6 4 2 (enet_src a) (le_bytes i) (enet_dst a)
       (le_bytes (Get_long_address g (Some (ip_dst a)))), Eth_auto_block (enet_dst a) 0x0806]) rs"
proof -
  let ?d = "Get_long_address g (Some (ip_dst a))"
  let ?arp = "Arp_block 1 0x0800 6 4 2 (enet_src a) (le_bytes i) (enet_dst a) (le_bytes ?d)"
  let ?eth = "Eth_auto_block (enet_dst a) 0x0806"
  let ?w4 = "snd (libnet_build E ?eth (snd (libnet_build E ?arp (snd (libnet_init E (device a) w)))))"
  obtain w1 rs where r: "settles (\<lambda>n. finish_storm libnet_destroy (run_storm n E (speed a) (test_time a) (storm_time a)
      (top_speed a) ?w4)) (Return 1 (libnet_destroy w1))" "sent w1 = sent ?w4 @ map (Pair (pkt ?w4)) rs"
    using settles_finish [OF assms(1,2)] by blast
  have "settles (\<lambda>fuel. APR_Host_Reply_Storm g i fuel E (a\<lparr>ip_src := any\<rparr>) w) (Return 1 (libnet_destroy w1))" for any
    using r(1) assms(3,4)
    by (simp add: APR_Host_Reply_Storm_def arp_storm_def case_prod_unfold Let_def)
  moreover have "sent (libnet_destroy w1) = sent w @ map (Pair [?arp, ?eth]) rs"
    using r(2) assms(4) by simp
  ultimately show ?thesis by blast
qed

text \<open>\<open>ARP_Cache_Saturation_Storm\<close> ends whatever values its callee finds for the argument it is
  not given, and it returns 1; as long as libnet accepts the blocks, every frame it sends is an ARP
  reply of a random host to the target, with one hardware address in both headers.\<close>

theorem ARP_Cache_Saturation_ends:
  assumes "clock_advances E" "\<And>t. paced_ok (tsp t) (speed a)" "e_init E (device a) (tick w)"
  shows "\<exists>w'. settles (\<lambda>fuel. ARP_Cache_Saturation_Storm g fuel E tsp packet_s a w) (Return 1 w') \<and>
     ((\<forall>n. e_build E n \<noteq> -1) \<longrightarrow>
        (\<exists>fs. frames_sent w' = frames_sent w @ fs \<and>
           (\<forall>f\<in>set fs. spoofed_reply (enet_dst a) (Get_long_address g (Some (ip_dst a))) f)))"
proof -
  let ?d = "Get_long_address g (Some (ip_dst a))"
  let ?w1 = "snd (libnet_init E (device a) w)"
  let ?t = "Suc (tick w)"
  let ?w3 = "?w1\<lparr>tick := Suc (Suc ?t)\<rparr>"
  obtain N where "\<And>n. N \<le> n \<Longrightarrow> test_time a < (e_clock E n - e_clock E ?t) sdiv CLOCKS_PER_SEC"
    using clock_passes [OF assms(1), of "test_time a" "e_clock E ?t"] by blast
  from saturation_loop_settles [where tsp = tsp, OF assms(1,2) this, where ps = packet_s and d = ?d and w = ?w3 and
      end_t = "(e_clock E (Suc ?t) - e_clock E ?t) sdiv CLOCKS_PER_SEC"]
  obtain w' where w': "settles (\<lambda>n. saturation_loop n E tsp packet_s a ?d (e_clock E ?t)
      ((e_clock E (Suc ?t) - e_clock E ?t) sdiv CLOCKS_PER_SEC) ?w3) (Return 1 w')"
    "spoofs E (enet_dst a) ?d ?w3 w'" by blast
  have "settles (\<lambda>fuel. ARP_Cache_Saturation_Storm g fuel E tsp packet_s a w) (Return 1 w')"
    using w'(1) assms(3) by (simp add: ARP_Cache_Saturation_Storm_def ext_def case_prod_unfold Let_def)
  moreover have "\<forall>n. e_build E n \<noteq> -1 \<Longrightarrow> \<exists>fs. frames_sent w' = frames_sent w @ fs \<and>
      (\<forall>f\<in>set fs. spoofed_reply (enet_dst a) ?d f)"
    using w'(2) by (auto simp: spoofs_def)
  ultimately show ?thesis by blast
qed

section \<open>Concrete runs\<close>

theorem ARP_Grammear_sends_all_witness:
  "\<exists>i. generated good_env (arp_grammar_frames \<lparr>gr_env = good_env, gr_job = lab_job, gr_i = i,
       gr_d = Get_long_address 0 (Some (ip_dst lab_job)), gr_packet_s = 0, gr_oob = 7\<rparr>) net_init
       (ARP_Grammear 0 0 7 good_env lab_job net_init) \<and>
     length (arp_grammar_frames \<lparr>gr_env = good_env, gr_job = lab_job, gr_i = i,
       gr_d = Get_long_address 0 (Some (ip_dst lab_job)), gr_packet_s = 0, gr_oob = 7\<rparr>) = 2845"
  by (rule ARP_Grammear_sends_all) (simp_all add: paced_ok_def lab_job_def)

definition lab_grammear :: grammear where
  "lab_grammear = \<lparr>gr_env = good_env, gr_job = lab_job, gr_i = 0, gr_d = 0, gr_packet_s = 0, gr_oob = 0x1234\<rparr>"

theorem ARP_Grammear_overreads_witness:
  "length (filter (list_ex overreads) (arp_grammar_frames lab_grammear)) = 895"
  by (rule ARP_Grammear_overreads) (simp add: lab_grammear_def lab_job_def)

theorem ARP_Grammear_protocol_out_of_bounds_witness:
  "length (filter (list_ex (has_protocol (gr_oob lab_grammear))) (arp_grammar_frames lab_grammear)) = 880"
  by (rule ARP_Grammear_protocol_out_of_bounds) (simp add: lab_grammear_def Grammear_ARP_POROTOL_def)

theorem ARP_Request_Storm_frames_witness:
  "\<exists>w' rs. settles (\<lambda>fuel. ARP_Request_Storm 0 fuel good_env lab_job net_init) (Return 1 w') \<and>
     rm_status (Running w') = END \<and>
     sent w' = sent net_init @ map (Pair [Arp_block 1 0x0800 6 4 2 (enet_src lab_job) [0, 0, 0, 0] (enet_dst lab_job)
       (le_bytes (Get_long_address 0 (Some (ip_dst lab_job)))), Eth_auto_block (replicate 6 0xff) 0x0806]) rs"
  by (rule ARP_Request_Storm_frames) (simp_all add: good_env_advances paced_ok_def lab_job_def job_ok_def)

theorem APR_Host_Reply_Storm_sender_witness:
  "\<exists>w' rs. (\<forall>any. settles (\<lambda>fuel. APR_Host_Reply_Storm 0 42 fuel good_env (lab_job\<lparr>ip_src := any\<rparr>) net_init)
       (Return 1 w')) \<and>
     sent w' = sent net_init @ map (Pair [Arp_block 1 0x0800 6 4 2 (enet_src lab_job) (le_bytes 42) (enet_dst lab_job)
       (le_bytes (Get_long_address 0 (Some (ip_dst lab_job)))), Eth_auto_block (enet_dst lab_job) 0x0806]) rs"
  by (rule APR_Host_Reply_Storm_sender) (simp_all add: good_env_advances paced_ok_def lab_job_def)

theorem ARP_Cache_Saturation_ends_witness:
  "\<exists>w'. settles (\<lambda>fuel. ARP_Cache_Saturation_Storm 0 fuel good_env (\<lambda>n. even n) 0 lab_job net_init) (Return 1 w') \<and>
     ((\<forall>n. e_build good_env n \<noteq> -1) \<longrightarrow>
        (\<exists>fs. frames_sent w' = frames_sent net_init @ fs \<and>
           (\<forall>f\<in>set fs. spoofed_reply (enet_dst lab_job) (Get_long_address 0 (Some (ip_dst lab_job))) f)))"
  by (rule ARP_Cache_Saturation_ends) (simp_all add: good_env_advances paced_ok_def lab_job_def)

end
