(* ===== verification/Icmp_Frames.thy ===== *)
theory Icmp_Frames
  imports Jobs Address
begin

text \<open>
  The ICMP generators of network/icmp.c: the echo storm, the fuzzer, the grammar test and the cross
  product of types and codes.
\<close>

abbreviation (input) "IPPROTO_ICMP \<equiv> (1 :: u8)"
abbreviation (input) "ICMP_ECHO \<equiv> (8 :: u8)"
abbreviation (input) "ICMP_UNREACH \<equiv> (3 :: u8)"
abbreviation (input) "ICMP_TSTAMP \<equiv> (13 :: u8)"
abbreviation (input) "ICMP_TIMXCEED \<equiv> (11 :: u8)"
abbreviation (input) "ICMP_REDIRECT \<equiv> (5 :: u8)"

text \<open>\<open>LIBNET_IPV4_H\<close>, \<open>LIBNET_ICMPV4_ECHO_H\<close> and the size of a pointer on the 64-bit target.\<close>

abbreviation (input) "IPV4_H \<equiv> (20 :: nat)"
abbreviation (input) "ICMPV4_ECHO_H \<equiv> (8 :: nat)"
abbreviation (input) "sizeof_ptr \<equiv> (8 :: nat)"

text \<open>The IP header all the loops build, for a given total length field: no options, id 0x42, TTL
  64; and the Ethernet header.\<close>

definition icmp_ip :: "nat \<Rightarrow> u32 \<Rightarrow> u32 \<Rightarrow> block" where
  "icmp_ip len s d = Ipv4_block (of_nat len) 0 0x42 0 64 IPPROTO_ICMP 0 s d []"

definition icmp_eth :: "job \<Rightarrow> block" where
  "icmp_eth a = Eth_block (enet_dst a) (enet_src a) 0x0800 []"

section \<open>Icmp_storm\<close>

text \<open>A refused context ends the whole process; refused blocks are only logged.\<close>

definition Icmp_storm :: "u32 \<Rightarrow> nat \<Rightarrow> env \<Rightarrow> job \<Rightarrow> net \<Rightarrow> (int, net) flow option" where
  "Icmp_storm g fuel E a w =
     (let (now, w0) = ext (e_clock E) w;
          w1 = RUNING_MISSION_W (e_self E) RUNNING now ICMP_STORM_STORM_T w0;
          d = Get_long_address g (Some (ip_dst a));
          s = Get_long_address g (Some (ip_src a));
          payload_s = 0;
          (l, w2) = libnet_init E (device a) w1
      in if \<not> l then Some (Exit 1 w2)
         else let (t, w3) = libnet_build E (Icmp_echo_block ICMP_ECHO 0 0 0x42 0x42
                              (map of_nat [97..<117])) w2;
                  (t, w4) = libnet_build E (icmp_ip (IPV4_H + ICMPV4_ECHO_H + payload_s) s d) w3;
                  (t, w5) = libnet_build E (icmp_eth a) w4
              in finish_storm (\<lambda>w. w)
                   (run_storm fuel E (speed a) (test_time a) (storm_time a) (top_speed a) w5))"

section \<open>Icmp_Fuzzer\<close>

text \<open>
  The loop of the fuzzer. \<open>payload\<close> is a pointer, so \<open>sizeof(payload)\<close> is 8 whatever was
  allocated; for a shorter allocation the bytes behind it, \<open>heap\<close>, are sent too. As
  \<open>Icmp_type_code\<close> has 16 bits, the loop has no exit. \<open>Next\<close> is the state after \<open>n\<close> iterations.
\<close>

definition icmp_fuzz_blocks :: "job \<Rightarrow> u32 \<Rightarrow> u32 \<Rightarrow> u16 \<Rightarrow> u16 \<Rightarrow> u16 \<Rightarrow> u8 list \<Rightarrow> ((net \<Rightarrow> net) \<times> block) list" where
  "icmp_fuzz_blocks a s d ident sq tc payload8 =
     [(libnet_destroy, Icmp_echo_block (ucast (drop_bit 8 tc)) (ucast tc) 0 ident sq payload8),
      (\<lambda>w. w, icmp_ip (IPV4_H + ICMPV4_ECHO_H + sizeof_ptr) s d),
      (\<lambda>w. w, icmp_eth a)]"

fun icmp_fuzzer_loop ::
  "nat \<Rightarrow> env \<Rightarrow> u8 list \<Rightarrow> job \<Rightarrow> u32 \<Rightarrow> u32 \<Rightarrow> u16 \<Rightarrow> u16 \<Rightarrow> net \<Rightarrow> (int, net) flow" where
  "icmp_fuzzer_loop 0 E heap a s d ident tc w = Next w"
| "icmp_fuzzer_loop (Suc n) E heap a s d ident tc w =
     (if \<not> tc \<le> 0xffff then Next w
      else
        (let (R, w1) = ext (e_rand E) w;
             r = R mod 1000
         in if r = 0 then icmp_fuzzer_loop n E heap a s d ident tc w1
            else
              (case Create_Random E r (replicate r 0) w1 of
                 (None, w2) \<Rightarrow> Trap w2
               | (Some payload, w2) \<Rightarrow>
                   and_then (and_then (build_blocks E (icmp_fuzz_blocks a s d ident 1 tc
                                (take sizeof_ptr (payload @ heap))) w2)
                              (write_and_pace_always E (top_speed a) (speed a)))
                     (icmp_fuzzer_loop n E heap a s d ident (tc + 1)))))"

definition Icmp_Fuzzer :: "u32 \<Rightarrow> nat \<Rightarrow> env \<Rightarrow> u8 list \<Rightarrow> job \<Rightarrow> net \<Rightarrow> (int, net) flow" where
  "Icmp_Fuzzer g n E heap a w =
     (let (now, w0) = ext (e_clock E) w;
          w1 = init_pacing E (RUNING_MISSION_W (e_self E) RUNNING now ICMP_STORM_STORM_T w0);
          d = Get_long_address g (Some (ip_dst a));
          s = Get_long_address g (Some (ip_src a));
          (R, w2) = ext (e_prand E) w1;
          ident = ucast R;
          (l, w3) = libnet_init E (device a) w2
      in if \<not> l then Return 0 w3 else icmp_fuzzer_loop n E heap a s d ident 0 w3)"

section \<open>Icmp_Grammar\<close>

definition icmp_ids :: "u16 list" where
  "icmp_ids = [0x0000, 0xffff, 0x0011, 0x1fff, 0x7fff, 0xfffe, 0xff00]"

definition icmp_stamps :: "u32 list" where
  "icmp_stamps = [0x00000000, 0x11111111, 0xffffffff, 0x7fffffff, 0xfffffffe]"

text \<open>\<open>payload\<close>, 49 letters and their terminator, and \<open>long_payload\<close>.\<close>

definition short_payload :: "u8 list" where
  "short_payload = replicate 49 97 @ [0]"

definition long_payload :: "u8 list" where
  "long_payload = replicate 983 0x2a"

text \<open>The locals of the loop that decide the next frame. \<open>payload_use\<close> stands for the pair of
  \<open>payload_use\<close> and \<open>l_use\<close>.\<close>

record grammar =
  head_type :: u8
  Icmp_code :: u8
  gi :: nat
  gj :: nat
  type_add :: bool
  Icmp_id :: u16
  Icmp_seq :: u16
  payload_use :: "u8 list"
  gm :: nat
  gn :: nat
  gk :: nat

text \<open>The assignments at the head of the cases \<open>ICMP_ECHO\<close> and \<open>ICMP_TSTAMP\<close>.\<close>

definition select_echo :: "grammar \<Rightarrow> grammar" where
  "select_echo st =
     (if gi st < 7 then
        (let s1 = st\<lparr>payload_use := short_payload, Icmp_id := icmp_ids ! gi st\<rparr>;
             s2 = (if gj s1 < 7 then s1\<lparr>Icmp_seq := icmp_ids ! gj s1, gj := gj s1 + 1, payload_use := short_payload\<rparr>
                   else s1);
             s3 = (if gj s2 = 7 then s2\<lparr>payload_use := long_payload, gi := gi s2 + 1\<rparr> else s2)
         in s3\<lparr>type_add := False\<rparr>)
      else st\<lparr>type_add := True, gi := 0, gj := 0\<rparr>)"

definition select_tstamp :: "grammar \<Rightarrow> grammar" where
  "select_tstamp st =
     (if gi st < 7 then
        (let s1 = st\<lparr>Icmp_id := icmp_ids ! gi st\<rparr>;
             s2 = (if gj s1 < 7 then s1\<lparr>Icmp_seq := icmp_ids ! gj s1, gj := gj s1 + 1\<rparr> else s1);
             s3 = (if gj s2 = 7 then s2\<lparr>gi := gi s2 + 1\<rparr> else s2)
         in s3\<lparr>type_add := False, gm := gj s3 mod 5, gn := gj s3 mod 5, gk := (gi s3 + gj s3) mod 5\<rparr>)
      else st\<lparr>type_add := True, gi := 0, gj := 0\<rparr>)"

definition grammar_select :: "grammar \<Rightarrow> grammar" where
  "grammar_select st =
     (if head_type st = ICMP_ECHO then select_echo st
      else if head_type st = ICMP_TSTAMP then select_tstamp st else st)"

text \<open>The ICMP block each case builds; the \<open>default\<close> case builds none.\<close>

definition grammar_icmp :: "grammar \<Rightarrow> block list" where
  "grammar_icmp st =
     (if head_type st = ICMP_ECHO then
        [Icmp_echo_block ICMP_ECHO (Icmp_code st) 0 (Icmp_id st) (Icmp_seq st) (payload_use st)]
      else if head_type st = ICMP_UNREACH then [Icmp_unreach_block ICMP_UNREACH (Icmp_code st) 0 short_payload]
      else if head_type st = ICMP_TSTAMP then
        [Icmp_timestamp_block ICMP_TSTAMP (Icmp_code st) 0 (Icmp_id st) (Icmp_seq st)
           (icmp_stamps ! gm st) (icmp_stamps ! gn st) (icmp_stamps ! gk st)]
      else if head_type st = ICMP_TIMXCEED then [Icmp_timeexceed_block ICMP_TIMXCEED (Icmp_code st) 0]
      else if head_type st = ICMP_REDIRECT then [Icmp_redirect_block ICMP_REDIRECT (Icmp_code st) 0 0]
      else [])"

text \<open>What the end of the body does: \<open>None\<close> is the \<open>break\<close>.\<close>

definition grammar_advance :: "grammar \<Rightarrow> grammar option" where
  "grammar_advance st =
     (if Icmp_code st = 0xff then
        (let st = st\<lparr>type_add := True\<rparr>
         in if head_type st = ICMP_ECHO then Some (st\<lparr>head_type := ICMP_UNREACH, Icmp_code := 0\<rparr>)
            else if head_type st = ICMP_UNREACH then Some (st\<lparr>head_type := ICMP_TSTAMP, Icmp_code := 0\<rparr>)
            else if head_type st = ICMP_TSTAMP then Some (st\<lparr>head_type := ICMP_TIMXCEED, Icmp_code := 0\<rparr>)
            else if head_type st = ICMP_TIMXCEED then Some (st\<lparr>head_type := ICMP_REDIRECT, Icmp_code := 0\<rparr>)
            else None)
      else if type_add st then Some (st\<lparr>Icmp_code := Icmp_code st + 1\<rparr>)
      else Some st)"

definition grammar_blocks :: "job \<Rightarrow> u32 \<Rightarrow> u32 \<Rightarrow> grammar \<Rightarrow> ((net \<Rightarrow> net) \<times> block) list" where
  "grammar_blocks a s d st =
     map (Pair libnet_destroy) (grammar_icmp st) @
     [(\<lambda>w. w, icmp_ip (IPV4_H + ICMPV4_ECHO_H + length short_payload) s d), (\<lambda>w. w, icmp_eth a)]"

fun grammar_loop :: "nat \<Rightarrow> env \<Rightarrow> job \<Rightarrow> u32 \<Rightarrow> u32 \<Rightarrow> grammar \<Rightarrow> net \<Rightarrow> (int, net) flow option" where
  "grammar_loop 0 E a s d st w = None"
| "grammar_loop (Suc fuel) E a s d st w =
     (if \<not> Icmp_code st \<le> 0xff then Some (Next w)
      else let st1 = grammar_select st
           in case and_then (build_blocks E (grammar_blocks a s d st1) w)
                     (write_and_pace_always E (top_speed a) (speed a)) of
                Next w1 \<Rightarrow>
                  (case grammar_advance st1 of
                     None \<Rightarrow> Some (Next w1)
                   | Some st2 \<Rightarrow> grammar_loop fuel E a s d st2 w1)
              | r \<Rightarrow> Some r)"

text \<open>The locals at the start; \<open>junk\<close> holds what the uninitialised ones contain.\<close>

definition grammar_start :: "grammar \<Rightarrow> grammar" where
  "grammar_start junk = junk\<lparr>head_type := ICMP_ECHO, Icmp_code := 0, gi := 0, gj := 0\<rparr>"

definition Icmp_Grammar :: "u32 \<Rightarrow> grammar \<Rightarrow> nat \<Rightarrow> env \<Rightarrow> job \<Rightarrow> net \<Rightarrow> (int, net) flow option" where
  "Icmp_Grammar g junk fuel E a w =
     (let (now, w0) = ext (e_clock E) w;
          w1 = init_pacing E (RUNING_MISSION_W (e_self E) RUNNING now ICMP_GRAMMAR_T w0);
          d = Get_long_address g (Some (ip_dst a));
          s = Get_long_address g (Some (ip_src a));
          (l, w2) = libnet_init E (device a) w1
      in if \<not> l then Some (Exit 1 w2) else grammar_loop fuel E a s d (grammar_start junk) w2)"

section \<open>Icmp_Type_Code_Cross_Product\<close>

definition type_code_blocks :: "job \<Rightarrow> u32 \<Rightarrow> u32 \<Rightarrow> u16 \<Rightarrow> ((net \<Rightarrow> net) \<times> block) list" where
  "type_code_blocks a s d tc =
     [(libnet_destroy, Icmp_echo_block (ucast (drop_bit 8 tc)) (ucast tc) 0 0 0 (replicate 320 0)),
      (\<lambda>w. w, icmp_ip (IPV4_H + ICMPV4_ECHO_H + sizeof_ptr) s d),
      (\<lambda>w. w, icmp_eth a)]"

fun type_code_loop :: "nat \<Rightarrow> env \<Rightarrow> job \<Rightarrow> u32 \<Rightarrow> u32 \<Rightarrow> u16 \<Rightarrow> net \<Rightarrow> (int, net) flow" where
  "type_code_loop 0 E a s d tc w = Next w"
| "type_code_loop (Suc n) E a s d tc w =
     (if \<not> tc \<le> 0xffff then Next w
      else and_then (and_then (build_blocks E (type_code_blocks a s d tc) w)
                      (write_and_pace_always E (top_speed a) (speed a)))
             (type_code_loop n E a s d (tc + 1)))"

definition Icmp_Type_Code_Cross_Product :: "u32 \<Rightarrow> nat \<Rightarrow> env \<Rightarrow> job \<Rightarrow> net \<Rightarrow> (int, net) flow" where
  "Icmp_Type_Code_Cross_Product g n E a w =
     (let (now, w0) = ext (e_clock E) w;
          w1 = init_pacing E (RUNING_MISSION_W (e_self E) RUNNING now ICMP_TYPE_CODE_T w0);
          d = Get_long_address g (Some (ip_dst a));
          s = Get_long_address g (Some (ip_src a));
          (l, w2) = libnet_init E (device a) w1
      in if \<not> l then Return 0 w2 else type_code_loop n E a s d 0 w2)"

section \<open>The type and code loops\<close>

lemma u16_le_max: "(x :: u16) \<le> 0xffff"
proof -
  have "(0xffff :: u16) = -1" by simp
  then show ?thesis by (metis word_order.extremum)
qed

lemma u8_le_max: "(x :: u8) \<le> 0xff"
proof -
  have "(0xff :: u8) = -1" by simp
  then show ?thesis by (metis word_order.extremum)
qed

lemma destroy_blocks_ok:
  "\<forall>x\<in>set (type_code_blocks a s d tc). \<forall>u. sent (fst x u) = sent u"
  "\<forall>x\<in>set (icmp_fuzz_blocks a s d ident q tc p). \<forall>u. sent (fst x u) = sent u"
  "\<forall>x\<in>set (grammar_blocks a s d st). \<forall>u. sent (fst x u) = sent u"
  by (auto simp: type_code_blocks_def icmp_fuzz_blocks_def grammar_blocks_def)

definition type_code_frame :: "job \<Rightarrow> u32 \<Rightarrow> u32 \<Rightarrow> u16 \<Rightarrow> frame" where
  "type_code_frame a s d tc = map snd (type_code_blocks a s d tc)"

lemma type_code_loop_emits:
  assumes "job_paced a"
  shows "gen_emits E (type_code_loop n E a s d tc) (map (\<lambda>k. type_code_frame a s d (tc + of_nat k)) [0..<n])"
proof (induction n arbitrary: tc)
  case 0
  then show ?case by (simp add: emits_def)
next
  case (Suc n)
  have "gen_emits E (\<lambda>w. and_then (and_then (build_blocks E (type_code_blocks a s d tc) w)
      (write_and_pace_always E (top_speed a) (speed a))) (type_code_loop n E a s d (tc + 1)))
      ([type_code_frame a s d tc] @ map (\<lambda>k. type_code_frame a s d (tc + 1 + of_nat k)) [0..<n])"
    unfolding type_code_frame_def
    by (intro emits_then send_blocks_emits destroy_blocks_ok assms Suc.IH [unfolded type_code_frame_def])
  moreover have "map (\<lambda>k. type_code_frame a s d (tc + of_nat k)) [0..<Suc n] =
      [type_code_frame a s d tc] @ map (\<lambda>k. type_code_frame a s d (tc + 1 + of_nat k)) [0..<n]"
    by (simp add: upt_conv_Cons map_Suc_upt [symmetric] o_def algebra_simps del: upt_Suc)
  ultimately show ?case by (simp add: u16_le_max)
qed

lemma icmp_fuzzer_loop_frames:
  assumes "job_paced a" "8 \<le> length heap" "\<not> build_fails E"
  shows "no_packet w \<Longrightarrow> \<exists>w' ps. icmp_fuzzer_loop n E heap a s d ident tc w = Next w' \<and> length ps \<le> n \<and>
     (\<forall>p\<in>set ps. length p = 8) \<and> frames_sent w' = frames_sent w @
       map2 (\<lambda>k p. map snd (icmp_fuzz_blocks a s d ident 1 (tc + of_nat k) p)) [0..<length ps] ps"
proof (induction n arbitrary: tc w)
  case 0
  have "\<exists>ps. length ps \<le> 0 \<and> (\<forall>p\<in>set ps. length p = 8) \<and> frames_sent w = frames_sent w @
       map2 (\<lambda>k p. map snd (icmp_fuzz_blocks a s d ident 1 (tc + of_nat k) p)) [0..<length ps] ps"
    by (intro exI [of _ "[]"]) simp
  then show ?case by simp
next
  case (Suc n)
  let ?w1 = "w\<lparr>tick := Suc (tick w)\<rparr>" and ?r = "e_rand E (tick w) mod 1000"
  let ?F = "\<lambda>tc ps. map2 (\<lambda>k p. map snd (icmp_fuzz_blocks a s d ident 1 (tc + of_nat k) p)) [0..<length ps] ps"
  have F: "?F tc (p # ps) = map snd (icmp_fuzz_blocks a s d ident 1 tc p) # ?F (tc + 1) ps" for p ps
    by (simp add: upt_conv_Cons map_Suc_upt [symmetric] zip_map1 del: upt_Suc)
      (simp add: case_prod_unfold algebra_simps)
  show ?case
  proof (cases "?r = 0")
    case True
    obtain w' ps where "icmp_fuzzer_loop n E heap a s d ident tc ?w1 = Next w'" "length ps \<le> n"
      "\<forall>p\<in>set ps. length p = 8" "frames_sent w' = frames_sent ?w1 @ ?F tc ps"
      using Suc.IH [of ?w1 tc] Suc.prems by auto
    then show ?thesis using True by (intro exI [of _ w'] exI [of _ ps]) (simp add: ext_def u16_le_max)
  next
    case False
    define buf where "buf = take ?r (rand_bytes E (tick ?w1) (?r div 4 + 1)) @ drop ?r (replicate ?r (0::u8))"
    define w2 where "w2 = snd (Create_Random E ?r (replicate ?r 0) ?w1)"
    have cr: "Create_Random E ?r (replicate ?r 0) ?w1 = (Some buf, w2)"
      using Create_Random_value [of E ?r "replicate ?r 0" ?w1] by (simp add: buf_def w2_def prod_eq_iff)
    have w2: "no_packet w2" "frames_sent w2 = frames_sent w"
      using Suc.prems Create_Random_frame [of E ?r "replicate ?r 0" ?w1]
      by (simp_all add: w2_def frames_sent_def)
    let ?p = "take 8 (buf @ heap)"
    have len: "length ?p = 8" using assms(2) by simp
    have "gen_emits E (\<lambda>w. and_then (build_blocks E (icmp_fuzz_blocks a s d ident 1 tc ?p) w)
        (write_and_pace_always E (top_speed a) (speed a))) [map snd (icmp_fuzz_blocks a s d ident 1 tc ?p)]"
      by (intro send_blocks_emits destroy_blocks_ok assms(1))
    then obtain w3 where w3: "and_then (build_blocks E (icmp_fuzz_blocks a s d ident 1 tc ?p) w2)
        (write_and_pace_always E (top_speed a) (speed a)) = Next w3" "no_packet w3"
      "frames_sent w3 = frames_sent w2 @ [map snd (icmp_fuzz_blocks a s d ident 1 tc ?p)]"
      using w2(1) assms(3) by (auto elim: emits_cases)
    obtain w' ps where "icmp_fuzzer_loop n E heap a s d ident (tc + 1) w3 = Next w'" "length ps \<le> n"
      "\<forall>p\<in>set ps. length p = 8" "frames_sent w' = frames_sent w3 @ ?F (tc + 1) ps"
      using Suc.IH [OF w3(2), of "tc + 1"] by auto
    then show ?thesis using cr w3 w2 False len F
      by (intro exI [of _ w'] exI [of _ "?p # ps"]) (simp add: ext_def u16_le_max del: take_append)
  qed
qed

section \<open>The course of the grammar test\<close>

text \<open>The states in which the first \<open>n\<close> iterations build their frames, and the state they leave,
  \<open>None\<close> after the \<open>break\<close>.\<close>

fun grammar_trace :: "nat \<Rightarrow> grammar \<Rightarrow> grammar list \<times> grammar option" where
  "grammar_trace 0 st = ([], Some st)"
| "grammar_trace (Suc n) st =
     (let st1 = grammar_select st
      in case grammar_advance st1 of
           None \<Rightarrow> ([st1], None)
         | Some st2 \<Rightarrow> (let (l, e) = grammar_trace n st2 in (st1 # l, e)))"

lemma grammar_trace_numeral [simp]:
  "grammar_trace (numeral k) st =
     (let st1 = grammar_select st
      in case grammar_advance st1 of
           None \<Rightarrow> ([st1], None)
         | Some st2 \<Rightarrow> (let (l, e) = grammar_trace (pred_numeral k) st2 in (st1 # l, e)))"
  by (simp add: numeral_eq_Suc)

lemma grammar_trace_add:
  "grammar_trace n st = (l, Some st') \<Longrightarrow>
   grammar_trace (n + m) st = (l @ fst (grammar_trace m st'), snd (grammar_trace m st'))"
proof (induction n arbitrary: st l)
  case (Suc n)
  then show ?case by (auto simp: Let_def split: option.splits prod.splits)
qed simp

text \<open>The frames a trace builds, as lists of ICMP blocks.\<close>

definition builds :: "nat \<Rightarrow> grammar \<Rightarrow> block list list \<Rightarrow> grammar option \<Rightarrow> bool" where
  "builds n st fs e \<longleftrightarrow> map grammar_icmp (fst (grammar_trace n st)) = fs \<and> snd (grammar_trace n st) = e"

lemma builds_add:
  "builds n st fs (Some st') \<Longrightarrow> builds m st' gs e \<Longrightarrow> builds (n + m) st (fs @ gs) e"
  unfolding builds_def using grammar_trace_add [of n st _ st' m]
  by (metis fst_conv map_append prod.collapse snd_conv)

lemma builds_0: "builds 0 st [] (Some st)"
  by (simp add: builds_def)

definition echo_round :: "u8 \<Rightarrow> block list list" where
  "echo_round c =
     map (\<lambda>q. [Icmp_echo_block ICMP_ECHO c 0 0x0000 q short_payload]) (take 6 icmp_ids) @
     map (\<lambda>x. [Icmp_echo_block ICMP_ECHO c 0 x 0xff00 long_payload]) (icmp_ids @ [0xff00])"

definition tstamp_round :: "u8 \<Rightarrow> block list list" where
  "tstamp_round c =
     map2 (\<lambda>q (m, k). [Icmp_timestamp_block ICMP_TSTAMP c 0 0x0000 q (icmp_stamps ! m) (icmp_stamps ! m) (icmp_stamps ! k)])
       icmp_ids [(1, 1), (2, 2), (3, 3), (4, 4), (0, 0), (1, 1), (2, 3)] @
     map2 (\<lambda>x k. [Icmp_timestamp_block ICMP_TSTAMP c 0 x 0xff00 0xffffffff 0xffffffff (icmp_stamps ! k)])
       (drop 1 icmp_ids @ [0xff00]) [4, 0, 1, 2, 3, 4, 4]"

text \<open>All rounds start with both counters at 0, except the first of the time stamps.\<close>

definition at_round :: "u8 \<Rightarrow> u8 \<Rightarrow> nat \<Rightarrow> grammar \<Rightarrow> bool" where
  "at_round h c j st \<longleftrightarrow> head_type st = h \<and> Icmp_code st = c \<and> gi st = 0 \<and> gj st = j"

lemmas grammar_step = grammar_select_def select_echo_def select_tstamp_def grammar_advance_def
  grammar_icmp_def icmp_ids_def icmp_stamps_def

lemma echo_round_builds:
  assumes "at_round ICMP_ECHO c 0 st" "c \<noteq> 0xff"
  shows "\<exists>st'. builds 14 st (echo_round c) (Some st') \<and> at_round ICMP_ECHO (c + 1) 0 st'"
  using assms by (cases st)
    (simp add: builds_def at_round_def echo_round_def grammar_step Let_def)

lemma tstamp_round_builds:
  assumes "at_round ICMP_TSTAMP c 0 st" "c \<noteq> 0xff"
  shows "\<exists>st'. builds 14 st (tstamp_round c) (Some st') \<and> at_round ICMP_TSTAMP (c + 1) 0 st'"
  using assms by (cases st)
    (simp add: builds_def at_round_def tstamp_round_def grammar_step Let_def)

lemma tstamp_first_round_builds:
  assumes "at_round ICMP_TSTAMP c 1 st" "c \<noteq> 0xff"
  shows "\<exists>st'. builds 13 st (drop 1 (tstamp_round c)) (Some st') \<and> at_round ICMP_TSTAMP (c + 1) 0 st'"
  using assms by (cases st)
    (simp add: builds_def at_round_def tstamp_round_def grammar_step Let_def)

text \<open>The last code of a type is sent once.\<close>

lemma last_code_builds:
  "at_round ICMP_ECHO 0xff 0 st \<Longrightarrow>
     \<exists>st'. builds 1 st [hd (echo_round 0xff)] (Some st') \<and> at_round ICMP_UNREACH 0 1 st' \<and> type_add st'"
  "at_round ICMP_TSTAMP 0xff 0 st \<Longrightarrow>
     \<exists>st'. builds 1 st [hd (tstamp_round 0xff)] (Some st') \<and> at_round ICMP_TIMXCEED 0 1 st' \<and> type_add st'"
  by (cases st; simp add: builds_def at_round_def echo_round_def tstamp_round_def grammar_step Let_def)+

definition unreach_frame :: "u8 \<Rightarrow> block list" where
  "unreach_frame c = [Icmp_unreach_block ICMP_UNREACH c 0 short_payload]"

definition timexceed_frame :: "u8 \<Rightarrow> block list" where
  "timexceed_frame c = [Icmp_timeexceed_block ICMP_TIMXCEED c 0]"

definition redirect_frame :: "u8 \<Rightarrow> block list" where
  "redirect_frame c = [Icmp_redirect_block ICMP_REDIRECT c 0 0]"

text \<open>The types without counters take one iteration per code.\<close>

lemma simple_code_builds:
  assumes "(h, f) \<in> {(ICMP_UNREACH, unreach_frame), (ICMP_TIMXCEED, timexceed_frame), (ICMP_REDIRECT, redirect_frame)}"
    "at_round h c j st" "type_add st" "c \<noteq> 0xff"
  shows "\<exists>st'. builds 1 st [f c] (Some st') \<and> at_round h (c + 1) j st' \<and> type_add st'"
  using assms by (cases st)
    (auto simp: builds_def at_round_def unreach_frame_def timexceed_frame_def redirect_frame_def grammar_step Let_def)

lemma simple_last_builds:
  "at_round ICMP_UNREACH 0xff j st \<Longrightarrow>
     \<exists>st'. builds 1 st [unreach_frame 0xff] (Some st') \<and> at_round ICMP_TSTAMP 0 j st'"
  "at_round ICMP_TIMXCEED 0xff j st \<Longrightarrow>
     \<exists>st'. builds 1 st [timexceed_frame 0xff] (Some st') \<and> at_round ICMP_REDIRECT 0 j st' \<and> type_add st'"
  "at_round ICMP_REDIRECT 0xff j st \<Longrightarrow> builds 1 st [redirect_frame 0xff] None"
  by (cases st; simp add: builds_def at_round_def unreach_frame_def timexceed_frame_def redirect_frame_def
      grammar_step Let_def)+

text \<open>From one code to another, for any number of iterations per code.\<close>

abbreviation codes :: "nat \<Rightarrow> nat \<Rightarrow> u8 list" where
  "codes a b \<equiv> map of_nat [a..<b]"

lemma codes_build:
  assumes step: "\<And>c st. I c st \<Longrightarrow> c \<noteq> 0xff \<Longrightarrow> \<exists>st'. builds r st (f c) (Some st') \<and> I (c + 1) st'"
    and "I (of_nat a) st" "a + n \<le> 255"
  shows "\<exists>st'. builds (n * r) st (concat (map f (codes a (a + n)))) (Some st') \<and> I (of_nat (a + n)) st'"
  using assms(3)
proof (induction n)
  case 0
  then show ?case using assms(2) builds_0 by auto
next
  case (Suc n)
  then obtain st1 where 1: "builds (n * r) st (concat (map f (codes a (a + n)))) (Some st1)"
    "I (of_nat (a + n)) st1" by auto
  have "unat (of_nat (a + n) :: u8) = a + n"
    using Suc.prems by (simp add: unat_of_nat take_bit_nat_eq_self del: of_nat_add)
  moreover have "unat (0xff :: u8) = 255" by simp
  ultimately have "(of_nat (a + n) :: u8) \<noteq> 0xff" using Suc.prems by (metis Suc_n_not_le_n add_Suc_right)
  from step [OF 1(2) this] obtain st2 where 2: "builds r st1 (f (of_nat (a + n))) (Some st2)"
    "I (of_nat (a + n) + 1) st2" by blast
  have "Suc n * r = n * r + r" "of_nat (a + n) + 1 = (of_nat (a + Suc n) :: u8)" by simp_all
  moreover have "concat (map f (codes a (a + Suc n))) = concat (map f (codes a (a + n))) @ f (of_nat (a + n))"
    by simp
  ultimately show ?case using builds_add [OF 1(1) 2(1)] 2(2) by metis
qed

lemma u8_255 [simp]: "(of_nat 255 :: u8) = 0xff"
  by simp

text \<open>The ICMP blocks of the whole test.\<close>

definition grammar_course :: "block list list" where
  "grammar_course =
     concat (map echo_round (codes 0 255)) @ [hd (echo_round 0xff)] @
     map unreach_frame (codes 0 255) @ [unreach_frame 0xff] @
     drop 1 (tstamp_round 0) @ concat (map tstamp_round (codes 1 255)) @ [hd (tstamp_round 0xff)] @
     map timexceed_frame (codes 0 255) @ [timexceed_frame 0xff] @
     map redirect_frame (codes 0 255) @ [redirect_frame 0xff]"

lemma simple_codes_build:
  assumes "(h, f) \<in> {(ICMP_UNREACH, unreach_frame), (ICMP_TIMXCEED, timexceed_frame), (ICMP_REDIRECT, redirect_frame)}"
    "at_round h 0 j st" "type_add st"
  shows "\<exists>st'. builds 255 st (map f (codes 0 255)) (Some st') \<and> at_round h 0xff j st' \<and> type_add st'"
proof -
  have concat1: "concat (map (\<lambda>c. [f c]) cs) = map f cs" for cs by (induction cs) simp_all
  obtain st' where "builds (255 * 1) st (concat (map (\<lambda>c. [f c]) (codes 0 (0 + 255)))) (Some st')"
    "at_round h (of_nat (0 + 255)) j st' \<and> type_add st'"
    using codes_build [of "\<lambda>c st. at_round h c j st \<and> type_add st" 1 "\<lambda>c. [f c]" 0 st 255]
      simple_code_builds [OF assms(1)] assms(2,3) by auto
  then show ?thesis unfolding concat1 by (auto simp del: upt_conv_Cons)
qed

lemma grammar_course_builds:
  "builds 7909 (grammar_start junk) grammar_course None"
proof -
  let ?st = "grammar_start junk"
  have "at_round ICMP_ECHO (of_nat 0) 0 ?st" by (simp add: at_round_def grammar_start_def)
  then obtain s1 where s1: "builds (255 * 14) ?st (concat (map echo_round (codes 0 (0 + 255)))) (Some s1)"
    "at_round ICMP_ECHO (of_nat (0 + 255)) 0 s1"
    using codes_build [of "\<lambda>c. at_round ICMP_ECHO c 0" 14 echo_round 0 ?st 255, OF echo_round_builds] by auto
  from s1(2) obtain s2 where s2: "builds 1 s1 [hd (echo_round 0xff)] (Some s2)"
    "at_round ICMP_UNREACH 0 1 s2" "type_add s2"
    using last_code_builds(1) [of s1] by auto
  obtain s3 where s3: "builds 255 s2 (map unreach_frame (codes 0 255)) (Some s3)" "at_round ICMP_UNREACH 0xff 1 s3"
    using simple_codes_build [OF _ s2(2,3), of unreach_frame] by auto
  obtain s4 where s4: "builds 1 s3 [unreach_frame 0xff] (Some s4)" "at_round ICMP_TSTAMP 0 1 s4"
    using simple_last_builds(1) [OF s3(2)] by auto
  obtain s5 where s5: "builds 13 s4 (drop 1 (tstamp_round 0)) (Some s5)" "at_round ICMP_TSTAMP (of_nat 1) 0 s5"
    using tstamp_first_round_builds [OF s4(2)] by auto
  obtain s6 where s6: "builds (254 * 14) s5 (concat (map tstamp_round (codes 1 (1 + 254)))) (Some s6)"
    "at_round ICMP_TSTAMP (of_nat (1 + 254)) 0 s6"
    using codes_build [of "\<lambda>c. at_round ICMP_TSTAMP c 0" 14 tstamp_round 1 s5 254, OF tstamp_round_builds s5(2)] by auto
  from s6(2) obtain s7 where s7: "builds 1 s6 [hd (tstamp_round 0xff)] (Some s7)"
    "at_round ICMP_TIMXCEED 0 1 s7" "type_add s7"
    using last_code_builds(2) [of s6] by auto
  obtain s8 where s8: "builds 255 s7 (map timexceed_frame (codes 0 255)) (Some s8)" "at_round ICMP_TIMXCEED 0xff 1 s8"
    using simple_codes_build [OF _ s7(2,3), of timexceed_frame] by auto
  obtain s9 where s9: "builds 1 s8 [timexceed_frame 0xff] (Some s9)" "at_round ICMP_REDIRECT 0 1 s9" "type_add s9"
    using simple_last_builds(2) [OF s8(2)] by auto
  obtain s10 where s10: "builds 255 s9 (map redirect_frame (codes 0 255)) (Some s10)" "at_round ICMP_REDIRECT 0xff 1 s10"
    using simple_codes_build [OF _ s9(2,3), of redirect_frame] by auto
  note s11 = simple_last_builds(3) [OF s10(2)]
  have "255 * 14 + (1 + (255 + (1 + (13 + (254 * 14 + (1 + (255 + (1 + (255 + 1))))))))) = (7909 :: nat)" by simp
  moreover have "(0::nat) + 255 = 255" "(1::nat) + 254 = 255" by simp_all
  ultimately show ?thesis
    using builds_add [OF s1(1) builds_add [OF s2(1) builds_add [OF s3(1) builds_add [OF s4(1)
      builds_add [OF s5(1) builds_add [OF s6(1) builds_add [OF s7(1) builds_add [OF s8(1) builds_add [OF s9(1)
      builds_add [OF s10(1) s11]]]]]]]]]]
    unfolding grammar_course_def by metis
qed

definition grammar_frame :: "job \<Rightarrow> u32 \<Rightarrow> u32 \<Rightarrow> block list \<Rightarrow> frame" where
  "grammar_frame a s d icmp = icmp @ [icmp_ip 78 s d, icmp_eth a]"

lemma grammar_blocks_frame: "map snd (grammar_blocks a s d st) = grammar_frame a s d (grammar_icmp st)"
  by (simp add: grammar_blocks_def grammar_frame_def short_payload_def o_def)

lemma grammar_loop_runs:
  assumes "job_paced a"
  shows "grammar_trace n st = (l, None) \<Longrightarrow> no_packet w \<Longrightarrow>
     \<exists>r w'. (\<forall>fuel\<ge>n. grammar_loop fuel E a s d st w = Some r) \<and>
       ((r = Next w' \<and> frames_sent w' = frames_sent w @ map (\<lambda>x. grammar_frame a s d (grammar_icmp x)) l) \<or>
        (build_fails E \<and> (\<exists>p. r = Return 0 w' \<and>
           strict_prefix p (map (\<lambda>x. grammar_frame a s d (grammar_icmp x)) l) \<and> frames_sent w' = frames_sent w @ p)))"
proof (induction n arbitrary: st l w)
  case (Suc n)
  let ?F = "\<lambda>x. grammar_frame a s d (grammar_icmp x)"
  let ?st1 = "grammar_select st"
  let ?body = "\<lambda>w. and_then (build_blocks E (grammar_blocks a s d ?st1) w)
     (write_and_pace_always E (top_speed a) (speed a))"
  have big: "\<exists>k. fuel = Suc k \<and> n \<le> k" if "Suc n \<le> fuel" for fuel
    using that by (cases fuel) auto
  have "gen_emits E ?body [map snd (grammar_blocks a s d ?st1)]"
    by (intro send_blocks_emits destroy_blocks_ok assms)
  then have em: "gen_emits E ?body [?F ?st1]" by (simp add: grammar_blocks_frame)
  from em Suc.prems(2) show ?case
  proof (cases rule: emits_cases)
    case (returns w' p)
    have "\<forall>fuel\<ge>Suc n. grammar_loop fuel E a s d st w = Some (Return 0 w')"
      using big returns(2) by (fastforce simp: Let_def u8_le_max)
    moreover have "l = ?st1 # tl l"
      using Suc.prems(1) by (auto simp: Let_def split: option.splits prod.splits)
    then have "strict_prefix p (map ?F l)"
      using returns(3) by (metis list.simps(9) prefix_def prefix_order.less_le_trans append_Cons append_Nil)
    ultimately show ?thesis using returns(1,4) by blast
  next
    case (falls w1)
    show ?thesis
    proof (cases "grammar_advance ?st1")
      case None
      then have "\<forall>fuel\<ge>Suc n. grammar_loop fuel E a s d st w = Some (Next w1)"
        using big falls(1) by (fastforce simp: Let_def u8_le_max)
      moreover have "l = [?st1]" using Suc.prems(1) None by (simp add: Let_def)
      ultimately show ?thesis using falls(3) by auto
    next
      case (Some st2)
      then obtain l' where l': "grammar_trace n st2 = (l', None)" "l = ?st1 # l'"
        using Suc.prems(1) by (auto simp: Let_def split: prod.splits)
      from Suc.IH [OF l'(1) falls(2)] obtain r w' where IH:
        "\<forall>fuel\<ge>n. grammar_loop fuel E a s d st2 w1 = Some r"
        "(r = Next w' \<and> frames_sent w' = frames_sent w1 @ map ?F l') \<or>
         (build_fails E \<and> (\<exists>p. r = Return 0 w' \<and> strict_prefix p (map ?F l') \<and> frames_sent w' = frames_sent w1 @ p))"
        by blast
      have "\<forall>fuel\<ge>Suc n. grammar_loop fuel E a s d st w = Some r"
        using big falls(1) Some IH(1) by (fastforce simp: Let_def u8_le_max)
      moreover have "strict_prefix (?F ?st1 # p) (map ?F l)" if "strict_prefix p (map ?F l')" for p
        using that l'(2) by simp
      ultimately show ?thesis using IH(2) falls(3) l'(2) by fastforce
    qed
  qed
qed simp

section \<open>Length fields and coverage, as specifications\<close>

text \<open>The size of an ICMP message on the wire, and whether the total length in the IP header of a
  frame is the size of the header and the message behind it.\<close>

fun icmp_size :: "block \<Rightarrow> nat option" where
  "icmp_size (Icmp_echo_block ty co sm ident sq p) = Some (8 + length p)"
| "icmp_size (Icmp_unreach_block ty co sm p) = Some (8 + length p)"
| "icmp_size (Icmp_timestamp_block ty co sm ident sq o1 o2 o3) = Some 20"
| "icmp_size (Icmp_timeexceed_block ty co sm) = Some 8"
| "icmp_size (Icmp_redirect_block ty co sm gw) = Some 8"
| "icmp_size b = None"

fun ip_length_ok :: "frame \<Rightarrow> bool" where
  "ip_length_ok (icmp # Ipv4_block len tos ident off ttl pro sm s d p # rest) \<longleftrightarrow>
     (case icmp_size icmp of None \<Rightarrow> False | Some n \<Rightarrow> unat len = 20 + n + length p)"
| "ip_length_ok f \<longleftrightarrow> False"

fun icmp_type_code :: "block \<Rightarrow> (u8 \<times> u8) option" where
  "icmp_type_code (Icmp_echo_block ty co sm ident sq p) = Some (ty, co)"
| "icmp_type_code (Icmp_unreach_block ty co sm p) = Some (ty, co)"
| "icmp_type_code (Icmp_timestamp_block ty co sm ident sq o1 o2 o3) = Some (ty, co)"
| "icmp_type_code (Icmp_timeexceed_block ty co sm) = Some (ty, co)"
| "icmp_type_code (Icmp_redirect_block ty co sm gw) = Some (ty, co)"
| "icmp_type_code b = None"

lemma u8_codes: "c = 0xff \<or> c \<in> set (codes 0 255)"
proof -
  have "unat c < 2 ^ LENGTH(8)" by (rule unsigned_less)
  then have "unat c < 256" by simp
  then consider "unat c = 255" | "unat c < 255" by linarith
  then show ?thesis
  proof cases
    case 1
    moreover have "c = of_nat (unat c)" by simp
    ultimately have "c = of_nat 255" by metis
    then show ?thesis by simp
  next
    case 2
    then have "c = of_nat (unat c)" "unat c \<in> set [0..<255]" by simp_all
    then show ?thesis by (metis image_eqI list.set_map)
  qed
qed

lemma u8_codes1: "c = 0xff \<or> c = 0 \<or> c \<in> set (codes 1 255)"
proof -
  have "codes 0 255 = 0 # codes 1 255" by (simp add: upt_conv_Cons del: upt_Suc)
  then show ?thesis using u8_codes [of c] by auto
qed

lemma length_grammar_course: "length grammar_course = 7909"
proof -
  have r: "length (echo_round c) = 14" "length (tstamp_round c) = 14" for c
    by (simp_all add: echo_round_def tstamp_round_def icmp_ids_def)
  show ?thesis by (simp add: grammar_course_def length_concat o_def r sum_list_triv del: upt_Suc)
qed

section \<open>Properties\<close>

text \<open>C3: \<open>Icmp_Grammar\<close> ends. Its loop, whose condition always holds, is left by the \<open>break\<close> after
  exactly 7909 iterations, with the frames of \<open>grammar_course\<close> sent in order, whatever the
  uninitialised locals contain; if libnet refuses a block it returns 0 after a strict prefix of
  them.\<close>

theorem Icmp_Grammar_course:
  assumes "e_init E (device a) (Suc (Suc (tick w)))" "job_paced a"
    "d = Get_long_address g (Some (ip_dst a))" "s = Get_long_address g (Some (ip_src a))"
  shows "length grammar_course = 7909 \<and>
     (\<exists>r w'. (\<forall>fuel\<ge>7909. Icmp_Grammar g junk fuel E a w = Some r) \<and>
       ((r = Next w' \<and> frames_sent w' = frames_sent w @ map (grammar_frame a s d) grammar_course) \<or>
        (build_fails E \<and> (\<exists>p. r = Return 0 w' \<and> strict_prefix p (map (grammar_frame a s d) grammar_course) \<and>
           frames_sent w' = frames_sent w @ p))))"
proof (intro conjI length_grammar_course)
  let ?w1 = "init_pacing E (RUNING_MISSION_W (e_self E) RUNNING (e_clock E (tick w)) ICMP_GRAMMAR_T
     (w\<lparr>tick := Suc (tick w)\<rparr>))"
  let ?w2 = "snd (libnet_init E (device a) ?w1)"
  obtain l where l: "grammar_trace 7909 (grammar_start junk) = (l, None)" "map grammar_icmp l = grammar_course"
    using grammar_course_builds [of junk] by (cases "grammar_trace 7909 (grammar_start junk)") (auto simp: builds_def)
  have m: "map (\<lambda>x. grammar_frame a s d (grammar_icmp x)) l = map (grammar_frame a s d) grammar_course"
    using l(2) by (metis comp_apply list.map_comp list.map_cong0)
  have "frames_sent ?w2 = frames_sent w" by (simp add: frames_sent_def)
  moreover have "Icmp_Grammar g junk fuel E a w = grammar_loop fuel E a s d (grammar_start junk) ?w2" for fuel
    using assms by (simp add: Icmp_Grammar_def ext_def case_prod_unfold Let_def)
  moreover have "no_packet ?w2" by simp
  note grammar_loop_runs [OF assms(2) l(1) this, of E s d, unfolded m]
  ultimately show "\<exists>r w'. (\<forall>fuel\<ge>7909. Icmp_Grammar g junk fuel E a w = Some r) \<and>
       ((r = Next w' \<and> frames_sent w' = frames_sent w @ map (grammar_frame a s d) grammar_course) \<or>
        (build_fails E \<and> (\<exists>p. r = Return 0 w' \<and> strict_prefix p (map (grammar_frame a s d) grammar_course) \<and>
           frames_sent w' = frames_sent w @ p)))"
    by simp
qed

text \<open>The grammar test covers what it is to cover: each of the five ICMP types goes out with each
  of the 256 codes, and nothing else does.\<close>

theorem Icmp_Grammar_covers_codes:
  "(\<exists>b. [b] \<in> set grammar_course \<and> icmp_type_code b = Some (ty, co)) \<longleftrightarrow> ty \<in> {8, 3, 13, 11, 5}"
proof
  assume "\<exists>b. [b] \<in> set grammar_course \<and> icmp_type_code b = Some (ty, co)"
  then show "ty \<in> {8, 3, 13, 11, 5}"
    by (auto simp: grammar_course_def echo_round_def tstamp_round_def unreach_frame_def timexceed_frame_def
        redirect_frame_def icmp_ids_def simp del: upt_conv_Cons)
next
  assume "ty \<in> {8, 3, 13, 11, 5}"
  then consider "ty = 8" | "ty = 3" | "ty = 13" | "ty = 11" | "ty = 5" by auto
  then show "\<exists>b. [b] \<in> set grammar_course \<and> icmp_type_code b = Some (ty, co)"
  proof cases
    case 1
    have "[Icmp_echo_block 8 co 0 0 0 short_payload] \<in> set grammar_course"
      using u8_codes [of co] by (auto simp: grammar_course_def echo_round_def icmp_ids_def simp del: upt_conv_Cons)
    with 1 show ?thesis by (metis icmp_type_code.simps(1))
  next
    case 2
    have "[Icmp_unreach_block 3 co 0 short_payload] \<in> set grammar_course"
      using u8_codes [of co] by (auto simp: grammar_course_def unreach_frame_def simp del: upt_conv_Cons)
    with 2 show ?thesis by (metis icmp_type_code.simps(2))
  next
    case 3
    have hd: "hd (tstamp_round c) = [Icmp_timestamp_block 13 c 0 0 0 0x11111111 0x11111111 0x11111111]" for c
      by (simp add: tstamp_round_def icmp_ids_def icmp_stamps_def)
    have snd: "[Icmp_timestamp_block 13 c 0 0 0xffff 0xffffffff 0xffffffff 0xffffffff] \<in> set (drop 1 (tstamp_round c))" for c
      by (simp add: tstamp_round_def icmp_ids_def icmp_stamps_def)
    have "hd (tstamp_round co) \<in> set grammar_course \<or> [Icmp_timestamp_block 13 co 0 0 0xffff 0xffffffff 0xffffffff 0xffffffff] \<in> set grammar_course"
      using u8_codes1 [of co] snd [of co]
      by (auto simp: grammar_course_def simp del: upt_conv_Cons dest: in_set_dropD)
    with 3 show ?thesis unfolding hd by (metis icmp_type_code.simps(3))
  next
    case 4
    have "[Icmp_timeexceed_block 11 co 0] \<in> set grammar_course"
      using u8_codes [of co] by (auto simp: grammar_course_def timexceed_frame_def simp del: upt_conv_Cons)
    with 4 show ?thesis by (metis icmp_type_code.simps(4))
  next
    case 5
    have "[Icmp_redirect_block 5 co 0 0] \<in> set grammar_course"
      using u8_codes [of co] by (auto simp: grammar_course_def redirect_frame_def simp del: upt_conv_Cons)
    with 5 show ?thesis by (metis icmp_type_code.simps(5))
  qed
qed

text \<open>The echo part does not cross identifiers with sequence numbers: as the inner counter is not
  reset when the outer one moves on, a pair of the two tables goes out exactly if the identifier is
  the first or the sequence number the last, 13 of the 49 pairs.\<close>

theorem Icmp_Grammar_misses_pairs:
  "(\<exists>co p. [Icmp_echo_block 8 co 0 ident sq p] \<in> set grammar_course) \<longleftrightarrow>
   (ident = icmp_ids ! 0 \<and> sq \<in> set icmp_ids) \<or> (ident \<in> set icmp_ids \<and> sq = icmp_ids ! 6)"
proof
  assume "\<exists>co p. [Icmp_echo_block 8 co 0 ident sq p] \<in> set grammar_course"
  then show "(ident = icmp_ids ! 0 \<and> sq \<in> set icmp_ids) \<or> (ident \<in> set icmp_ids \<and> sq = icmp_ids ! 6)"
    by (auto simp: grammar_course_def echo_round_def tstamp_round_def unreach_frame_def timexceed_frame_def
        redirect_frame_def icmp_ids_def simp del: upt_conv_Cons)
next
  assume "(ident = icmp_ids ! 0 \<and> sq \<in> set icmp_ids) \<or> (ident \<in> set icmp_ids \<and> sq = icmp_ids ! 6)"
  then have "\<exists>p. [Icmp_echo_block 8 0 0 ident sq p] \<in> set (echo_round 0)"
    by (auto simp: echo_round_def icmp_ids_def)
  moreover have "(0 :: u8) \<in> set (codes 0 255)" using u8_codes [of 0] by simp
  then have "set (echo_round 0) \<subseteq> set (concat (map echo_round (codes 0 255)))"
    by (simp only: set_concat list.set_map) blast
  then have "set (echo_round 0) \<subseteq> set grammar_course"
    unfolding grammar_course_def by (simp only: set_append) blast
  ultimately show "\<exists>co p. [Icmp_echo_block 8 co 0 ident sq p] \<in> set grammar_course" by blast
qed

lemma type_of_index:
  assumes "k < 65536"
  shows "unat (ucast (drop_bit 8 (of_nat k :: u16)) :: u8) = k div 256"
    and "unat (ucast (of_nat k :: u16) :: u8) = k mod 256"
proof -
  have k: "unat (of_nat k :: u16) = k" using assms by (simp add: unat_of_nat take_bit_nat_eq_self)
  have "unat (drop_bit 8 (of_nat k :: u16)) = k div 256"
    by (simp add: drop_bit_eq_div unat_div k)
  then show "unat (ucast (drop_bit 8 (of_nat k :: u16)) :: u8) = k div 256"
    using assms by (simp add: unsigned_ucast_eq take_bit_eq_mod)
  show "unat (ucast (of_nat k :: u16) :: u8) = k mod 256"
    by (simp add: unsigned_ucast_eq k take_bit_eq_mod)
qed

lemma type_code_once: "\<exists>!k. k < 65536 \<and> icmp_type_code (hd (type_code_frame a s d (of_nat k))) = Some (ty, co)"
proof -
  have tc: "icmp_type_code (hd (type_code_frame a s d tc)) = Some (ucast (drop_bit 8 tc), ucast tc)" for tc
    by (simp add: type_code_frame_def type_code_blocks_def)
  have bound: "unat ty < 2 ^ LENGTH(8)" "unat co < 2 ^ LENGTH(8)" by (rule unsigned_less)+
  have iff: "icmp_type_code (hd (type_code_frame a s d (of_nat k))) = Some (ty, co) \<longleftrightarrow>
      k div 256 = unat ty \<and> k mod 256 = unat co" if "k < 65536" for k
    using type_of_index [OF that] by (auto simp: tc word_unat_eq_iff)
  show ?thesis
  proof (rule ex1I [of _ "256 * unat ty + unat co"])
    show "256 * unat ty + unat co < 65536 \<and>
        icmp_type_code (hd (type_code_frame a s d (of_nat (256 * unat ty + unat co)))) = Some (ty, co)"
      using bound by (subst iff) auto
  next
    fix k
    assume "k < 65536 \<and> icmp_type_code (hd (type_code_frame a s d (of_nat k))) = Some (ty, co)"
    then have "k div 256 = unat ty" "k mod 256 = unat co" using iff by auto
    then show "k = 256 * unat ty + unat co" by (metis mult_div_mod_eq)
  qed
qed

text \<open>C33: The cross product goes out completely and then never stops: as long as libnet accepts the
  blocks, \<open>n\<close> iterations send the \<open>n\<close> next pairs of a type and a code and do not leave the loop,
  for every \<open>n\<close>; the first 65536 have each of the 65536 pairs exactly once, and in none of them does
  the IP header give the true length.\<close>

theorem Icmp_Type_Code_cross_product:
  assumes "e_init E (device a) (Suc (Suc (tick w)))" "job_paced a" "\<forall>n. e_build E n \<noteq> -1"
    "d = Get_long_address g (Some (ip_dst a))" "s = Get_long_address g (Some (ip_src a))"
  shows "(\<exists>w'. Icmp_Type_Code_Cross_Product g n E a w = Next w' \<and>
       frames_sent w' = frames_sent w @ map (\<lambda>k. type_code_frame a s d (of_nat k)) [0..<n]) \<and>
     (\<forall>ty co. \<exists>!k. k < 65536 \<and> icmp_type_code (hd (type_code_frame a s d (of_nat k))) = Some (ty, co)) \<and>
     (\<forall>tc. \<not> ip_length_ok (type_code_frame a s d tc))"
proof (intro conjI allI type_code_once)
  let ?w1 = "init_pacing E (RUNING_MISSION_W (e_self E) RUNNING (e_clock E (tick w)) ICMP_TYPE_CODE_T
     (w\<lparr>tick := Suc (tick w)\<rparr>))"
  let ?w2 = "snd (libnet_init E (device a) ?w1)"
  have "no_packet ?w2" by simp
  with emits_complete [OF type_code_loop_emits [OF assms(2), of E n s d 0], of ?w2] obtain w' where
    w': "type_code_loop n E a s d 0 ?w2 = Next w'"
    "frames_sent w' = frames_sent ?w2 @ map (\<lambda>k. type_code_frame a s d (0 + of_nat k)) [0..<n]"
    using assms(3) by metis
  have "frames_sent ?w2 = frames_sent w" by (simp add: frames_sent_def)
  with w' show "\<exists>w'. Icmp_Type_Code_Cross_Product g n E a w = Next w' \<and>
       frames_sent w' = frames_sent w @ map (\<lambda>k. type_code_frame a s d (of_nat k)) [0..<n]"
    using assms(1,4,5)
    by (simp add: Icmp_Type_Code_Cross_Product_def ext_def case_prod_unfold Let_def)
  show "\<not> ip_length_ok (type_code_frame a s d tc)" for tc
    by (simp add: type_code_frame_def type_code_blocks_def icmp_ip_def)
qed

text \<open>\<open>Icmp_Fuzzer\<close> never returns as long as libnet accepts its blocks, and it does not send the
  random payload it makes: whatever its size, eight bytes go out, in frames of consecutive types
  and codes.\<close>

theorem Icmp_Fuzzer_sends_eight_bytes:
  assumes "e_init E (device a) (Suc (Suc (Suc (tick w))))" "job_paced a" "\<forall>n. e_build E n \<noteq> -1" "8 \<le> length heap"
    "d = Get_long_address g (Some (ip_dst a))" "s = Get_long_address g (Some (ip_src a))"
  shows "\<exists>w' ident ps. Icmp_Fuzzer g n E heap a w = Next w' \<and> length ps \<le> n \<and> (\<forall>p\<in>set ps. length p = 8) \<and>
     frames_sent w' = frames_sent w @
       map2 (\<lambda>k p. map snd (icmp_fuzz_blocks a s d ident 1 (of_nat k) p)) [0..<length ps] ps"
proof -
  let ?w1 = "init_pacing E (RUNING_MISSION_W (e_self E) RUNNING (e_clock E (tick w)) ICMP_STORM_STORM_T
     (w\<lparr>tick := Suc (tick w)\<rparr>))"
  let ?R = "e_prand E (tick ?w1)"
  let ?w3 = "snd (libnet_init E (device a) (?w1\<lparr>tick := Suc (tick ?w1)\<rparr>))"
  have "frames_sent ?w3 = frames_sent w" by (simp add: frames_sent_def)
  moreover have "no_packet ?w3" by simp
  note icmp_fuzzer_loop_frames [OF assms(2,4) _ this, of E n s d "ucast ?R" 0]
  ultimately obtain w' ps where "icmp_fuzzer_loop n E heap a s d (ucast ?R) 0 ?w3 = Next w'" "length ps \<le> n"
    "\<forall>p\<in>set ps. length p = 8" "frames_sent w' = frames_sent w @
       map2 (\<lambda>k p. map snd (icmp_fuzz_blocks a s d (ucast ?R) 1 (0 + of_nat k) p)) [0..<length ps] ps"
    using assms(3) by metis
  then show ?thesis
    using assms(1,5,6) by (intro exI [of _ w'] exI [of _ "ucast ?R"] exI [of _ ps])
      (simp add: Icmp_Fuzzer_def ext_def case_prod_unfold Let_def)
qed

text \<open>\<open>Icmp_storm\<close> ends the whole server when libnet refuses the context; otherwise, as long as
  libnet accepts the blocks, it returns 1 and has sent copies of one echo request whose IP header
  claims 28 bytes while 48 are sent.\<close>

theorem Icmp_storm_outcome:
  assumes "clock_advances E" "job_paced a" "\<forall>n. e_build E n \<noteq> -1"
  shows "if e_init E (device a) (Suc (tick w))
     then \<exists>w' rs f. settles (\<lambda>fuel. Icmp_storm g fuel E a w) (Return 1 w') \<and>
       sent w' = sent w @ map (Pair f) rs \<and> \<not> ip_length_ok f \<and>
       hd f = Icmp_echo_block 8 0 0 0x42 0x42 (map of_nat [97..<117])
     else \<forall>fuel. \<exists>w'. Icmp_storm g fuel E a w = Some (Exit 1 w')"
proof (cases "e_init E (device a) (Suc (tick w))")
  case True
  let ?w1 = "RUNING_MISSION_W (e_self E) RUNNING (e_clock E (tick w)) ICMP_STORM_STORM_T (w\<lparr>tick := Suc (tick w)\<rparr>)"
  let ?w2 = "snd (libnet_init E (device a) ?w1)"
  let ?echo = "Icmp_echo_block 8 0 0 0x42 0x42 (map of_nat [97..<117])"
  let ?ip = "icmp_ip 28 (Get_long_address g (Some (ip_src a))) (Get_long_address g (Some (ip_dst a)))"
  let ?w5 = "snd (libnet_build E (icmp_eth a) (snd (libnet_build E ?ip (snd (libnet_build E ?echo ?w2)))))"
  obtain w1 rs where r: "settles (\<lambda>n. finish_storm (\<lambda>w. w) (run_storm n E (speed a) (test_time a) (storm_time a)
      (top_speed a) ?w5)) (Return 1 w1)" "sent w1 = sent ?w5 @ map (Pair (pkt ?w5)) rs"
    using settles_finish [OF assms(1,2)] by blast
  have "settles (\<lambda>fuel. Icmp_storm g fuel E a w) (Return 1 w1)"
    using r(1) True by (simp add: Icmp_storm_def ext_def case_prod_unfold Let_def del: upt_conv_Cons)
  moreover have "sent w1 = sent w @ map (Pair [?echo, ?ip, icmp_eth a]) rs"
    using r(2) assms(3) by (simp del: upt_conv_Cons)
  moreover have "\<not> ip_length_ok [?echo, ?ip, icmp_eth a]" by (simp add: icmp_ip_def del: upt_conv_Cons)
  ultimately show ?thesis using True
    by (simp del: upt_conv_Cons) (metis list.sel(1))
next
  case False
  then show ?thesis by (simp add: Icmp_storm_def ext_def case_prod_unfold Let_def)
qed

section \<open>Concrete runs\<close>

definition lab_locals :: grammar where
  "lab_locals = \<lparr>head_type = 0, Icmp_code = 0, gi = 0, gj = 0, type_add = False, Icmp_id = 0, Icmp_seq = 0,
     payload_use = [], gm = 0, gn = 0, gk = 0\<rparr>"

theorem Icmp_Grammar_course_witness:
  "length grammar_course = 7909 \<and>
     (\<exists>r w'. (\<forall>fuel\<ge>7909. Icmp_Grammar 0 lab_locals fuel good_env lab_job net_init = Some r) \<and>
       ((r = Next w' \<and> frames_sent w' = frames_sent net_init @ map (grammar_frame lab_job
           (Get_long_address 0 (Some (ip_src lab_job))) (Get_long_address 0 (Some (ip_dst lab_job)))) grammar_course) \<or>
        (build_fails good_env \<and> (\<exists>p. r = Return 0 w' \<and> strict_prefix p (map (grammar_frame lab_job
           (Get_long_address 0 (Some (ip_src lab_job))) (Get_long_address 0 (Some (ip_dst lab_job)))) grammar_course) \<and>
           frames_sent w' = frames_sent net_init @ p))))"
  by (rule Icmp_Grammar_course) (simp_all add: paced_ok_def lab_job_def)

theorem Icmp_Type_Code_cross_product_witness:
  "(\<exists>w'. Icmp_Type_Code_Cross_Product 0 70000 good_env lab_job net_init = Next w' \<and>
       frames_sent w' = frames_sent net_init @ map (\<lambda>k. type_code_frame lab_job
         (Get_long_address 0 (Some (ip_src lab_job))) (Get_long_address 0 (Some (ip_dst lab_job))) (of_nat k)) [0..<70000]) \<and>
     (\<forall>ty co. \<exists>!k. k < 65536 \<and> icmp_type_code (hd (type_code_frame lab_job
         (Get_long_address 0 (Some (ip_src lab_job))) (Get_long_address 0 (Some (ip_dst lab_job))) (of_nat k))) = Some (ty, co)) \<and>
     (\<forall>tc. \<not> ip_length_ok (type_code_frame lab_job
         (Get_long_address 0 (Some (ip_src lab_job))) (Get_long_address 0 (Some (ip_dst lab_job))) tc))"
  by (rule Icmp_Type_Code_cross_product) (simp_all add: paced_ok_def lab_job_def)

theorem Icmp_Fuzzer_sends_eight_bytes_witness:
  "\<exists>w' ident ps. Icmp_Fuzzer 0 1000 good_env (replicate 8 0) lab_job net_init = Next w' \<and> length ps \<le> 1000 \<and>
     (\<forall>p\<in>set ps. length p = 8) \<and> frames_sent w' = frames_sent net_init @
       map2 (\<lambda>k p. map snd (icmp_fuzz_blocks lab_job (Get_long_address 0 (Some (ip_src lab_job)))
         (Get_long_address 0 (Some (ip_dst lab_job))) ident 1 (of_nat k) p)) [0..<length ps] ps"
  by (rule Icmp_Fuzzer_sends_eight_bytes) (simp_all add: paced_ok_def lab_job_def)

theorem Icmp_storm_outcome_witness:
  "if e_init good_env (device lab_job) (Suc (tick net_init))
     then \<exists>w' rs f. settles (\<lambda>fuel. Icmp_storm 0 fuel good_env lab_job net_init) (Return 1 w') \<and>
       sent w' = sent net_init @ map (Pair f) rs \<and> \<not> ip_length_ok f \<and>
       hd f = Icmp_echo_block 8 0 0 0x42 0x42 (map of_nat [97..<117])
     else \<forall>fuel. \<exists>w'. Icmp_storm 0 fuel good_env lab_job net_init = Some (Exit 1 w')"
  by (rule Icmp_storm_outcome) (simp_all add: good_env_advances paced_ok_def lab_job_def)

end
