(* ===== verification/Icmp_Fragments.thy ===== *)
theory Icmp_Fragments
  imports Icmp_Frames
begin

text \<open>
  \<open>frag_and_send\<close> and \<open>frag_ping\<close> of network/icmp.c, the ping that splits its payload into IP fragments by hand.
  The checksum, which \<open>get_sum\<close> has libnet compute, and the address the user types are parameters.
  Sizes are below \<open>2^31\<close>, so the code's mix of \<open>int\<close> and \<open>u_int32_t\<close> is exact.
\<close>

abbreviation (input) "IP_MF \<equiv> (0x2000 :: nat)"
abbreviation (input) "max_pload_size \<equiv> (1480 :: nat)"

text \<open>A build call with a protocol tag: 0 appends a block, the tag of the one block there replaces
  it.\<close>

definition libnet_build_tag :: "env \<Rightarrow> int \<Rightarrow> block \<Rightarrow> net \<Rightarrow> int \<times> net" where
  "libnet_build_tag E tag b w =
     (let (t, w1) = ext (e_build E) w
      in (t, if t = -1 then w1 else w1\<lparr>pkt := (if tag = 0 then pkt w1 @ [b] else [b])\<rparr>))"

text \<open>The header offset and the size of the next fragment.\<close>

definition first_fragment :: "nat \<Rightarrow> nat \<times> nat" where
  "first_fragment len =
     (if len > max_pload_size - ICMPV4_ECHO_H then (IP_MF, max_pload_size - ICMPV4_ECHO_H) else (0, len))"

definition next_fragment :: "nat \<Rightarrow> nat \<Rightarrow> nat \<times> nat" where
  "next_fragment len off =
     (if len - off > max_pload_size then (IP_MF + (off + ICMPV4_ECHO_H) div 8, max_pload_size)
      else ((off + ICMPV4_ECHO_H) div 8, len - off))"

definition fragment_block :: "u8 list \<Rightarrow> u32 \<Rightarrow> u32 \<Rightarrow> u16 \<Rightarrow> nat \<Rightarrow> block" where
  "fragment_block payload src dst ip_id off =
     (let (hdr_offset, n) = next_fragment (length payload) off
      in Ipv4_block (of_nat (IPV4_H + max_pload_size)) 0 ip_id (of_nat hdr_offset) 255 IPPROTO_ICMP 0 src dst
           (take n (drop off payload)))"

function frag_loop :: "env \<Rightarrow> u8 list \<Rightarrow> u32 \<Rightarrow> u32 \<Rightarrow> u16 \<Rightarrow> int \<Rightarrow> nat \<Rightarrow> net \<Rightarrow> (unit, net) flow" where
  "frag_loop E payload src dst ip_id ip_tag off w =
     (if length payload > off then
        (let b = fragment_block payload src dst ip_id off;
             (t, w1) = libnet_build_tag E ip_tag b w
         in if t = -1 then Exit 1 (libnet_destroy w1)
            else frag_loop E payload src dst ip_id t (off + snd (next_fragment (length payload) off))
                   (snd (libnet_write E w1)))
      else Next w)"
  by pat_completeness auto
termination
  by (relation "measure (\<lambda>(E, p, src, dst, i, t, off, w). length p - off)") (auto simp: next_fragment_def)

declare frag_loop.simps [simp del]

definition frag_and_send :: "env \<Rightarrow> u16 \<Rightarrow> u32 \<Rightarrow> u8 list \<Rightarrow> net \<Rightarrow> (unit, net) flow" where
  "frag_and_send E cksum ip_addr payload w =
     (let (R, w1) = ext (e_prand E) w;
          (R', w2) = ext (e_prand E) w1;
          ip_id = ucast R';
          (src_addr, w3) = ext (e_ipaddr4 E) w2
      in if src_addr = -1 then Exit 1 (libnet_destroy w3)
         else if ip_addr = -1 then Exit 1 (libnet_destroy w3)
         else
           (let (hdr_offset, n) = first_fragment (length payload);
                (t, w4) = libnet_build E (Icmp_echo_block ICMP_ECHO 0 cksum (ucast R) 1 (take n payload)) w3
            in if t = -1 then Exit 1 (libnet_destroy w4)
               else
                 (let (t', w5) = libnet_build E (Ipv4_block (of_nat (IPV4_H + ICMPV4_ECHO_H + n)) 0 ip_id
                                   (of_nat hdr_offset) 255 IPPROTO_ICMP 0 src_addr ip_addr []) w4
                  in if t' = -1 then Exit 1 (libnet_destroy w5)
                     else frag_loop E payload src_addr ip_addr ip_id 0 n
                            (libnet_clear_packet (snd (libnet_write E w5))))))"

text \<open>\<open>frag_ping\<close> sends 3000 random bytes; it opens the default device, here without a name.\<close>

definition prand_bytes :: "env \<Rightarrow> nat \<Rightarrow> nat \<Rightarrow> u8 list" where
  "prand_bytes E t n = map (\<lambda>i. ucast (e_prand E (t + i))) [0..<n]"

definition frag_ping :: "env \<Rightarrow> u16 \<Rightarrow> u32 \<Rightarrow> net \<Rightarrow> (int, net) flow" where
  "frag_ping E cksum ip_addr w =
     (let (ok, w1) = libnet_init E [] w
      in if \<not> ok then Exit 1 w1
         else
           (let payload = prand_bytes E (tick w1) 3000
            in case frag_and_send E cksum ip_addr payload (w1\<lparr>tick := tick w1 + 3000\<rparr>) of
                 Next w2 \<Rightarrow> Return 0 (libnet_destroy w2)
               | Return _ w2 \<Rightarrow> Return 0 (libnet_destroy w2)
               | Exit c w2 \<Rightarrow> Exit c w2
               | Trap w2 \<Rightarrow> Trap w2))"

section \<open>Reassembly\<close>

text \<open>What a receiver does with the fragments behind the first: they are adjacent, all but the last
  say that more follow, and their data is the rest of the payload. The message starts with the
  eight bytes of the ICMP header, which the offsets count.\<close>

fun reassembles :: "u8 list \<Rightarrow> nat \<Rightarrow> frame list \<Rightarrow> bool" where
  "reassembles payload off [] \<longleftrightarrow> off = length payload"
| "reassembles payload off ([Ipv4_block len tos ident fr ttl pro sm s d p] # fs) \<longleftrightarrow>
     8 * (unat fr mod 0x2000) = off + 8 \<and> (0x2000 \<le> fr \<longleftrightarrow> fs \<noteq> []) \<and>
     p = take (length p) (drop off payload) \<and> 0 < length p \<and> length p \<le> 1480 \<and>
     reassembles payload (off + length p) fs"
| "reassembles payload off (f # fs) \<longleftrightarrow> False"

fun fragments :: "nat \<Rightarrow> u8 list \<Rightarrow> u32 \<Rightarrow> u32 \<Rightarrow> u16 \<Rightarrow> nat \<Rightarrow> frame list" where
  "fragments 0 payload src dst ip_id off = []"
| "fragments (Suc k) payload src dst ip_id off =
     (if length payload > off then
        [fragment_block payload src dst ip_id off] #
          fragments k payload src dst ip_id (off + snd (next_fragment (length payload) off))
      else [])"

lemma frag_loop_sends:
  assumes "\<not> build_fails E"
  shows "length payload - off \<le> k \<Longrightarrow> no_packet w \<or> ip_tag \<noteq> 0 \<Longrightarrow> (\<forall>n. e_build E n \<noteq> 0) \<Longrightarrow>
    \<exists>w'. frag_loop E payload src dst ip_id ip_tag off w = Next w' \<and>
       frames_sent w' = frames_sent w @ fragments k payload src dst ip_id off"
proof (induction k arbitrary: off ip_tag w)
  case 0
  then show ?case by (simp add: frag_loop.simps)
next
  case (Suc k)
  show ?case
  proof (cases "length payload > off")
    case False
    then show ?thesis by (simp add: frag_loop.simps)
  next
    case True
    let ?n = "snd (next_fragment (length payload) off)"
    let ?b = "fragment_block payload src dst ip_id off"
    let ?t = "e_build E (tick w)"
    let ?w1 = "snd (libnet_build_tag E ip_tag ?b w)"
    let ?w2 = "snd (libnet_write E ?w1)"
    have pos: "0 < ?n" using True by (simp add: next_fragment_def)
    have w1: "fst (libnet_build_tag E ip_tag ?b w) = ?t" "pkt ?w1 = [?b]" "frames_sent ?w1 = frames_sent w"
      using assms Suc.prems(2) by (auto simp: libnet_build_tag_def ext_def Let_def frames_sent_def)
    have t: "?t \<noteq> -1" "?t \<noteq> 0" using assms Suc.prems(3) by auto
    have "frag_loop E payload src dst ip_id ip_tag off w =
        frag_loop E payload src dst ip_id ?t (off + ?n) ?w2"
      using True t(1) w1(1) by (subst frag_loop.simps) (simp add: case_prod_unfold Let_def)
    moreover have le: "length payload - (off + ?n) \<le> k" using Suc.prems(1) True pos by linarith
    obtain w' where "frag_loop E payload src dst ip_id ?t (off + ?n) ?w2 = Next w'"
      "frames_sent w' = frames_sent ?w2 @ fragments k payload src dst ip_id (off + ?n)"
      using Suc.IH [OF le _ Suc.prems(3), of ?w2 ?t] t(2) by blast
    ultimately show ?thesis using True w1 by simp
  qed
qed

lemma fragment_offset:
  assumes "x < 8192"
  shows "unat (of_nat x :: u16) mod 8192 = x" "\<not> (0x2000 :: u16) \<le> of_nat x"
    "unat (of_nat (0x2000 + x) :: u16) mod 8192 = x" "(0x2000 :: u16) \<le> of_nat (0x2000 + x)"
proof -
  have "unat (of_nat x :: u16) = x" "unat (of_nat (0x2000 + x) :: u16) = 0x2000 + x"
    using assms by (simp_all add: unat_of_nat take_bit_nat_eq_self del: of_nat_add)
  with assms show "unat (of_nat x :: u16) mod 8192 = x" "\<not> (0x2000 :: u16) \<le> of_nat x"
    "unat (of_nat (0x2000 + x) :: u16) mod 8192 = x" "(0x2000 :: u16) \<le> of_nat (0x2000 + x)"
    by (simp_all add: word_le_nat_alt del: of_nat_add)
qed

lemma fragments_reassemble:
  assumes "length payload \<le> 65507"
  shows "length payload - off \<le> k \<Longrightarrow> off \<le> length payload \<Longrightarrow> off mod 8 = 0 \<Longrightarrow>
    reassembles payload off (fragments k payload src dst ip_id off)"
proof (induction k arbitrary: off)
  case 0
  then show ?case by simp
next
  case (Suc k)
  show ?case
  proof (cases "length payload > off")
    case False
    then show ?thesis using Suc.prems(2) by simp
  next
    case True
    let ?x = "(off + 8) div 8"
    have x: "?x < 8192" "8 * ?x = off + 8" using True assms Suc.prems(3) by auto
    show ?thesis
    proof (cases "length payload - off > 1480")
      case more: True
      have "fragments k payload src dst ip_id (off + 1480) \<noteq> []"
        using more Suc.prems(1) by (cases k) auto
      moreover have "reassembles payload (off + 1480) (fragments k payload src dst ip_id (off + 1480))"
        using more Suc.prems by (intro Suc.IH) auto
      moreover have "(off + 1480) mod 8 = 0" using Suc.prems(3) by presburger
      ultimately show ?thesis
        using True more fragment_offset(3,4) [OF x(1)] x(2)
        by (simp add: fragment_block_def next_fragment_def min_def del: of_nat_add)
    next
      case last: False
      have "fragments k payload src dst ip_id (length payload) = []" by (cases k) auto
      then show ?thesis
        using True last fragment_offset(1,2) [OF x(1)] x(2)
        by (simp add: fragment_block_def next_fragment_def min_def)
    qed
  qed
qed

lemma frag_and_send_frames:
  assumes "\<forall>n. e_build E n \<noteq> -1 \<and> e_build E n \<noteq> 0" "\<forall>n. e_ipaddr4 E n \<noteq> -1" "dst \<noteq> -1" "no_packet w"
  shows "\<exists>w' ident ip_id src. frag_and_send E cksum dst payload w = Next w' \<and>
     frames_sent w' = frames_sent w @
       [Icmp_echo_block 8 0 cksum ident 1 (take (snd (first_fragment (length payload))) payload),
        Ipv4_block (of_nat (28 + snd (first_fragment (length payload)))) 0 ip_id
          (of_nat (fst (first_fragment (length payload)))) 255 1 0 src dst []] #
       fragments (length payload) payload src dst ip_id (snd (first_fragment (length payload)))"
proof -
  let ?n = "snd (first_fragment (length payload))" and ?h = "fst (first_fragment (length payload))"
  let ?t = "tick w"
  let ?src = "e_ipaddr4 E (Suc (Suc ?t))" and ?ip = "ucast (e_prand E (Suc ?t)) :: u16"
  let ?echo = "Icmp_echo_block 8 0 cksum (ucast (e_prand E ?t)) 1 (take ?n payload)"
  let ?ipb = "Ipv4_block (of_nat (28 + ?n)) 0 ?ip (of_nat ?h) 255 1 0 ?src dst []"
  let ?w3 = "w\<lparr>tick := Suc (Suc (Suc ?t))\<rparr>"
  let ?w5 = "snd (libnet_build E ?ipb (snd (libnet_build E ?echo ?w3)))"
  let ?w6 = "libnet_clear_packet (snd (libnet_write E ?w5))"
  have "\<not> build_fails E" using assms(1) by auto
  from frag_loop_sends [OF this, of payload ?n "length payload" ?w6 0 ?src dst ?ip] assms(1)
  obtain w' where w': "frag_loop E payload ?src dst ?ip 0 ?n ?w6 = Next w'"
    "frames_sent w' = frames_sent ?w6 @ fragments (length payload) payload ?src dst ?ip ?n" by auto
  have "frag_and_send E cksum dst payload w = Next w'"
    using w'(1) assms by (simp add: frag_and_send_def ext_def case_prod_unfold Let_def)
  moreover have "frames_sent ?w6 = frames_sent w @ [[?echo, ?ipb]]"
    using assms by simp
  ultimately show ?thesis using w'(2)
    by (intro exI [of _ w'] exI [of _ "ucast (e_prand E ?t)"] exI [of _ ?ip] exI [of _ ?src]) simp
qed

lemma frag_ping_frames:
  assumes "\<forall>n. e_build E n \<noteq> -1 \<and> e_build E n \<noteq> 0" "\<forall>n. e_ipaddr4 E n \<noteq> -1" "dst \<noteq> -1" "\<forall>d n. e_init E d n"
  shows "\<exists>w' ident ip_id src payload. frag_ping E cksum dst w = Return 0 w' \<and> length payload = 3000 \<and>
     frames_sent w' = frames_sent w @
       [Icmp_echo_block 8 0 cksum ident 1 (take 1472 payload), Ipv4_block 1500 0 ip_id 0x2000 255 1 0 src dst []] #
       fragments 3000 payload src dst ip_id 1472 \<and>
     reassembles payload 1472 (fragments 3000 payload src dst ip_id 1472)"
proof -
  define w1 where "w1 = (snd (libnet_init E [] w))\<lparr>tick := tick (snd (libnet_init E [] w)) + 3000\<rparr>"
  let ?p = "prand_bytes E (tick (snd (libnet_init E [] w))) 3000"
  have w1: "no_packet w1" "frames_sent w1 = frames_sent w"
    by (simp_all add: w1_def libnet_init_def ext_def frames_sent_def)
  have p: "length ?p = 3000" "snd (first_fragment 3000) = 1472" "fst (first_fragment 3000) = 0x2000"
    by (simp_all add: prand_bytes_def first_fragment_def)
  obtain w' ident ip_id src where run: "frag_and_send E cksum dst ?p w1 = Next w'"
    "frames_sent w' = frames_sent w @
       [Icmp_echo_block 8 0 cksum ident 1 (take 1472 ?p), Ipv4_block 1500 0 ip_id 0x2000 255 1 0 src dst []] #
       fragments 3000 ?p src dst ip_id 1472"
    using frag_and_send_frames [OF assms(1-3) w1(1), of cksum ?p] unfolding p w1(2) by auto
  have "fst (libnet_init E [] w)" using assms(4) by (simp add: libnet_init_def ext_def)
  then have "frag_ping E cksum dst w = Return 0 (libnet_destroy w')"
    using run(1) by (simp add: frag_ping_def case_prod_unfold w1_def)
  moreover have "frames_sent (libnet_destroy w') = frames_sent w'" by (simp add: libnet_destroy_def frames_sent_def)
  moreover have "reassembles ?p 1472 (fragments 3000 ?p src dst ip_id 1472)" for src ip_id
    by (rule fragments_reassemble) (simp_all add: prand_bytes_def)
  ultimately show ?thesis using run(2) p(1) by metis
qed

section \<open>Properties\<close>


text \<open>The total length in the IP header of a fragment is not the size of the fragment: with the
  3000 bytes \<open>frag_ping\<close> sends, the last fragment carries 48 bytes and claims 1500.\<close>

theorem frag_ping_last_length:
  assumes "\<forall>n. e_build E n \<noteq> -1 \<and> e_build E n \<noteq> 0" "\<forall>n. e_ipaddr4 E n \<noteq> -1" "dst \<noteq> -1" "no_packet w"
    "length payload = 3000"
  shows "\<exists>w' ip_id src. frag_and_send E cksum dst payload w = Next w' \<and>
     last (frames_sent w') = [Ipv4_block 1500 0 ip_id 370 255 1 0 src dst (drop 2952 payload)] \<and>
     length (drop 2952 payload) = 48"
proof -
  obtain w' ident ip_id src where *: "frag_and_send E cksum dst payload w = Next w'"
    "frames_sent w' = frames_sent w @
       [Icmp_echo_block 8 0 cksum ident 1 (take (snd (first_fragment (length payload))) payload),
        Ipv4_block (of_nat (28 + snd (first_fragment (length payload)))) 0 ip_id
          (of_nat (fst (first_fragment (length payload)))) 255 1 0 src dst []] #
       fragments (length payload) payload src dst ip_id (snd (first_fragment (length payload)))"
    using frag_and_send_frames [OF assms(1-4)] by metis
  have "fragments (Suc (Suc (Suc n))) payload src dst ip_id 1472 =
      [[Ipv4_block 1500 0 ip_id (of_nat (0x2000 + 185)) 255 1 0 src dst (take 1480 (drop 1472 payload))],
       [Ipv4_block 1500 0 ip_id 370 255 1 0 src dst (drop 2952 payload)]]" for n
    using assms(5) by (simp add: fragment_block_def next_fragment_def)
  from this [of 2997] have "last (fragments 3000 payload src dst ip_id 1472) =
      [Ipv4_block 1500 0 ip_id 370 255 1 0 src dst (drop 2952 payload)]"
    "fragments 3000 payload src dst ip_id 1472 \<noteq> []" by (simp_all add: numeral_eq_Suc)
  then show ?thesis using * assms(5) by (simp add: first_fragment_def)
qed

section \<open>Concrete runs\<close>


theorem frag_ping_last_length_witness:
  "\<exists>w' ip_id src. frag_and_send good_env 0x1234 0x0100000A (replicate 3000 7) net_init = Next w' \<and>
     last (frames_sent w') = [Ipv4_block 1500 0 ip_id 370 255 1 0 src 0x0100000A (drop 2952 (replicate 3000 7))] \<and>
     length (drop 2952 (replicate 3000 (7::u8))) = 48"
  by (rule frag_ping_last_length) (simp_all add: net_init_def)

end
