(* ===== verification/Json_String.thy ===== *)
theory Json_String
  imports Prelude
begin

text \<open>
  The string part of comm/cJSON.c: \<open>parse_hex4\<close>, \<open>parse_string\<close> and \<open>print_string_ptr\<close>, with
  their buffers. A pointer into a text is the list of the bytes from it to the end of the memory
  block; reading from the empty list is a read behind the block, and a write that does not fit the
  buffer allocated is a write behind it: both are \<open>Fault\<close>. Allocations succeed.
\<close>

datatype 'a res = Ok 'a | Fail | Fault | Out_of_fuel

fun bind_res :: "'a res \<Rightarrow> ('a \<Rightarrow> 'b res) \<Rightarrow> 'b res" where
  "bind_res (Ok x) k = k x"
| "bind_res Fail k = Fail"
| "bind_res Fault k = Fault"
| "bind_res Out_of_fuel k = Out_of_fuel"

lemma bind_res_Ok [simp]: "bind_res m k = Ok y \<longleftrightarrow> (\<exists>x. m = Ok x \<and> k x = Ok y)"
  by (cases m) auto

section \<open>Hexadecimal digits\<close>

definition hex_value :: "u8 \<Rightarrow> nat option" where
  "hex_value c =
     (if 48 \<le> c \<and> c \<le> 57 then Some (unat c - 48)
      else if 65 \<le> c \<and> c \<le> 70 then Some (10 + unat c - 65)
      else if 97 \<le> c \<and> c \<le> 102 then Some (10 + unat c - 97)
      else None)"

text \<open>\<open>parse_hex4\<close> stops at the first byte that is no digit and returns 0 then; \<open>None\<close> is a read
  behind the block.\<close>

fun hex_digits :: "nat \<Rightarrow> u8 list \<Rightarrow> nat \<Rightarrow> nat option" where
  "hex_digits 0 cs h = Some h"
| "hex_digits (Suc k) [] h = None"
| "hex_digits (Suc k) (c # cs) h =
     (case hex_value c of None \<Rightarrow> Some 0 | Some v \<Rightarrow> hex_digits k cs (16 * h + v))"

definition parse_hex4 :: "u8 list \<Rightarrow> nat option" where
  "parse_hex4 cs = hex_digits 4 cs 0"

section \<open>UTF-8\<close>

definition firstByteMark :: "nat list" where
  "firstByteMark = [0x00, 0x00, 0xC0, 0xE0, 0xF0, 0xF8, 0xFC]"

text \<open>The fall-through \<open>switch (len)\<close>, which writes the bytes from the last to the first:
  \<open>(uc | 0x80) & 0xBF\<close> is \<open>0x80\<close> plus the low six bits.\<close>

fun utf8_bytes :: "nat \<Rightarrow> nat \<Rightarrow> nat \<Rightarrow> u8 list \<Rightarrow> u8 list" where
  "utf8_bytes len 0 uc acc = acc"
| "utf8_bytes len (Suc 0) uc acc = of_nat (or uc (firstByteMark ! len)) # acc"
| "utf8_bytes len (Suc (Suc k)) uc acc =
     utf8_bytes len (Suc k) (uc div 64) (of_nat (and (or uc 0x80) 0xBF) # acc)"

definition utf8_len :: "nat \<Rightarrow> nat" where
  "utf8_len uc = (if uc < 0x80 then 1 else if uc < 0x800 then 2 else if uc < 0x10000 then 3 else 4)"

definition utf8 :: "nat \<Rightarrow> u8 list" where
  "utf8 uc = utf8_bytes (utf8_len uc) (utf8_len uc) uc []"

section \<open>parse_string\<close>

text \<open>The first pass: how many bytes the code allocates, one more than this.\<close>

fun measure_string :: "u8 list \<Rightarrow> nat \<Rightarrow> nat option" where
  "measure_string [] len = None"
| "measure_string [c] len = (if c = 34 \<or> c = 0 then Some len else None)"
| "measure_string (c # d # cs) len =
     (if c = 34 \<or> c = 0 then Some len
      else if c = 92 then measure_string cs (Suc len)
      else measure_string (d # cs) (Suc len))"

definition emit :: "nat \<Rightarrow> u8 list \<Rightarrow> u8 list \<Rightarrow> u8 list res" where
  "emit cap out bs = (if length out + length bs \<le> cap then Ok (out @ bs) else Fault)"

definition unescape :: "u8 \<Rightarrow> u8" where
  "unescape e =
     (if e = 98 then 8 else if e = 102 then 12 else if e = 110 then 10
      else if e = 114 then 13 else if e = 116 then 9 else e)"

text \<open>The case \<open>'u'\<close>: from the bytes behind the letter, the code point to write (if any) and where
  the text goes on.\<close>

definition parse_unicode :: "u8 list \<Rightarrow> (nat option \<times> u8 list) res" where
  "parse_unicode cs =
     (case parse_hex4 cs of
        None \<Rightarrow> Fault
      | Some uc \<Rightarrow>
          (let p = drop 4 cs
           in if (0xDC00 \<le> uc \<and> uc \<le> 0xDFFF) \<or> uc = 0 then Ok (None, p)
              else if 0xD800 \<le> uc \<and> uc \<le> 0xDBFF then
                (case p of
                   [] \<Rightarrow> Fault
                 | a # p1 \<Rightarrow>
                     if a \<noteq> 92 then Ok (None, p)
                     else (case p1 of
                             [] \<Rightarrow> Fault
                           | b # p2 \<Rightarrow>
                               if b \<noteq> 117 then Ok (None, p)
                               else (case parse_hex4 p2 of
                                       None \<Rightarrow> Fault
                                     | Some uc2 \<Rightarrow>
                                         if uc2 < 0xDC00 \<or> uc2 > 0xDFFF then Ok (None, drop 4 p2)
                                         else Ok (Some (0x10000 + (uc mod 1024 * 1024 + uc2 mod 1024)), drop 4 p2))))
              else Ok (Some uc, p)))"

lemma parse_unicode_shorter:
  assumes "parse_unicode cs = Ok (u, p)"
  shows "length p \<le> length cs"
proof (cases "p = drop 4 cs")
  case False
  with assms obtain a b p2 where "drop 4 cs = a # b # p2" "p = drop 4 p2"
    by (auto simp: parse_unicode_def Let_def split: option.splits if_split_asm list.split_asm)
  then have "length (drop 4 cs) = Suc (Suc (length p2))" "length p = length p2 - 4" by simp_all
  then show ?thesis by simp
qed simp

text \<open>The second pass.\<close>

function decode_string :: "nat \<Rightarrow> u8 list \<Rightarrow> u8 list \<Rightarrow> (u8 list \<times> u8 list) res" where
  "decode_string cap [] out = Fault"
| "decode_string cap (c # cs) out =
     (if c = 34 \<or> c = 0 then Ok (out, c # cs)
      else if c \<noteq> 92 then bind_res (emit cap out [c]) (decode_string cap cs)
      else (case cs of
              [] \<Rightarrow> Fault
            | e # cs' \<Rightarrow>
                if e = 117 then
                  (case parse_unicode cs' of
                     Ok (None, p) \<Rightarrow> decode_string cap p out
                   | Ok (Some uc, p) \<Rightarrow> bind_res (emit cap out (utf8 uc)) (decode_string cap p)
                   | _ \<Rightarrow> Fault)
                else bind_res (emit cap out [unescape e]) (decode_string cap cs')))"
  by pat_completeness auto
termination
  by (relation "measure (\<lambda>(cap, cs, out). length cs)") (auto dest: parse_unicode_shorter)

declare decode_string.simps [simp del]

definition parse_string :: "u8 list \<Rightarrow> (u8 list \<times> u8 list) res" where
  "parse_string str =
     (case str of
        [] \<Rightarrow> Fault
      | q # ptr \<Rightarrow>
          if q \<noteq> 34 then Fail
          else (case measure_string ptr 0 of
                  None \<Rightarrow> Fault
                | Some len \<Rightarrow>
                    bind_res (decode_string (len + 1) ptr [])
                      (\<lambda>(out, rest).
                         if length out < len + 1
                         then Ok (out, if hd rest = 34 then tl rest else rest) else Fault)))"

section \<open>print_string_ptr\<close>

text \<open>A C string is the list of its bytes before the terminator.\<close>

definition escaped_two :: "u8 \<Rightarrow> bool" where
  "escaped_two c \<longleftrightarrow> c \<in> {34, 92, 8, 12, 10, 13, 9}"

fun print_size :: "u8 list \<Rightarrow> nat" where
  "print_size [] = 0"
| "print_size (c # cs) = (if escaped_two c then 2 else if c < 32 then 6 else 1) + print_size cs"

definition hex_char :: "nat \<Rightarrow> u8" where
  "hex_char n = (if n < 10 then of_nat (48 + n) else of_nat (87 + n))"

definition print_byte :: "u8 \<Rightarrow> u8 list" where
  "print_byte c =
     (if 31 < c \<and> c \<noteq> 34 \<and> c \<noteq> 92 then [c]
      else 92 # (if c = 92 then [92] else if c = 34 then [34] else if c = 8 then [98]
                 else if c = 12 then [102] else if c = 10 then [110] else if c = 13 then [114]
                 else if c = 9 then [116]
                 else [117, 48, 48, hex_char (unat c div 16), hex_char (unat c mod 16)]))"

text \<open>The \<open>sprintf\<close> of the last case also writes a terminator, which the next byte overwrites.\<close>

fun print_bytes :: "nat \<Rightarrow> u8 list \<Rightarrow> u8 list \<Rightarrow> u8 list res" where
  "print_bytes cap [] out = Ok out"
| "print_bytes cap (c # cs) out =
     bind_res (emit cap out (print_byte c @ (if length (print_byte c) = 6 then [0] else [])))
       (\<lambda>_. print_bytes cap cs (out @ print_byte c))"

text \<open>A null pointer is printed as the empty string, without quotes.\<close>

definition print_string_ptr :: "u8 list option \<Rightarrow> u8 list res" where
  "print_string_ptr str =
     (case str of
        None \<Rightarrow> Ok []
      | Some s \<Rightarrow>
          (let cap = print_size s + 3
           in bind_res (emit cap [] [34]) (\<lambda>out. bind_res (print_bytes cap s out) (\<lambda>out.
              bind_res (emit cap out [34]) (\<lambda>out. bind_res (emit cap out [0]) (\<lambda>_. Ok out))))))"

section \<open>Well-formed strings, as sequences of tokens\<close>

datatype tok = Plain u8 | Escaped u8 | Unicode "u8 list"

fun tok_ok :: "tok \<Rightarrow> bool" where
  "tok_ok (Plain c) \<longleftrightarrow> c \<noteq> 0 \<and> c \<noteq> 34 \<and> c \<noteq> 92"
| "tok_ok (Escaped e) \<longleftrightarrow> e \<noteq> 0 \<and> e \<noteq> 117"
| "tok_ok (Unicode ds) \<longleftrightarrow> length ds = 4 \<and> (\<forall>d\<in>set ds. hex_value d \<noteq> None)"

fun tok_text :: "tok \<Rightarrow> u8 list" where
  "tok_text (Plain c) = [c]"
| "tok_text (Escaped e) = [92, e]"
| "tok_text (Unicode ds) = 92 # 117 # ds"

fun tok_size :: "tok \<Rightarrow> nat" where
  "tok_size (Plain c) = 1"
| "tok_size (Escaped e) = 1"
| "tok_size (Unicode ds) = 5"

definition hexval :: "u8 list \<Rightarrow> nat" where
  "hexval ds = foldl (\<lambda>h d. 16 * h + the (hex_value d)) 0 ds"

definition is_low :: "nat \<Rightarrow> bool" where
  "is_low u \<longleftrightarrow> 0xDC00 \<le> u \<and> u \<le> 0xDFFF"

definition is_high :: "nat \<Rightarrow> bool" where
  "is_high u \<longleftrightarrow> 0xD800 \<le> u \<and> u \<le> 0xDBFF"

definition surrogates :: "nat \<Rightarrow> nat \<Rightarrow> nat" where
  "surrogates u v = 0x10000 + (u mod 1024 * 1024 + v mod 1024)"

text \<open>What a sequence of tokens stands for: a low surrogate or a zero is dropped, a high surrogate
  combines with a low one behind it and is dropped otherwise, with the escape behind it.\<close>

fun unescaped :: "tok list \<Rightarrow> u8 list" where
  "unescaped [] = []"
| "unescaped (Plain c # ts) = c # unescaped ts"
| "unescaped (Escaped e # ts) = unescape e # unescaped ts"
| "unescaped (Unicode ds # Unicode es # ts) =
     (if is_low (hexval ds) \<or> hexval ds = 0 then unescaped (Unicode es # ts)
      else if is_high (hexval ds) then
        (if is_low (hexval es) then utf8 (surrogates (hexval ds) (hexval es)) else []) @ unescaped ts
      else utf8 (hexval ds) @ unescaped (Unicode es # ts))"
| "unescaped [Unicode ds] =
     (if is_low (hexval ds) \<or> hexval ds = 0 \<or> is_high (hexval ds) then [] else utf8 (hexval ds)) @ unescaped []"
| "unescaped (Unicode ds # Plain c # ts) =
     (if is_low (hexval ds) \<or> hexval ds = 0 \<or> is_high (hexval ds) then [] else utf8 (hexval ds)) @ unescaped (Plain c # ts)"
| "unescaped (Unicode ds # Escaped e # ts) =
     (if is_low (hexval ds) \<or> hexval ds = 0 \<or> is_high (hexval ds) then [] else utf8 (hexval ds)) @ unescaped (Escaped e # ts)"

abbreviation toks_text :: "tok list \<Rightarrow> u8 list" where
  "toks_text ts \<equiv> concat (map tok_text ts)"

abbreviation toks_size :: "tok list \<Rightarrow> nat" where
  "toks_size ts \<equiv> sum_list (map tok_size ts)"

lemma parse_hex4_digits:
  assumes "length ds = 4" "\<forall>d\<in>set ds. hex_value d \<noteq> None"
  shows "parse_hex4 (ds @ cs) = Some (hexval ds)"
proof -
  have "hex_digits (length ds) (ds @ cs) h = Some (foldl (\<lambda>h d. 16 * h + the (hex_value d)) h ds)" for h
    using assms(2) by (induction ds arbitrary: h) (auto split: option.splits)
  then show ?thesis using assms(1) by (simp add: parse_hex4_def hexval_def)
qed

lemma hex_value_less: "hex_value c = Some v \<Longrightarrow> v < 16"
  by (auto simp: hex_value_def word_le_nat_alt split: if_splits)

lemma hexval_less:
  assumes "length ds = 4" "\<forall>d\<in>set ds. hex_value d \<noteq> None"
  shows "hexval ds < 65536"
proof -
  have "foldl (\<lambda>h d. 16 * h + the (hex_value d)) h ds < (h + 1) * 16 ^ length ds" for h
    using assms(2)
  proof (induction ds arbitrary: h)
    case (Cons d ds)
    then obtain v where v: "hex_value d = Some v" by auto
    then have "16 * h + v + 1 \<le> (h + 1) * 16" using hex_value_less by fastforce
    then have "(16 * h + v + 1) * 16 ^ length ds \<le> (h + 1) * 16 * 16 ^ length ds" by (rule mult_right_mono) simp
    moreover have "foldl (\<lambda>h d. 16 * h + the (hex_value d)) (16 * h + v) ds < (16 * h + v + 1) * 16 ^ length ds"
      by (rule Cons.IH) (use Cons.prems in simp)
    ultimately have "foldl (\<lambda>h d. 16 * h + the (hex_value d)) (16 * h + v) ds < (h + 1) * 16 * 16 ^ length ds"
      by (rule less_le_trans [rotated])
    then show ?case using v by (simp add: distrib_right mult.assoc)
  qed simp
  from this [of 0] assms(1) show ?thesis by (simp add: hexval_def)
qed

lemma measure_string_tokens:
  assumes "\<forall>t\<in>set ts. tok_ok t" "q = 34 \<or> q = 0"
  shows "measure_string (toks_text ts @ q # rest) k = Some (k + toks_size ts)"
  using assms(1)
proof (induction ts arbitrary: k)
  case Nil
  then show ?case using assms(2) by (cases rest) auto
next
  case (Cons t ts)
  let ?tl = "toks_text ts @ q # rest"
  have IH: "measure_string ?tl k = Some (k + toks_size ts)" for k using Cons by simp
  obtain x xs where tl: "?tl = x # xs" by (cases ?tl) auto
  show ?case
  proof (cases t)
    case (Plain c)
    then show ?thesis using Cons.prems IH [of "Suc k"] by (simp add: tl)
  next
    case (Escaped e)
    then show ?thesis using IH [of "Suc k"] by simp
  next
    case (Unicode ds)
    then have "length ds = 4" "\<forall>d\<in>set ds. hex_value d \<noteq> None" using Cons.prems by auto
    then obtain a b c d where ds: "ds = [a, b, c, d]" by (auto simp: numeral_eq_Suc length_Suc_conv)
    have digit: "x \<noteq> 34 \<and> x \<noteq> 0 \<and> x \<noteq> 92" if "hex_value x \<noteq> None" for x
      using that by (auto simp: hex_value_def)
    show ?thesis using Unicode IH [of "Suc (Suc (Suc (Suc (Suc k))))"] digit \<open>\<forall>d\<in>set ds. _ d\<close>
      by (simp add: ds tl)
  qed
qed

lemma length_utf8_bytes: "0 < k \<Longrightarrow> length (utf8_bytes n k uc acc) = k + length acc"
  by (induction n k uc acc rule: utf8_bytes.induct) auto

lemma length_utf8: "length (utf8 uc) = utf8_len uc"
  by (simp add: utf8_def length_utf8_bytes utf8_len_def)

lemma utf8_len_le: "utf8_len uc \<le> 4" "uc < 65536 \<Longrightarrow> utf8_len uc \<le> 3"
  by (simp_all add: utf8_len_def)

lemma unescaped_fits: "\<forall>t\<in>set ts. tok_ok t \<Longrightarrow> length (unescaped ts) \<le> toks_size ts"
proof (induction ts rule: unescaped.induct)
  case (4 ds es ts)
  have u: "utf8_len (hexval ds) \<le> 3" using 4 by (intro utf8_len_le(2) hexval_less) auto
  have v: "utf8_len (surrogates (hexval ds) (hexval es)) \<le> 4" by (rule utf8_len_le(1))
  consider "is_low (hexval ds) \<or> hexval ds = 0" | "\<not> (is_low (hexval ds) \<or> hexval ds = 0)" "is_high (hexval ds)"
    | "\<not> (is_low (hexval ds) \<or> hexval ds = 0)" "\<not> is_high (hexval ds)" by argo
  then show ?case
  proof cases
    case 1
    then show ?thesis using 4(1,4) by simp
  next
    case 2
    then have "length (unescaped ts) \<le> toks_size ts" using 4(2,4) by simp
    then show ?thesis using 2 v by (simp add: length_utf8)
  next
    case 3
    then have "length (unescaped (Unicode es # ts)) \<le> toks_size (Unicode es # ts)" using 4(3,4) by simp
    then show ?thesis using 3 u by (simp add: length_utf8)
  qed
next
  case (5 ds)
  then have "utf8_len (hexval ds) \<le> 3" by (intro utf8_len_le(2) hexval_less) auto
  then show ?case by (simp add: length_utf8)
next
  case (6 ds c ts)
  then have "utf8_len (hexval ds) \<le> 3" by (intro utf8_len_le(2) hexval_less) auto
  then show ?case using 6 by (simp add: length_utf8)
next
  case (7 ds e ts)
  then have "utf8_len (hexval ds) \<le> 3" by (intro utf8_len_le(2) hexval_less) auto
  then show ?case using 7 by (simp add: length_utf8)
qed simp_all

section \<open>The second pass on well-formed strings\<close>

lemma emit_fits [simp]: "length out + length bs \<le> cap \<Longrightarrow> emit cap out bs = Ok (out @ bs)"
  by (simp add: emit_def)

lemma parse_unicode_digits:
  assumes "length ds = 4" "\<forall>d\<in>set ds. hex_value d \<noteq> None"
  shows "is_low (hexval ds) \<or> hexval ds = 0 \<Longrightarrow> parse_unicode (ds @ cs) = Ok (None, cs)"
    and "\<not> (is_low (hexval ds) \<or> hexval ds = 0) \<Longrightarrow> \<not> is_high (hexval ds) \<Longrightarrow>
      parse_unicode (ds @ cs) = Ok (Some (hexval ds), cs)"
  using assms by (auto simp: parse_unicode_def parse_hex4_digits is_low_def is_high_def)

lemma parse_unicode_high:
  assumes "length ds = 4" "\<forall>d\<in>set ds. hex_value d \<noteq> None" "is_high (hexval ds)" 
  shows "cs = x # y # xs \<Longrightarrow> \<not> (x = 92 \<and> y = 117) \<Longrightarrow> parse_unicode (ds @ cs) = Ok (None, cs)"
    and "x \<noteq> 92 \<Longrightarrow> cs = x # xs \<Longrightarrow> parse_unicode (ds @ cs) = Ok (None, cs)"
    and "length es = 4 \<Longrightarrow> \<forall>d\<in>set es. hex_value d \<noteq> None \<Longrightarrow>
      parse_unicode (ds @ 92 # 117 # es @ cs) =
        Ok (if is_low (hexval es) then Some (surrogates (hexval ds) (hexval es)) else None, cs)"
  using assms by (auto simp: parse_unicode_def parse_hex4_digits is_low_def is_high_def surrogates_def Let_def)

lemma decode_tokens:
  assumes "q = 34 \<or> q = 0"
  shows "\<forall>t\<in>set ts. tok_ok t \<Longrightarrow> length out + length (unescaped ts) \<le> cap \<Longrightarrow>
    decode_string cap (toks_text ts @ q # rest) out = Ok (out @ unescaped ts, q # rest)"
proof (induction ts arbitrary: out rule: unescaped.induct)
  case 1
  then show ?case using assms by (auto simp: decode_string.simps)
next
  case (2 c ts)
  then show ?case by (simp add: decode_string.simps(2) [of cap c])
next
  case (3 e ts)
  then show ?case by (simp add: decode_string.simps(2) [of cap 92])
next
  case (4 ds es ts)
  then have ds: "length ds = 4" "\<forall>d\<in>set ds. hex_value d \<noteq> None"
    and es: "length es = 4" "\<forall>d\<in>set es. hex_value d \<noteq> None" by auto
  consider "is_low (hexval ds) \<or> hexval ds = 0" | "\<not> (is_low (hexval ds) \<or> hexval ds = 0)" "is_high (hexval ds)"
    | "\<not> (is_low (hexval ds) \<or> hexval ds = 0)" "\<not> is_high (hexval ds)" by argo
  then show ?case
  proof cases
    case 1
    then show ?thesis using 4 parse_unicode_digits(1) [OF ds] by (simp add: decode_string.simps(2) [of cap 92 "117 # ds @ _"])
  next
    case 2
    then show ?thesis using 4 parse_unicode_high(3) [OF ds _ es]
      by (auto simp: decode_string.simps(2) [of cap 92 "117 # ds @ _"])
  next
    case 3
    then show ?thesis using 4 parse_unicode_digits(2) [OF ds] by (simp add: decode_string.simps(2) [of cap 92 "117 # ds @ _"])
  qed
next
  case (5 ds)
  then have ds: "length ds = 4" "\<forall>d\<in>set ds. hex_value d \<noteq> None" by auto
  have "decode_string cap (q # rest) out = Ok (out, q # rest)" for out
    using assms by (auto simp: decode_string.simps)
  moreover have "q \<noteq> 92" using assms by auto
  ultimately show ?case using 5 parse_unicode_digits [OF ds] parse_unicode_high(2) [OF ds]
    by (auto simp: decode_string.simps(2) [of cap 92 "117 # ds @ _"] split: if_split_asm)
next
  case (6 ds c ts)
  then have ds: "length ds = 4" "\<forall>d\<in>set ds. hex_value d \<noteq> None" and c: "c \<noteq> 92" by auto
  show ?case using 6 6(1) [of "out @ utf8 (hexval ds)"] c parse_unicode_digits [OF ds] parse_unicode_high(2) [OF ds]
    by (auto simp: decode_string.simps(2) [of cap 92 "117 # ds @ _"] decode_string.simps(2) [of cap c]
        split: if_split_asm)
next
  case (7 ds e ts)
  then have ds: "length ds = 4" "\<forall>d\<in>set ds. hex_value d \<noteq> None" and c: "e \<noteq> 117" by auto
  show ?case using 7 7(1) [of "out @ utf8 (hexval ds)"] c parse_unicode_digits [OF ds] parse_unicode_high(1) [OF ds]
    by (auto simp: decode_string.simps(2) [of cap 92 "117 # ds @ _"] decode_string.simps(2) [of cap 92 "e # _"]
        split: if_split_asm)
qed

section \<open>What parse_string accepts\<close>

lemma toks_size_less: "\<forall>t\<in>set ts. tok_ok t \<Longrightarrow> length (unescaped ts) < toks_size ts + 1"
  using unescaped_fits [of ts] by simp

lemma parse_string_toks:
  assumes "\<forall>t\<in>set ts. tok_ok t" "q = 34 \<or> q = 0"
  shows "parse_string (34 # toks_text ts @ q # rest) = Ok (unescaped ts, if q = 34 then rest else q # rest)"
  using assms toks_size_less [OF assms(1)]
  by (simp add: parse_string_def measure_string_tokens decode_tokens)

text \<open>\<open>parse_string\<close> on a sequence of well-formed characters and escapes between quotes: the two
  passes agree, no byte is read or written outside a block, the value is the unescaped text
  (surrogate pairs combined, unpaired ones and \<open>\u0000\<close> dropped), and the text goes on behind the
  closing quote. A string the text ends in is accepted as well, at the terminator.\<close>

theorem parse_string_tokens:
  assumes "\<forall>t\<in>set ts. tok_ok t"
  shows "parse_string (34 # toks_text ts @ 34 # rest) = Ok (unescaped ts, rest) \<and>
    parse_string (34 # toks_text ts @ 0 # rest) = Ok (unescaped ts, 0 # rest)"
  using parse_string_toks [OF assms] by simp

theorem parse_string_tokens_witness:
  "parse_string (34 # toks_text [Plain 65, Escaped 110, Unicode [48, 48, 52, 49]] @ 34 # []) =
     Ok (unescaped [Plain 65, Escaped 110, Unicode [48, 48, 52, 49]], []) \<and>
   parse_string (34 # toks_text [Plain 65, Escaped 110, Unicode [48, 48, 52, 49]] @ 0 # []) =
     Ok (unescaped [Plain 65, Escaped 110, Unicode [48, 48, 52, 49]], 0 # [])"
  by (rule parse_string_tokens) (simp_all add: hex_value_def)

lemma decode_plain:
  assumes "\<forall>c\<in>set xs. c \<noteq> 0 \<and> c \<noteq> 34 \<and> c \<noteq> 92"
  shows "length out \<le> cap \<Longrightarrow> cap < length out + length xs \<Longrightarrow> decode_string cap (xs @ ys) out = Fault"
  using assms
proof (induction xs arbitrary: out)
  case (Cons c xs)
  then show ?case by (cases "length out < cap") (auto simp: decode_string.simps(2) emit_def)
qed simp

text \<open>C39: \<open>parse_string\<close> is not memory safe. A backslash before the terminator makes it read behind
  the text, whatever stands before it. An escape \<open>\u\<close> cut off by the closing quote is skipped over
  by the second pass only, which goes on behind the quote and writes what it finds there behind
  the two bytes the first pass has allocated.\<close>

theorem parse_string_unsafe:
  assumes "\<forall>t\<in>set ts. tok_ok t" "\<forall>c\<in>set xs. c \<noteq> 0 \<and> c \<noteq> 34 \<and> c \<noteq> 92" "6 \<le> length xs"
  shows "parse_string (34 # toks_text ts @ [92, 0]) = Fault \<and>
    parse_string ([34, 92, 117, 34] @ xs @ rest) = Fault"
proof
  have "measure_string (toks_text ts @ [92, 0]) k = None" for k
    using assms(1)
  proof (induction ts arbitrary: k)
    case (Cons t ts)
    obtain x y zs where tl: "toks_text ts @ [92, 0] = x # y # zs"
      using Suc_le_length_iff [of 1 "toks_text ts @ [92, 0]"] by (auto simp: Suc_le_length_iff)
    show ?case
    proof (cases t)
      case (Unicode ds)
      then have "length ds = 4" "\<forall>d\<in>set ds. hex_value d \<noteq> None" using Cons.prems by auto
      then obtain a b c d where ds: "ds = [a, b, c, d]" by (auto simp: numeral_eq_Suc length_Suc_conv)
      have digit: "x \<noteq> 34 \<and> x \<noteq> 0 \<and> x \<noteq> 92" if "hex_value x \<noteq> None" for x
        using that by (auto simp: hex_value_def)
      show ?thesis using Unicode Cons digit \<open>\<forall>d\<in>set ds. _ d\<close> by (simp add: ds tl)
    qed (use Cons tl in simp_all)
  qed simp
  then show "parse_string (34 # toks_text ts @ [92, 0]) = Fault" by (simp add: parse_string_def)
next
  obtain a b c ys where xs: "xs = a # b # c # ys" "3 \<le> length ys"
    using assms(3) by (auto simp: numeral_eq_Suc Suc_le_length_iff)
  have h: "hex_value 34 = None" by (simp add: hex_value_def)
  have "parse_hex4 (34 # zs) = Some 0" for zs
    unfolding parse_hex4_def numeral_eq_Suc hex_digits.simps h by simp
  then have "parse_unicode (34 # xs @ rest) = Ok (None, ys @ rest)"
    by (simp add: parse_unicode_def xs)
  moreover have "decode_string 2 (ys @ rest) [] = Fault"
    by (rule decode_plain) (use xs assms(2) in auto)
  moreover have "measure_string (34 # zs) k = Some k" for zs k by (cases zs) simp_all
  ultimately show "parse_string ([34, 92, 117, 34] @ xs @ rest) = Fault"
    by (simp add: parse_string_def decode_string.simps(2) [of _ 92 "117 # _"] flip: numeral_2_eq_2)
qed

theorem parse_string_unsafe_witness:
  "parse_string (34 # toks_text [Plain 65] @ [92, 0]) = Fault \<and>
   parse_string ([34, 92, 117, 34] @ [65, 65, 65, 65, 65, 65] @ [34, 0]) = Fault"
  by (rule parse_string_unsafe) simp_all

section \<open>What print_string_ptr writes\<close>

definition print_tok :: "u8 \<Rightarrow> tok" where
  "print_tok c =
     (if 31 < c \<and> c \<noteq> 34 \<and> c \<noteq> 92 then Plain c
      else if c = 92 then Escaped 92 else if c = 34 then Escaped 34 else if c = 8 then Escaped 98
      else if c = 12 then Escaped 102 else if c = 10 then Escaped 110 else if c = 13 then Escaped 114
      else if c = 9 then Escaped 116
      else Unicode [48, 48, hex_char (unat c div 16), hex_char (unat c mod 16)])"

lemma print_tok_text: "tok_text (print_tok c) = print_byte c"
  by (simp add: print_tok_def print_byte_def)

lemma print_byte_size: "length (print_byte c) = (if escaped_two c then 2 else if c < 32 then 6 else 1)"
  by (auto simp: print_byte_def escaped_two_def word_less_nat_alt)

lemma print_size_length: "print_size s = length (concat (map print_byte s))"
  by (induction s) (simp_all add: print_byte_size)

lemma print_bytes_ok:
  "length out + print_size s < cap \<Longrightarrow> print_bytes cap s out = Ok (out @ concat (map print_byte s))"
  by (induction s arbitrary: out) (auto simp: print_byte_size)

lemma print_string_ptr_ok:
  "print_string_ptr (Some s) = Ok (34 # concat (map print_byte s) @ [34])"
  by (simp add: print_string_ptr_def print_bytes_ok print_size_length Let_def)

lemma hex_value_char: "n < 16 \<Longrightarrow> hex_value (hex_char n) = Some n"
proof -
  have "\<forall>n\<in>{0..<16}. hex_value (hex_char n) = Some n"
    by (simp add: hex_value_def hex_char_def atLeastLessThan_nat_numeral)
  then show "n < 16 \<Longrightarrow> hex_value (hex_char n) = Some n" by simp
qed

lemma utf8_ascii: "n < 128 \<Longrightarrow> utf8 n = [of_nat n]"
  by (simp add: utf8_def utf8_len_def firstByteMark_def)

lemma hex_value_zero: "hex_value 48 = Some 0"
  by (simp add: hex_value_def)

lemma print_tok_cases:
  obtains (plain) "print_tok c = Plain c" "c \<noteq> 34" "c \<noteq> 92"
  | (escaped) e where "print_tok c = Escaped e" "unescape e = c" "e \<noteq> 0" "e \<noteq> 117"
  | (control) "print_tok c = Unicode [48, 48, hex_char (unat c div 16), hex_char (unat c mod 16)]" "c \<le> 31"
proof -
  consider "31 < c \<and> c \<noteq> 34 \<and> c \<noteq> 92" | "c = 92" | "c = 34" | "c = 8" | "c = 12" | "c = 10" | "c = 13" | "c = 9"
    | "c \<le> 31" "c \<noteq> 8" "c \<noteq> 12" "c \<noteq> 10" "c \<noteq> 13" "c \<noteq> 9" "c \<noteq> 92" "c \<noteq> 34"
    by (metis linorder_not_less)
  then show ?thesis
  proof cases
    case 1
    show ?thesis by (rule plain) (simp_all add: 1 print_tok_def)
  next
    case 9
    have "\<not> 31 < c" using 9(1) by simp
    then show ?thesis using 9 control by (simp add: print_tok_def)
  next
    case 2
    show ?thesis by (rule escaped [of 92]) (simp_all add: 2 print_tok_def unescape_def)
  next
    case 3
    show ?thesis by (rule escaped [of 34]) (simp_all add: 3 print_tok_def unescape_def)
  next
    case 4
    show ?thesis by (rule escaped [of 98]) (simp_all add: 4 print_tok_def unescape_def)
  next
    case 5
    show ?thesis by (rule escaped [of 102]) (simp_all add: 5 print_tok_def unescape_def)
  next
    case 6
    show ?thesis by (rule escaped [of 110]) (simp_all add: 6 print_tok_def unescape_def)
  next
    case 7
    show ?thesis by (rule escaped [of 114]) (simp_all add: 7 print_tok_def unescape_def)
  next
    case 8
    show ?thesis by (rule escaped [of 116]) (simp_all add: 8 print_tok_def unescape_def)
  qed
qed

lemma print_tok_ok:
  assumes "c \<noteq> 0"
  shows "tok_ok (print_tok c)" "unescaped (print_tok c # ts) = c # unescaped ts"
proof -
  let ?ds = "[48, 48, hex_char (unat c div 16), hex_char (unat c mod 16)]"
  have "unat c < 2 ^ LENGTH(8)" by (rule unsigned_less)
  then have "unat c div 16 < 16" by simp
  then have hi: "hex_value (hex_char (unat c div 16)) = Some (unat c div 16)" by (rule hex_value_char)
  have lo: "hex_value (hex_char (unat c mod 16)) = Some (unat c mod 16)" by (rule hex_value_char) simp
  have val: "hexval ?ds = unat c" by (simp add: hexval_def hex_value_zero hi lo)
  show "tok_ok (print_tok c)" using assms
    by (cases rule: print_tok_cases [of c]) (simp_all add: hi lo hex_value_zero)
  show "unescaped (print_tok c # ts) = c # unescaped ts"
  proof (cases rule: print_tok_cases [of c])
    case control
    then have less: "unat c < 128" "unat c \<noteq> 0" "\<not> is_low (unat c)" "\<not> is_high (unat c)"
      using assms by (auto simp: word_le_nat_alt is_low_def is_high_def unat_eq_0)
    show ?thesis
      unfolding control(1) using less utf8_ascii [OF less(1)] val
      by (cases ts rule: unescaped.cases) simp_all
  qed simp_all
qed

lemma unescaped_print: "0 \<notin> set s \<Longrightarrow> unescaped (map print_tok s) = s"
  by (induction s) (auto simp: print_tok_ok(2))

lemma print_parse:
  assumes "0 \<notin> set s"
  shows "print_string_ptr (Some s) = Ok out \<Longrightarrow> parse_string (out @ rest) = Ok (s, rest)"
proof -
  have txts: "concat (map print_byte s) = toks_text (map print_tok s)"
    by (simp add: print_tok_text comp_def)
  have ok: "\<forall>t\<in>set (map print_tok s). tok_ok t" using assms by (auto intro: print_tok_ok(1))
  have "unescaped (map print_tok s) = s" using assms by (rule unescaped_print)
  then have "parse_string ((34 # concat (map print_byte s) @ [34]) @ rest) = Ok (s, rest)"
    using parse_string_toks [OF ok, of 34 rest] unfolding txts by simp
  then show "print_string_ptr (Some s) = Ok out \<Longrightarrow> parse_string (out @ rest) = Ok (s, rest)"
    by (auto simp: print_string_ptr_ok)
qed

text \<open>Printing and parsing strings. \<open>print_string_ptr\<close> stays within the block it allocates for any
  string, its output is one quoted token sequence, and \<open>parse_string\<close> on it, whatever follows, gives
  the string back and stops right behind it.\<close>

lemma print_parse_string:
  assumes "0 \<notin> set s"
  shows "\<exists>out. print_string_ptr (Some s) = Ok out \<and> parse_string (out @ rest) = Ok (s, rest)"
  using print_parse [OF assms] print_string_ptr_ok by blast

end
