(* ===== verification/Json_Number.thy ===== *)
theory Json_Number
  imports Json_String Complex_Main
begin

text \<open>
  The numbers of comm/cJSON.c: \<open>parse_number\<close>, \<open>print_number\<close> and the \<open>sprintf\<close> conversions the
  latter uses. A finite \<open>double\<close> is its value, a real number. The arithmetic of the processor and
  the \<open>pow\<close> of the mathematical library are the two functions of a \<open>fpu\<close>; conversions to \<open>int\<close>
  that do not fit give the smallest \<open>int\<close>, as the processor does.
\<close>

record fpu =
  fp_round :: "real \<Rightarrow> real"
  fp_pow10 :: "int \<Rightarrow> real"

text \<open>IEEE 754: integers of 53 bits are exact; C99: \<open>pow(x, 0)\<close> is 1.\<close>

definition exact_ints :: "fpu \<Rightarrow> bool" where
  "exact_ints fp \<longleftrightarrow> fp_pow10 fp 0 = 1 \<and> (\<forall>k. \<bar>k\<bar> \<le> 2 ^ 53 \<longrightarrow> fp_round fp (of_int k) = of_int k)"

definition to_s32 :: "int \<Rightarrow> int" where
  "to_s32 x = signed_take_bit 31 x"

definition int_of_double :: "real \<Rightarrow> int" where
  "int_of_double x =
     (let t = (if 0 \<le> x then \<lfloor>x\<rfloor> else \<lceil>x\<rceil>)
      in if - (2 ^ 31) \<le> t \<and> t < 2 ^ 31 then t else - (2 ^ 31))"

section \<open>parse_number\<close>

definition is_digit :: "u8 \<Rightarrow> bool" where
  "is_digit c \<longleftrightarrow> 48 \<le> c \<and> c \<le> 57"

definition digit_value :: "u8 \<Rightarrow> int" where
  "digit_value c = uint c - 48"

fun read_digits :: "('a \<Rightarrow> int \<Rightarrow> 'a) \<Rightarrow> 'a \<Rightarrow> u8 list \<Rightarrow> ('a \<times> u8 list) res" where
  "read_digits f a [] = Fault"
| "read_digits f a (c # cs) =
     (if is_digit c then read_digits f (f a (digit_value c)) cs else Ok (a, c # cs))"

definition add_digit :: "fpu \<Rightarrow> real \<Rightarrow> int \<Rightarrow> real" where
  "add_digit fp n d = fp_round fp (fp_round fp (n * 10) + of_int d)"

text \<open>Skips the byte \<open>x\<close> if the text begins with it.\<close>

fun skip_byte :: "u8 \<Rightarrow> u8 list \<Rightarrow> (bool \<times> u8 list) res" where
  "skip_byte x [] = Fault"
| "skip_byte x (c # cs) = Ok (if c = x then (True, cs) else (False, c # cs))"

definition parse_integer :: "fpu \<Rightarrow> u8 list \<Rightarrow> (real \<times> u8 list) res" where
  "parse_integer fp num =
     (case num of
        [] \<Rightarrow> Fault
      | c # cs \<Rightarrow> if 49 \<le> c \<and> c \<le> 57 then read_digits (add_digit fp) 0 num else Ok (0, num))"

definition parse_fraction :: "fpu \<Rightarrow> real \<Rightarrow> u8 list \<Rightarrow> ((real \<times> int) \<times> u8 list) res" where
  "parse_fraction fp n num =
     (case num of
        [] \<Rightarrow> Fault
      | c # cs \<Rightarrow>
          if c \<noteq> 46 then Ok ((n, 0), num)
          else (case cs of
                  [] \<Rightarrow> Fault
                | d # ds \<Rightarrow>
                    if is_digit d then read_digits (\<lambda>(n, scale) d. (add_digit fp n d, scale - 1)) (n, 0) cs
                    else Ok ((n, 0), num)))"

definition parse_exponent :: "u8 list \<Rightarrow> (int \<times> u8 list) res" where
  "parse_exponent num =
     (case num of
        [] \<Rightarrow> Fault
      | c # cs \<Rightarrow>
          if c = 101 \<or> c = 69 then
            bind_res (skip_byte 43 cs) (\<lambda>(plus, cs1).
            bind_res (if plus then Ok (False, cs1) else skip_byte 45 cs1) (\<lambda>(minus, cs2).
            bind_res (read_digits (\<lambda>s d. to_s32 (to_s32 (s * 10) + d)) 0 cs2) (\<lambda>(subscale, cs3).
              Ok (to_s32 (subscale * (if minus then -1 else 1)), cs3))))
          else Ok (0, num))"

text \<open>The value and where the text goes on; the code also stores its conversion to \<open>int\<close>.\<close>

definition parse_number :: "fpu \<Rightarrow> u8 list \<Rightarrow> (real \<times> u8 list) res" where
  "parse_number fp num =
     bind_res (skip_byte 45 num) (\<lambda>(minus, num).
     bind_res (skip_byte 48 num) (\<lambda>(zero, num).
     bind_res (parse_integer fp num) (\<lambda>(n, num).
     bind_res (parse_fraction fp n num) (\<lambda>((n, scale), num).
     bind_res (parse_exponent num) (\<lambda>(subscale, num).
       Ok (fp_round fp (fp_round fp ((if minus then -1 else 1) * n) * fp_pow10 fp (scale + subscale)), num))))))"

section \<open>print_number\<close>

text \<open>Decimal digits, and the conversions \<open>%d\<close>, \<open>%.0f\<close>, \<open>%f\<close> and \<open>%e\<close>.\<close>

fun decimal :: "nat \<Rightarrow> u8 list" where
  "decimal n = (if n < 10 then [of_nat (48 + n)] else decimal (n div 10) @ [of_nat (48 + n mod 10)])"

declare decimal.simps [simp del]

definition sprintf_d :: "int \<Rightarrow> u8 list" where
  "sprintf_d n = (if n < 0 then 45 # decimal (nat (- n)) else decimal (nat n))"

definition round_even :: "real \<Rightarrow> int" where
  "round_even x =
     (let f = \<lfloor>x\<rfloor>; r = x - of_int f
      in if r < 1 / 2 then f else if r > 1 / 2 then f + 1 else if even f then f else f + 1)"

definition sign_text :: "real \<Rightarrow> u8 list" where
  "sign_text d = (if d < 0 then [45] else [])"

definition sprintf_f0 :: "real \<Rightarrow> u8 list" where
  "sprintf_f0 d = sign_text d @ decimal (nat (round_even \<bar>d\<bar>))"

definition padded :: "nat \<Rightarrow> nat \<Rightarrow> u8 list" where
  "padded w n = replicate (w - length (decimal n)) 48 @ decimal n"

definition sprintf_f :: "real \<Rightarrow> u8 list" where
  "sprintf_f d =
     (let n = nat (round_even (\<bar>d\<bar> * 1000000))
      in sign_text d @ decimal (n div 1000000) @ 46 # padded 6 (n mod 1000000))"

text \<open>The decimal exponent of a positive number; 330 steps reach every finite \<open>double\<close>.\<close>

fun exponent10 :: "nat \<Rightarrow> real \<Rightarrow> int" where
  "exponent10 0 x = 0"
| "exponent10 (Suc k) x =
     (if 10 \<le> x then exponent10 k (x / 10) + 1 else if x < 1 then exponent10 k (x * 10) - 1 else 0)"

definition power10 :: "int \<Rightarrow> real" where
  "power10 e = (if 0 \<le> e then 10 ^ nat e else 1 / 10 ^ nat (- e))"

definition sprintf_e :: "real \<Rightarrow> u8 list" where
  "sprintf_e d =
     (let e0 = exponent10 330 \<bar>d\<bar>;
          n0 = nat (round_even (\<bar>d\<bar> * power10 (6 - e0)));
          (n, e) = (if n0 = 10000000 then (1000000, e0 + 1) else (n0, e0))
      in sign_text d @ decimal (n div 1000000) @ 46 # padded 6 (n mod 1000000) @
           [101, if e < 0 then 45 else 43] @ padded 2 (nat \<bar>e\<bar>))"

text \<open>\<open>sprintf\<close> into a block of \<open>cap\<close> bytes, with the terminator.\<close>

definition into_block :: "nat \<Rightarrow> u8 list \<Rightarrow> u8 list res" where
  "into_block cap s = (if length s + 1 \<le> cap then Ok s else Fault)"

definition DBL_EPSILON :: real where
  "DBL_EPSILON = 1 / 2 ^ 52"

definition print_number :: "int \<Rightarrow> real \<Rightarrow> u8 list res" where
  "print_number vi d =
     (if \<bar>of_int vi - d\<bar> \<le> DBL_EPSILON \<and> d \<le> 2147483647 \<and> d \<ge> - 2147483648
      then into_block 21 (sprintf_d vi)
      else if \<bar>of_int \<lfloor>d\<rfloor> - d\<bar> \<le> DBL_EPSILON \<and> \<bar>d\<bar> < 10 ^ 60 then into_block 64 (sprintf_f0 d)
      else if \<bar>d\<bar> < 1 / 10 ^ 6 \<or> \<bar>d\<bar> > 10 ^ 9 then into_block 64 (sprintf_e d)
      else into_block 64 (sprintf_f d))"

section \<open>Decimal notation\<close>

definition decimal_value :: "u8 list \<Rightarrow> int \<Rightarrow> int" where
  "decimal_value cs a = foldl (\<lambda>a c. a * 10 + digit_value c) a cs"

lemma digit_char:
  assumes "k < 10"
  shows "is_digit (of_nat (48 + k))" "digit_value (of_nat (48 + k)) = int k" "of_nat (48 + k) \<noteq> (0::u8)"
    "0 < k \<Longrightarrow> 49 \<le> (of_nat (48 + k) :: u8) \<and> (of_nat (48 + k) :: u8) \<le> 57"
    "of_nat (48 + k) = (48::u8) \<longleftrightarrow> k = 0"
proof -
  have "unat (of_nat (48 + k) :: u8) = 48 + k"
    using assms by (simp add: unat_of_nat take_bit_nat_eq_self del: of_nat_add)
  then show "is_digit (of_nat (48 + k))" "digit_value (of_nat (48 + k)) = int k" "of_nat (48 + k) \<noteq> (0::u8)"
    "0 < k \<Longrightarrow> 49 \<le> (of_nat (48 + k) :: u8) \<and> (of_nat (48 + k) :: u8) \<le> 57"
    "of_nat (48 + k) = (48::u8) \<longleftrightarrow> k = 0"
    using assms
    by (simp_all add: is_digit_def digit_value_def word_le_nat_alt word_unat_eq_iff uint_nat del: of_nat_add)
qed

lemma decimal_digits: "\<forall>c\<in>set (decimal n). is_digit c \<and> c \<noteq> 0"
proof (induction n rule: decimal.induct)
  case (1 n)
  then show ?case
    by (subst decimal.simps) (auto intro!: digit_char simp del: of_nat_add)
qed

lemma decimal_value_decimal: "decimal_value (decimal n) 0 = int n"
proof (induction n rule: decimal.induct)
  case (1 n)
  then show ?case
    by (subst decimal.simps)
      (auto simp: decimal_value_def digit_char zdiv_int zmod_int simp del: of_nat_add)
qed

lemma decimal_first: "\<exists>c cs. decimal n = c # cs \<and> (0 < n \<longrightarrow> 49 \<le> c \<and> c \<le> 57) \<and> (n = 0 \<longrightarrow> c = 48 \<and> cs = [])"
proof (induction n rule: decimal.induct)
  case (1 n)
  show ?case
  proof (cases "n < 10")
    case True
    then show ?thesis by (subst decimal.simps) (use digit_char [OF True] in \<open>simp del: of_nat_add\<close>)
  next
    case False
    then have "0 < n div 10" by simp
    then show ?thesis using 1 [OF False] False by (subst decimal.simps) auto
  qed
qed

lemma length_decimal: "n < 10 ^ k \<Longrightarrow> 0 < k \<Longrightarrow> length (decimal n) \<le> k"
proof (induction k arbitrary: n)
  case (Suc k)
  show ?case
  proof (cases "n < 10")
    case False
    then have "0 < k" using Suc.prems by (cases k) auto
    have "n div 10 < 10 ^ k" using Suc.prems(1) by (simp add: div_less_iff_less_mult mult.commute)
    then have "length (decimal (n div 10)) \<le> k" using Suc.IH \<open>0 < k\<close> by simp
    then show ?thesis using False by (subst decimal.simps) simp
  qed (subst decimal.simps, simp)
qed simp

section \<open>Reading what \<open>%d\<close> writes\<close>

lemma decimal_value_mono:
  "0 \<le> a \<Longrightarrow> \<forall>c\<in>set cs. is_digit c \<Longrightarrow> a \<le> decimal_value cs a"
proof (induction cs arbitrary: a)
  case (Cons c cs)
  have "0 \<le> digit_value c" using Cons.prems(2) by (simp add: is_digit_def digit_value_def word_le_def)
  then have "0 \<le> a * 10 + digit_value c" "a \<le> a * 10 + digit_value c" using Cons.prems(1) by simp_all
  then show ?case using Cons.IH [of "a * 10 + digit_value c"] Cons.prems(2) by (simp add: decimal_value_def)
qed (simp add: decimal_value_def)

lemma exact_intsD:
  assumes "exact_ints fp" "0 \<le> k" "k \<le> 2 ^ 53"
  shows "fp_round fp (of_int k) = of_int k" "fp_round fp (- of_int k) = - of_int k"
proof -
  have "\<bar>k\<bar> \<le> 2 ^ 53" "\<bar>- k\<bar> \<le> 2 ^ 53" using assms(2,3) by simp_all
  then show "fp_round fp (of_int k) = of_int k" "fp_round fp (- of_int k) = - of_int k"
    using assms(1) unfolding exact_ints_def by (metis, metis of_int_minus)
qed

lemma add_digit_exact:
  assumes "exact_ints fp" "0 \<le> a" "0 \<le> d" "a * 10 + d \<le> 2 ^ 53"
  shows "add_digit fp (of_int a) d = of_int (a * 10 + d)"
proof -
  have "fp_round fp (of_int (a * 10)) = of_int (a * 10)" "fp_round fp (of_int (a * 10 + d)) = of_int (a * 10 + d)"
    by (rule exact_intsD [OF assms(1)]; use assms in simp)+
  then show ?thesis by (simp add: add_digit_def)
qed

lemma read_digits_exact:
  assumes "exact_ints fp" "\<not> is_digit c"
  shows "0 \<le> a \<Longrightarrow> \<forall>c\<in>set cs. is_digit c \<Longrightarrow> decimal_value cs a \<le> 2 ^ 53 \<Longrightarrow>
    read_digits (add_digit fp) (of_int a) (cs @ c # rest) = Ok (of_int (decimal_value cs a), c # rest)"
proof (induction cs arbitrary: a)
  case Nil
  then show ?case using assms(2) by (simp add: decimal_value_def)
next
  case (Cons d cs)
  have d: "0 \<le> digit_value d" using Cons.prems(2) by (simp add: is_digit_def digit_value_def word_le_def)
  have eq: "decimal_value (d # cs) a = decimal_value cs (a * 10 + digit_value d)" by (simp add: decimal_value_def)
  have "a * 10 + digit_value d \<le> decimal_value (d # cs) a"
    unfolding eq using Cons.prems d by (intro decimal_value_mono) auto
  then have "add_digit fp (of_int a) (digit_value d) = of_int (a * 10 + digit_value d)"
    using Cons.prems d by (intro add_digit_exact [OF assms(1)]) auto
  then show ?case using Cons.IH [of "a * 10 + digit_value d"] Cons.prems d by (simp add: eq)
qed

definition number_ends :: "u8 \<Rightarrow> bool" where
  "number_ends c \<longleftrightarrow> \<not> is_digit c \<and> c \<noteq> 46 \<and> c \<noteq> 101 \<and> c \<noteq> 69"

lemma parse_integer_decimal:
  assumes "exact_ints fp" "int n \<le> 2 ^ 53" "number_ends c"
  shows "\<exists>z t. skip_byte 48 (decimal n @ c # rest) = Ok (z, t) \<and> parse_integer fp t = Ok (of_int (int n), c # rest)"
proof -
  obtain d ds where d: "decimal n = d # ds" "0 < n \<longrightarrow> 49 \<le> d \<and> d \<le> 57" "n = 0 \<longrightarrow> d = 48 \<and> ds = []"
    using decimal_first [of n] by blast
  show ?thesis
  proof (cases "n = 0")
    case True
    have "\<not> (49 \<le> c \<and> c \<le> 57)" using assms(3) order_trans [of 48 49 c] by (auto simp: number_ends_def is_digit_def)
    then have "parse_integer fp (c # rest) = Ok (of_int (int n), c # rest)" using True by (auto simp: parse_integer_def)
    then show ?thesis using d True by auto
  next
    case False
    then have "d \<noteq> 48" using d(2) by auto
    have "read_digits (add_digit fp) (of_int 0) (decimal n @ c # rest) = Ok (of_int (int n), c # rest)"
      using read_digits_exact [of fp c 0 "decimal n" rest] assms decimal_digits [of n]
      by (simp add: number_ends_def decimal_value_decimal)
    then show ?thesis using d False \<open>d \<noteq> 48\<close> by (auto simp: parse_integer_def)
  qed
qed

lemma parse_number_sprintf_d:
  assumes "exact_ints fp" "\<bar>k\<bar> \<le> 2 ^ 53" "number_ends c"
  shows "parse_number fp (sprintf_d k @ c # rest) = Ok (of_int k, c # rest)"
proof -
  define n where "n = nat \<bar>k\<bar>"
  have n: "int n \<le> 2 ^ 53" using assms(2) by (simp add: n_def)
  obtain z t where t: "skip_byte 48 (decimal n @ c # rest) = Ok (z, t)" "parse_integer fp t = Ok (of_int (int n), c # rest)"
    using parse_integer_decimal [OF assms(1) n assms(3)] by blast
  have tail: "parse_fraction fp x (c # rest) = Ok ((x, 0), c # rest)" "parse_exponent (c # rest) = Ok (0, c # rest)" for x
    using assms(3) by (simp_all add: number_ends_def parse_fraction_def parse_exponent_def)
  have r: "fp_round fp (of_int (int n)) = of_int (int n)" "fp_round fp (- of_int (int n)) = - of_int (int n)"
    using exact_intsD [OF assms(1) _ n] by simp_all
  have one: "fp_pow10 fp 0 = 1" using assms(1) by (simp add: exact_ints_def)
  show ?thesis
  proof (cases "k < 0")
    case True
    then have "sprintf_d k = 45 # decimal n" "of_int k = - (of_int (int n) :: real)"
      by (simp_all add: sprintf_d_def n_def)
    then show ?thesis using t tail r one by (simp add: parse_number_def)
  next
    case False
    then have k: "sprintf_d k = decimal n" "of_int k = (of_int (int n) :: real)"
      by (simp_all add: sprintf_d_def n_def)
    obtain d ds where d: "decimal n = d # ds" "is_digit d" using decimal_first [of n] decimal_digits [of n] by auto
    then have "d \<noteq> 45" by (auto simp: is_digit_def)
    then have "skip_byte 45 (decimal n @ c # rest) = Ok (False, decimal n @ c # rest)" using d by simp
    then show ?thesis using t tail r one unfolding parse_number_def k by simp
  qed
qed

section \<open>print_number stays within its blocks\<close>

text \<open>The value of a finite \<open>double\<close> of 64 bits.\<close>

definition finite_double :: "real \<Rightarrow> bool" where
  "finite_double d \<longleftrightarrow> d = 0 \<or> 1 / 10 ^ 330 \<le> \<bar>d\<bar> \<and> \<bar>d\<bar> < 10 ^ 331"

lemma power10_add1: "power10 (e + 1) = 10 * power10 e"
proof (cases "0 \<le> e")
  case True
  then have "nat (e + 1) = Suc (nat e)" by simp
  then show ?thesis using True by (simp add: power10_def)
next
  case False
  then have "nat (- e) = Suc (nat (- (e + 1)))" by simp
  then show ?thesis using False by (simp add: power10_def)
qed

lemma exponent10_range:
  "1 / 10 ^ k \<le> x \<Longrightarrow> x < 10 ^ Suc k \<Longrightarrow>
    1 \<le> x * power10 (- exponent10 k x) \<and> x * power10 (- exponent10 k x) < 10 \<and> \<bar>exponent10 k x\<bar> \<le> int k"
proof (induction k arbitrary: x)
  case 0
  then show ?case by (simp add: power10_def)
next
  case (Suc k)
  show ?case
  proof (cases "10 \<le> x")
    case True
    have "1 \<le> x / 10" using True by simp
    moreover have "1 / 10 ^ k \<le> (1::real)" by simp
    ultimately have "1 / 10 ^ k \<le> x / 10" by linarith
    moreover have "x / 10 < 10 ^ Suc k" using Suc.prems(2) by simp
    ultimately have IH: "1 \<le> x / 10 * power10 (- exponent10 k (x / 10)) \<and>
        x / 10 * power10 (- exponent10 k (x / 10)) < 10 \<and> \<bar>exponent10 k (x / 10)\<bar> \<le> int k"
      by (rule Suc.IH)
    have "power10 (- exponent10 k (x / 10)) = 10 * power10 (- exponent10 (Suc k) x)"
      using power10_add1 [of "- exponent10 (Suc k) x"] True by simp
    then have eq: "x / 10 * power10 (- exponent10 k (x / 10)) = x * power10 (- exponent10 (Suc k) x)" by simp
    have "\<bar>exponent10 (Suc k) x\<bar> \<le> int (Suc k)" using IH True by (auto simp: abs_le_iff)
    then show ?thesis using IH unfolding eq by blast
  next
    case ge: False
    show ?thesis
    proof (cases "x < 1")
      case True
      have "1 / 10 ^ k \<le> x * 10" using Suc.prems(1) by (simp add: field_simps)
      moreover have "(10::real) * 1 \<le> 10 * 10 ^ k" by (intro mult_left_mono) simp_all
      then have "x * 10 < 10 ^ Suc k" using True unfolding power_Suc by linarith
      ultimately have IH: "1 \<le> x * 10 * power10 (- exponent10 k (x * 10)) \<and>
          x * 10 * power10 (- exponent10 k (x * 10)) < 10 \<and> \<bar>exponent10 k (x * 10)\<bar> \<le> int k"
        by (rule Suc.IH)
      have "power10 (- exponent10 (Suc k) x) = 10 * power10 (- exponent10 k (x * 10))"
        using power10_add1 [of "- exponent10 k (x * 10)"] ge True by simp
      then have eq: "x * 10 * power10 (- exponent10 k (x * 10)) = x * power10 (- exponent10 (Suc k) x)" by simp
      have "\<bar>exponent10 (Suc k) x\<bar> \<le> int (Suc k)" using IH ge True by (auto simp: abs_le_iff)
      then show ?thesis using IH unfolding eq by blast
    qed (use ge in \<open>simp add: power10_def\<close>)
  qed
qed

lemma round_even_le: "x < of_int b \<Longrightarrow> round_even x \<le> b"
proof -
  assume "x < of_int b"
  then have "\<lfloor>x\<rfloor> < b" by linarith
  then show ?thesis by (auto simp: round_even_def Let_def)
qed

lemma length_padded: "0 < w \<Longrightarrow> n < 10 ^ w \<Longrightarrow> length (padded w n) = w"
  using length_decimal [of n w] by (simp add: padded_def)

lemma length_sprintf_d: "- (2 ^ 31) \<le> k \<Longrightarrow> k < 2 ^ 31 \<Longrightarrow> length (sprintf_d k) \<le> 11"
proof -
  assume "- (2 ^ 31) \<le> k" "k < 2 ^ 31"
  then have "nat \<bar>k\<bar> < 10 ^ 10" by simp
  then have "length (decimal (nat \<bar>k\<bar>)) \<le> 10" by (rule length_decimal) simp
  then show ?thesis by (cases "k < 0") (simp_all add: sprintf_d_def)
qed

lemma length_sprintf_f0: "\<bar>d\<bar> < 10 ^ 60 \<Longrightarrow> length (sprintf_f0 d) \<le> 62"
proof -
  assume "\<bar>d\<bar> < 10 ^ 60"
  then have "round_even \<bar>d\<bar> \<le> 10 ^ 60" by (intro round_even_le) simp
  then have "nat (round_even \<bar>d\<bar>) < 10 ^ 61" by (simp add: nat_less_iff)
  then have "length (decimal (nat (round_even \<bar>d\<bar>))) \<le> 61" by (rule length_decimal) simp
  then show ?thesis by (cases "d < 0") (simp_all add: sprintf_f0_def sign_text_def)
qed

lemma length_sprintf_f: "\<bar>d\<bar> \<le> 10 ^ 9 \<Longrightarrow> length (sprintf_f d) \<le> 20"
proof -
  assume "\<bar>d\<bar> \<le> 10 ^ 9"
  then have "round_even (\<bar>d\<bar> * 1000000) \<le> 10 ^ 16" by (intro round_even_le) simp
  then have "nat (round_even (\<bar>d\<bar> * 1000000)) \<le> 10 ^ 16" by simp
  then have "nat (round_even (\<bar>d\<bar> * 1000000)) div 1000000 < 10 ^ 11" by simp
  then have "length (decimal (nat (round_even (\<bar>d\<bar> * 1000000)) div 1000000)) \<le> 11" by (rule length_decimal) simp
  then show ?thesis by (cases "d < 0") (simp_all add: sprintf_f_def sign_text_def Let_def length_padded)
qed

lemma length_sprintf_e:
  assumes "finite_double d" "d \<noteq> 0"
  shows "length (sprintf_e d) \<le> 15"
proof -
  define e0 where "e0 = exponent10 330 \<bar>d\<bar>"
  have "(10::real) ^ 331 = 10 ^ Suc 330" by (simp only: eval_nat_numeral(3) flip: power_Suc)
  then have r: "\<bar>d\<bar> * power10 (- e0) < 10" "\<bar>e0\<bar> \<le> 330"
    using exponent10_range [of 330 "\<bar>d\<bar>"] assms unfolding e0_def finite_double_def by auto
  have "power10 (i + int k) = 10 ^ k * power10 i" for i k
  proof (induction k)
    case (Suc k)
    have "i + int (Suc k) = i + int k + 1" by simp
    then show ?case using Suc power10_add1 [of "i + int k"] by (simp add: ac_simps)
  qed simp
  from this [of "- e0" 6] have "power10 (6 - e0) = 10 ^ 6 * power10 (- e0)" by (simp add: add.commute)
  then have "\<bar>d\<bar> * power10 (6 - e0) < of_int 10000000" using r(1) by simp
  then have "round_even (\<bar>d\<bar> * power10 (6 - e0)) \<le> 10000000" by (rule round_even_le)
  then have n0: "nat (round_even (\<bar>d\<bar> * power10 (6 - e0))) \<le> 10000000" by simp
  have l1: "length (decimal (n div 1000000)) \<le> 2" if "n \<le> 10000000" for n
    using that by (intro length_decimal) simp_all
  have l2: "length (padded 6 (n mod 1000000)) = 6" for n by (simp add: length_padded)
  have l3: "length (padded 2 (nat \<bar>e\<bar>)) \<le> 3" if "\<bar>e\<bar> \<le> 331" for e
    using that length_decimal [of "nat \<bar>e\<bar>" 3] by (simp add: padded_def nat_less_iff)
  have bound: "length (sign_text d @ decimal (n div 1000000) @ 46 # padded 6 (n mod 1000000) @
      [101, s] @ padded 2 (nat \<bar>e\<bar>)) \<le> 15" if "n \<le> 10000000" "\<bar>e\<bar> \<le> 331" for n e s
    using l1 [OF that(1)] l2 [of n] l3 [OF that(2)] by (simp add: sign_text_def)
  show ?thesis
  proof (cases "nat (round_even (\<bar>d\<bar> * power10 (6 - e0))) = 10000000")
    case True
    then show ?thesis using bound [of 1000000 "e0 + 1"] r(2)
      unfolding sprintf_e_def Let_def e0_def [symmetric] True by simp
  next
    case False
    then show ?thesis using bound [OF n0, of e0] r(2)
      unfolding sprintf_e_def Let_def e0_def [symmetric] by simp
  qed
qed

lemma print_number_ok:
  assumes "- (2 ^ 31) \<le> vi" "vi < 2 ^ 31" "finite_double d"
  shows "\<exists>s. print_number vi d = Ok s \<and> length s \<le> 62"
proof -
  consider (d) "\<bar>of_int vi - d\<bar> \<le> DBL_EPSILON \<and> d \<le> 2147483647 \<and> d \<ge> - 2147483648"
    | (f0) "\<not> (\<bar>of_int vi - d\<bar> \<le> DBL_EPSILON \<and> d \<le> 2147483647 \<and> d \<ge> - 2147483648)"
        "\<bar>of_int \<lfloor>d\<rfloor> - d\<bar> \<le> DBL_EPSILON \<and> \<bar>d\<bar> < 10 ^ 60"
    | (e) "\<not> (\<bar>of_int vi - d\<bar> \<le> DBL_EPSILON \<and> d \<le> 2147483647 \<and> d \<ge> - 2147483648)"
        "\<not> (\<bar>of_int \<lfloor>d\<rfloor> - d\<bar> \<le> DBL_EPSILON \<and> \<bar>d\<bar> < 10 ^ 60)" "\<bar>d\<bar> < 1 / 10 ^ 6 \<or> \<bar>d\<bar> > 10 ^ 9"
    | (f) "\<not> (\<bar>of_int vi - d\<bar> \<le> DBL_EPSILON \<and> d \<le> 2147483647 \<and> d \<ge> - 2147483648)"
        "\<not> (\<bar>of_int \<lfloor>d\<rfloor> - d\<bar> \<le> DBL_EPSILON \<and> \<bar>d\<bar> < 10 ^ 60)" "\<not> (\<bar>d\<bar> < 1 / 10 ^ 6 \<or> \<bar>d\<bar> > 10 ^ 9)"
    by argo
  then show ?thesis
  proof cases
    case d
    then show ?thesis using length_sprintf_d [OF assms(1,2)] unfolding print_number_def into_block_def by simp
  next
    case f0
    then have "length (sprintf_f0 d) \<le> 62" by (intro length_sprintf_f0) simp
    then show ?thesis using f0 unfolding print_number_def into_block_def by simp
  next
    case e
    have "d \<noteq> 0" using e(2) by (auto simp: DBL_EPSILON_def)
    then have "length (sprintf_e d) \<le> 15" by (rule length_sprintf_e [OF assms(3)])
    moreover have "print_number vi d = into_block 64 (sprintf_e d)"
      by (simp only: print_number_def e if_False if_True)
    ultimately show ?thesis by (simp add: into_block_def)
  next
    case f
    then have "length (sprintf_f d) \<le> 20" by (intro length_sprintf_f) simp
    moreover have "print_number vi d = into_block 64 (sprintf_f d)"
      by (simp only: print_number_def f if_False if_True)
    ultimately show ?thesis by (simp add: into_block_def)
  qed
qed

end
