(* ===== verification/Json.thy ===== *)
theory Json
  imports Json_Number
begin

text \<open>
  comm/cJSON.c: the tree, its parser and its printer. A \<open>cJSON\<close> is a node with the list of its
  children, which the code links by \<open>next\<close> and \<open>prev\<close>; nodes are not shared. Strings are the bytes
  before the terminator, a null pointer is \<open>None\<close>, and \<open>Fail\<close> is the null result. The recursion of
  the parser is bounded by fuel; \<open>cJSON_ParseWithOpts\<close> gives it twice the length of the text, which
  is enough.
\<close>

datatype json =
  Node (jtype: nat) (valuestring: "u8 list option") (valueint: int) (valuedouble: real)
    (jstring: "u8 list option") (child: "json list")

abbreviation (input) "cJSON_False \<equiv> 0 :: nat"
abbreviation (input) "cJSON_True \<equiv> 1 :: nat"
abbreviation (input) "cJSON_NULL \<equiv> 2 :: nat"
abbreviation (input) "cJSON_Number \<equiv> 3 :: nat"
abbreviation (input) "cJSON_String \<equiv> 4 :: nat"
abbreviation (input) "cJSON_Array \<equiv> 5 :: nat"
abbreviation (input) "cJSON_Object \<equiv> 6 :: nat"

definition cJSON_New_Item :: json where
  "cJSON_New_Item = Node 0 None 0 0 None []"

fun set_jtype :: "nat \<Rightarrow> json \<Rightarrow> json" where
  "set_jtype t (Node _ vs vi vd nm ch) = Node t vs vi vd nm ch"

fun set_jstring :: "u8 list option \<Rightarrow> json \<Rightarrow> json" where
  "set_jstring nm (Node t vs vi vd _ ch) = Node t vs vi vd nm ch"

fun set_child :: "json list \<Rightarrow> json \<Rightarrow> json" where
  "set_child ch (Node t vs vi vd nm _) = Node t vs vi vd nm ch"

section \<open>The parser\<close>

text \<open>\<open>strncmp\<close> with a literal: the comparison ends at the first difference.\<close>

fun begins :: "u8 list \<Rightarrow> u8 list \<Rightarrow> bool res" where
  "begins [] cs = Ok True"
| "begins (l # ls) [] = Fault"
| "begins (l # ls) (c # cs) = (if c = l then begins ls cs else Ok False)"

fun skip :: "u8 list \<Rightarrow> u8 list res" where
  "skip [] = Fault"
| "skip (c # cs) = (if c \<noteq> 0 \<and> c \<le> 32 then skip cs else Ok (c # cs))"

definition null_text :: "u8 list" where "null_text = [110, 117, 108, 108]"
definition false_text :: "u8 list" where "false_text = [102, 97, 108, 115, 101]"
definition true_text :: "u8 list" where "true_text = [116, 114, 117, 101]"

definition first_byte :: "u8 list \<Rightarrow> u8 res" where
  "first_byte cs = (case cs of [] \<Rightarrow> Fault | c # _ \<Rightarrow> Ok c)"

text \<open>What the bytes of a buffer are as a C string.\<close>

definition c_string :: "u8 list \<Rightarrow> u8 list" where
  "c_string = takeWhile (\<lambda>c. c \<noteq> 0)"

definition parse_array :: "(u8 list \<Rightarrow> (json list \<times> u8 list) res) \<Rightarrow> u8 list \<Rightarrow> (json \<times> u8 list) res" where
  "parse_array elements value =
     bind_res (first_byte value) (\<lambda>c. if c \<noteq> 91 then Fail else
     bind_res (skip (tl value)) (\<lambda>value.
     bind_res (first_byte value) (\<lambda>c.
     if c = 93 then Ok (Node cJSON_Array None 0 0 None [], tl value)
     else bind_res (elements value) (\<lambda>(items, rest).
       Ok (Node cJSON_Array None 0 0 None items, rest)))))"

definition parse_object :: "(u8 list \<Rightarrow> (json list \<times> u8 list) res) \<Rightarrow> u8 list \<Rightarrow> (json \<times> u8 list) res" where
  "parse_object members value =
     bind_res (first_byte value) (\<lambda>c. if c \<noteq> 123 then Fail else
     bind_res (skip (tl value)) (\<lambda>value.
     bind_res (first_byte value) (\<lambda>c.
     if c = 125 then Ok (Node cJSON_Object None 0 0 None [], tl value)
     else bind_res (members value) (\<lambda>(items, rest).
       Ok (Node cJSON_Object None 0 0 None items, rest)))))"

text \<open>\<open>parse_value\<close> with the parsers of the elements of an array and of the members of an object.\<close>

definition parse_any ::
  "(u8 list \<Rightarrow> (json list \<times> u8 list) res) \<Rightarrow> (u8 list \<Rightarrow> (json list \<times> u8 list) res) \<Rightarrow>
   fpu \<Rightarrow> u8 list \<Rightarrow> (json \<times> u8 list) res" where
  "parse_any elements members fp value =
     bind_res (begins null_text value) (\<lambda>is_null.
     if is_null then Ok (Node cJSON_NULL None 0 0 None [], drop 4 value) else
     bind_res (begins false_text value) (\<lambda>is_false.
     if is_false then Ok (Node cJSON_False None 0 0 None [], drop 5 value) else
     bind_res (begins true_text value) (\<lambda>is_true.
     if is_true then Ok (Node cJSON_True None 1 0 None [], drop 4 value) else
     bind_res (first_byte value) (\<lambda>c.
     if c = 34 then bind_res (parse_string value) (\<lambda>(s, rest).
       Ok (Node cJSON_String (Some (c_string s)) 0 0 None [], rest))
     else if c = 45 \<or> is_digit c then bind_res (parse_number fp value) (\<lambda>(d, rest).
       Ok (Node cJSON_Number None (int_of_double d) d None [], rest))
     else if c = 91 then parse_array elements value
     else if c = 123 then parse_object members value
     else Fail))))"

text \<open>One turn of the loop of \<open>parse_array\<close>, whose rest is \<open>further\<close>, and one of that of \<open>parse_object\<close>.\<close>

definition parse_element ::
  "(u8 list \<Rightarrow> (json \<times> u8 list) res) \<Rightarrow> (u8 list \<Rightarrow> (json list \<times> u8 list) res) \<Rightarrow>
   u8 list \<Rightarrow> (json list \<times> u8 list) res" where
  "parse_element val further value =
     bind_res (skip value) (\<lambda>value.
     bind_res (val value) (\<lambda>(item, value).
     bind_res (skip value) (\<lambda>value.
     bind_res (first_byte value) (\<lambda>c.
     if c = 44 then bind_res (further (tl value)) (\<lambda>(items, rest). Ok (item # items, rest))
     else if c = 93 then Ok ([item], tl value)
     else Fail))))"

definition parse_member ::
  "(u8 list \<Rightarrow> (json \<times> u8 list) res) \<Rightarrow> (u8 list \<Rightarrow> (json list \<times> u8 list) res) \<Rightarrow>
   u8 list \<Rightarrow> (json list \<times> u8 list) res" where
  "parse_member val further value =
     bind_res (skip value) (\<lambda>value.
     bind_res (parse_string value) (\<lambda>(name, value).
     bind_res (skip value) (\<lambda>value.
     bind_res (first_byte value) (\<lambda>c. if c \<noteq> 58 then Fail else
     bind_res (skip (tl value)) (\<lambda>value.
     bind_res (val value) (\<lambda>(item, value).
     bind_res (skip value) (\<lambda>value.
     bind_res (first_byte value) (\<lambda>c.
     if c = 44 then bind_res (further (tl value)) (\<lambda>(items, rest).
       Ok (set_jstring (Some (c_string name)) item # items, rest))
     else if c = 125 then Ok ([set_jstring (Some (c_string name)) item], tl value)
     else Fail))))))))"

fun parse_value :: "nat \<Rightarrow> fpu \<Rightarrow> u8 list \<Rightarrow> (json \<times> u8 list) res"
  and parse_elements :: "nat \<Rightarrow> fpu \<Rightarrow> u8 list \<Rightarrow> (json list \<times> u8 list) res"
  and parse_members :: "nat \<Rightarrow> fpu \<Rightarrow> u8 list \<Rightarrow> (json list \<times> u8 list) res" where
  "parse_value 0 fp value = Out_of_fuel"
| "parse_value (Suc n) fp value = parse_any (parse_elements n fp) (parse_members n fp) fp value"
| "parse_elements 0 fp value = Out_of_fuel"
| "parse_elements (Suc n) fp value = parse_element (parse_value n fp) (parse_elements n fp) value"
| "parse_members 0 fp value = Out_of_fuel"
| "parse_members (Suc n) fp value = parse_member (parse_value n fp) (parse_members n fp) value"

text \<open>The result is the tree and the end of the text parsed.\<close>

definition cJSON_ParseWithOpts :: "fpu \<Rightarrow> u8 list \<Rightarrow> bool \<Rightarrow> (json \<times> u8 list) res" where
  "cJSON_ParseWithOpts fp value require_null_terminated =
     bind_res (skip value) (\<lambda>value.
     bind_res (parse_value (2 * length value + 1) fp value) (\<lambda>(c, end).
     if require_null_terminated then
       bind_res (skip end) (\<lambda>end. bind_res (first_byte end) (\<lambda>b.
         if b \<noteq> 0 then Fail else Ok (c, end)))
     else Ok (c, end)))"

definition cJSON_Parse :: "fpu \<Rightarrow> u8 list \<Rightarrow> json res" where
  "cJSON_Parse fp value = bind_res (cJSON_ParseWithOpts fp value False) (\<lambda>(c, _). Ok c)"

section \<open>The printer\<close>

text \<open>The output is a block of \<open>cap\<close> bytes; \<open>put\<close> writes bytes, \<open>put_string\<close> is \<open>strcpy\<close> and writes
  the terminator, too. \<open>end_text\<close> is the text when the block is closed by a terminator.\<close>

definition put :: "nat \<Rightarrow> u8 list \<Rightarrow> u8 list res \<Rightarrow> u8 list res" where
  "put cap bs out = bind_res out (\<lambda>out. emit cap out bs)"

definition put_string :: "nat \<Rightarrow> u8 list \<Rightarrow> u8 list res \<Rightarrow> u8 list res" where
  "put_string cap bs out = bind_res out (\<lambda>out. bind_res (emit cap out (bs @ [0])) (\<lambda>_. Ok (out @ bs)))"

definition compose_array :: "bool \<Rightarrow> u8 list list \<Rightarrow> u8 list res" where
  "compose_array fmt entries =
     (let len = 5 + sum_list (map (\<lambda>ret. length ret + 2 + (if fmt then 1 else 0)) entries);
          n = length entries
      in put_string len [93]
          (fold (\<lambda>(i, e) out.
             let out = put_string len e out
             in if i \<noteq> n - 1 then put_string len (44 # (if fmt then [32] else [])) out else out)
           (zip [0..<n] entries)
           (put_string len [91] (Ok []))))"

definition compose_object :: "nat \<Rightarrow> bool \<Rightarrow> (u8 list \<times> u8 list) list \<Rightarrow> u8 list res" where
  "compose_object depth fmt entries =
     (let len = 7 + (if fmt then depth else 0) +
            sum_list (map (\<lambda>(str, ret). length ret + length str + 2 + (if fmt then 2 + depth else 0)) entries);
          n = length entries
      in put_string len [125] (put len (if fmt then replicate (depth - 1) 9 else [])
          (fold (\<lambda>(i, name, e) out.
             let out = put len (if fmt then replicate depth 9 else []) out;
                 out = put_string len name out;
                 out = put len (58 # (if fmt then [9] else [])) out;
                 out = put_string len e out
             in put_string len ((if i \<noteq> n - 1 then [44] else []) @ (if fmt then [10] else [])) out)
           (zip [0..<n] entries)
           (put_string len (123 # (if fmt then [10] else [])) (Ok [])))))"

text \<open>The entries of an object are all rendered, also behind one that failed.\<close>

fun both_res :: "'a res \<Rightarrow> 'b list res \<Rightarrow> ('a \<Rightarrow> 'b) \<Rightarrow> 'b list res" where
  "both_res (Ok x) rest f = bind_res rest (\<lambda>ys. Ok (f x # ys))"
| "both_res Fail rest f = bind_res rest (\<lambda>ys. Fail)"
| "both_res Fault rest f = Fault"
| "both_res Out_of_fuel rest f = Out_of_fuel"

fun print_value :: "nat \<Rightarrow> bool \<Rightarrow> json \<Rightarrow> u8 list res"
  and print_elements :: "nat \<Rightarrow> bool \<Rightarrow> json list \<Rightarrow> u8 list list res"
  and print_members :: "nat \<Rightarrow> bool \<Rightarrow> json list \<Rightarrow> (u8 list \<times> u8 list) list res" where
  "print_value depth fmt (Node t vs vi vd nm ch) =
     (let type = t mod 256
      in if type = cJSON_NULL then Ok null_text
         else if type = cJSON_False then Ok false_text
         else if type = cJSON_True then Ok true_text
         else if type = cJSON_Number then print_number vi vd
         else if type = cJSON_String then print_string_ptr vs
         else if type = cJSON_Array then
           (if ch = [] then put_string 3 [91, 93] (Ok [])
            else bind_res (print_elements (depth + 1) fmt ch) (compose_array fmt))
         else if type = cJSON_Object then
           (if ch = []
            then put_string (if fmt then depth + 4 else 3)
                   (123 # (if fmt then 10 # replicate (depth - 1) 9 else []) @ [125]) (Ok [])
            else bind_res (print_members (depth + 1) fmt ch) (compose_object (depth + 1) fmt))
         else Fail)"
| "print_elements depth fmt [] = Ok []"
| "print_elements depth fmt (j # js) =
     bind_res (print_value depth fmt j) (\<lambda>e. bind_res (print_elements depth fmt js) (\<lambda>es. Ok (e # es)))"
| "print_members depth fmt [] = Ok []"
| "print_members depth fmt (j # js) =
     (case print_string_ptr (jstring j) of
        Ok name \<Rightarrow> both_res (print_value depth fmt j) (print_members depth fmt js) (\<lambda>e. (name, e))
      | Fail \<Rightarrow> both_res Fail (print_members depth fmt js) (\<lambda>e. ([], e))
      | Fault \<Rightarrow> Fault
      | Out_of_fuel \<Rightarrow> Out_of_fuel)"

declare print_value.simps(1) [simp del]

definition cJSON_Print :: "json \<Rightarrow> u8 list res" where
  "cJSON_Print item = print_value 0 True item"

definition cJSON_PrintUnformatted :: "json \<Rightarrow> u8 list res" where
  "cJSON_PrintUnformatted item = print_value 0 False item"

section \<open>Enough fuel\<close>

text \<open>\<open>shrinks L m\<close>: the parser \<open>m\<close> does not run out of fuel and leaves at most \<open>L\<close> bytes.\<close>

fun shrinks :: "nat \<Rightarrow> ('a \<times> u8 list) res \<Rightarrow> bool" where
  "shrinks L (Ok (x, rest)) \<longleftrightarrow> length rest \<le> L"
| "shrinks L Out_of_fuel \<longleftrightarrow> False"
| "shrinks L Fail \<longleftrightarrow> True"
| "shrinks L Fault \<longleftrightarrow> True"

lemma shrinks_bind:
  assumes "shrinks L m" "\<And>x rest. m = Ok (x, rest) \<Longrightarrow> length rest \<le> L \<Longrightarrow> shrinks K (k (x, rest))"
  shows "shrinks K (bind_res m k)"
  using assms by (cases "(L, m)" rule: shrinks.cases) auto

lemma shrinks_le: "shrinks L m \<Longrightarrow> L \<le> K \<Longrightarrow> shrinks K m"
  by (cases "(L, m)" rule: shrinks.cases) auto

lemma shrinks_bind_pure:
  assumes "m \<noteq> Out_of_fuel" "\<And>x. m = Ok x \<Longrightarrow> shrinks K (k x)"
  shows "shrinks K (bind_res m k)"
  using assms by (cases m) auto

lemma skip_shrinks: "skip v \<noteq> Out_of_fuel" "skip v = Ok r \<Longrightarrow> length r \<le> length v"
  by (induction v) (auto split: if_splits)

lemma begins_total: "begins ls v \<noteq> Out_of_fuel"
  by (induction ls v rule: begins.induct) auto

lemma first_byte_total: "first_byte v \<noteq> Out_of_fuel"
  by (simp add: first_byte_def split: list.splits)

lemma first_byte_Ok: "first_byte v = Ok c \<longleftrightarrow> (\<exists>cs. v = c # cs)"
  by (auto simp: first_byte_def split: list.splits)

lemma emit_total: "emit cap out bs \<noteq> Out_of_fuel"
  by (simp add: emit_def)

lemma decode_shrinks: "shrinks (length v) (decode_string cap v out)"
proof (induction cap v out rule: decode_string.induct)
  case (1 cap out)
  then show ?case by (simp add: decode_string.simps)
next
  case (2 cap c cs out)
  consider "c = 34 \<or> c = 0" | "\<not> (c = 34 \<or> c = 0)" "c \<noteq> 92" | "c = 92" "cs = []" | e cs' where "c = 92" "cs = e # cs'"
    by (metis list.exhaust)
  then show ?case
  proof cases
    case 2
    have "shrinks (length (c # cs)) (decode_string cap cs x)" if "emit cap out [c] = Ok x" for x
      by (rule shrinks_le [OF "2.IH"(1)]) (use 2 that in auto)
    then show ?thesis using 2
      by (auto simp: decode_string.simps(2) emit_total intro!: shrinks_bind_pure)
  next
    case 4
    show ?thesis
    proof (cases "e = 117")
      case False
      have "shrinks (length (c # cs)) (decode_string cap cs' x)" if "emit cap out [unescape e] = Ok x" for x
        by (rule shrinks_le [OF "2.IH"(4)]) (use 4 False that in auto)
      then show ?thesis using 4 False
        by (auto simp: decode_string.simps(2) emit_total intro!: shrinks_bind_pure)
    next
      case True
      have none: "shrinks (length (c # cs)) (decode_string cap p out)" if "parse_unicode cs' = Ok (None, p)" for p
        by (rule shrinks_le [OF "2.IH"(2)]) (use 4 True that parse_unicode_shorter [OF that] in auto)
      have some: "shrinks (length (c # cs)) (decode_string cap p out')"
        if "parse_unicode cs' = Ok (Some uc, p)" "emit cap out (utf8 uc) = Ok out'" for p uc out'
        by (rule shrinks_le [OF "2.IH"(3)]) (use 4 True that parse_unicode_shorter [OF that(1)] in auto)
      show ?thesis using 4 True none some
        by (auto simp: decode_string.simps(2) emit_total split: res.splits option.splits intro!: shrinks_bind_pure)
    qed
  qed (simp_all add: decode_string.simps(2))
qed

lemma parse_string_shrinks: "shrinks (length v) (parse_string v)"
proof (cases v)
  case (Cons q ptr)
  have "shrinks (Suc (length ptr)) (bind_res (decode_string cap ptr [])
      (\<lambda>(out, rest). if length out < cap then Ok (out, if hd rest = 34 then tl rest else rest) else Fault))" for cap
    by (rule shrinks_bind [OF decode_shrinks]) auto
  then show ?thesis by (simp add: parse_string_def Cons split: option.splits)
qed (simp add: parse_string_def)

lemma read_digits_shrinks: "shrinks (length v) (read_digits f a v)"
  by (induction f a v rule: read_digits.induct) (auto intro: shrinks_le)

lemma skip_byte_shrinks: "shrinks (length v) (skip_byte x v)"
  by (cases v) auto

lemma parse_number_shrinks: "shrinks (length v) (parse_number fp v)"
proof -
  have int: "shrinks (length v) (parse_integer fp v)" for v
    by (auto simp: parse_integer_def simp del: read_digits.simps split: list.splits
        intro: read_digits_shrinks [of "_ # _", simplified])
  have frac: "shrinks (length v) (parse_fraction fp n v)" for v n
    by (auto simp: parse_fraction_def simp del: read_digits.simps split: list.splits
        intro: shrinks_le [OF read_digits_shrinks])
  have ex: "shrinks (length v) (parse_exponent v)" for v
    by (auto simp: parse_exponent_def split: list.splits
        intro!: shrinks_bind [OF skip_byte_shrinks] shrinks_bind [OF read_digits_shrinks]
          shrinks_bind [where m = "if _ then _ else _"] intro: shrinks_le [OF skip_byte_shrinks])
  show ?thesis
    unfolding parse_number_def
    by (auto intro!: shrinks_bind [OF skip_byte_shrinks] shrinks_bind [OF int] shrinks_bind [OF frac] shrinks_bind [OF ex]
        split: prod.splits)
qed

lemma skip_bind_shrinks:
  "(\<And>r. length r \<le> length v \<Longrightarrow> shrinks K (k r)) \<Longrightarrow> shrinks K (bind_res (skip v) k)"
  by (rule shrinks_bind_pure) (auto simp: skip_shrinks)

lemma first_byte_bind_shrinks:
  "(\<And>c cs. v = c # cs \<Longrightarrow> shrinks K (k c)) \<Longrightarrow> shrinks K (bind_res (first_byte v) k)"
  by (rule shrinks_bind_pure) (auto simp: first_byte_total first_byte_Ok)

lemma peek_shrinks:
  "(\<And>c. shrinks K (k c)) \<Longrightarrow> shrinks K (bind_res (first_byte v) k)"
  by (rule first_byte_bind_shrinks)

lemma begins_bind_shrinks:
  "(\<And>b. shrinks K (k b)) \<Longrightarrow> shrinks K (bind_res (begins ls v) k)"
  by (rule shrinks_bind_pure) (auto simp: begins_total)

lemma parse_any_shrinks:
  assumes "\<And>r. length r < length v \<Longrightarrow> shrinks (length r) (elements r)"
    and "\<And>r. length r < length v \<Longrightarrow> shrinks (length r) (members r)"
  shows "shrinks (length v) (parse_any elements members fp v)"
proof -
  have arr: "shrinks (length v) (parse_array elements v)"
    unfolding parse_array_def
    by (intro first_byte_bind_shrinks) (auto intro!: first_byte_bind_shrinks skip_bind_shrinks
        shrinks_bind [where L = "length v"] shrinks_le [OF assms(1)])
  have obj: "shrinks (length v) (parse_object members v)"
    unfolding parse_object_def
    by (intro first_byte_bind_shrinks) (auto intro!: first_byte_bind_shrinks skip_bind_shrinks
        shrinks_bind [where L = "length v"] shrinks_le [OF assms(2)])
  show ?thesis
    unfolding parse_any_def
    by (auto intro!: begins_bind_shrinks peek_shrinks arr obj
        shrinks_bind [OF parse_string_shrinks] shrinks_bind [OF parse_number_shrinks])
qed

lemma parse_element_shrinks:
  assumes "\<And>r. length r \<le> length v \<Longrightarrow> shrinks (length r) (val r)"
    and "\<And>r. length r < length v \<Longrightarrow> shrinks (length r) (further r)"
  shows "shrinks (length v) (parse_element val further v)"
  unfolding parse_element_def
  by (auto intro!: skip_bind_shrinks first_byte_bind_shrinks shrinks_bind [where L = "length v"]
      shrinks_le [OF assms(1)] shrinks_le [OF assms(2)])

lemma parse_member_shrinks:
  assumes "\<And>r. length r \<le> length v \<Longrightarrow> shrinks (length r) (val r)"
    and "\<And>r. length r < length v \<Longrightarrow> shrinks (length r) (further r)"
  shows "shrinks (length v) (parse_member val further v)"
  unfolding parse_member_def
  by (auto intro!: skip_bind_shrinks first_byte_bind_shrinks shrinks_bind [where L = "length v"]
      shrinks_le [OF assms(1)] shrinks_le [OF assms(2)] shrinks_le [OF parse_string_shrinks])

lemma enough_fuel:
  "2 * length v < n \<Longrightarrow> shrinks (length v) (parse_value n fp v)"
  "2 * length v + 1 < n \<Longrightarrow> shrinks (length v) (parse_elements n fp v)"
  "2 * length v + 1 < n \<Longrightarrow> shrinks (length v) (parse_members n fp v)"
proof (induction n fp v and n fp v and n fp v rule: parse_value_parse_elements_parse_members.induct)
  case (2 n fp v)
  then show ?case by (simp only: parse_value.simps) (intro parse_any_shrinks; simp)
next
  case (4 n fp v)
  then show ?case by (simp only: parse_elements.simps) (intro parse_element_shrinks; simp)
next
  case (6 n fp v)
  then show ?case by (simp only: parse_members.simps) (intro parse_member_shrinks; simp)
qed simp_all

text \<open>C38: The parser ends: for every text, \<open>cJSON_ParseWithOpts\<close> gives a tree, a failure or a fault with
  the fuel it is given, never the lack of it, and a tree leaves no more text than there was.\<close>

theorem cJSON_Parse_ends:
  "cJSON_Parse fp value \<noteq> Out_of_fuel \<and> shrinks (length value) (cJSON_ParseWithOpts fp value opts)"
proof -
  have "shrinks (length value) (cJSON_ParseWithOpts fp value opts)" for opts
    unfolding cJSON_ParseWithOpts_def
    by (auto intro!: skip_bind_shrinks first_byte_bind_shrinks shrinks_bind [where L = "length value"]
        shrinks_le [OF enough_fuel(1)] split: prod.splits simp del: parse_value.simps)
  then have all: "shrinks (length value) (cJSON_ParseWithOpts fp value opts)" for opts .
  have "bind_res m (\<lambda>(c, _). Ok c) \<noteq> Out_of_fuel" if "shrinks L m" for m :: "(json \<times> u8 list) res" and L
    using that by (cases m) auto
  then show ?thesis using all unfolding cJSON_Parse_def by blast
qed

section \<open>More fuel\<close>

text \<open>The flat order with \<open>Out_of_fuel\<close> at the bottom.\<close>

definition below :: "'a res \<Rightarrow> 'a res \<Rightarrow> bool" where
  "below r r' \<longleftrightarrow> r = Out_of_fuel \<or> r' = r"

lemma below_refl [simp]: "below r r"
  by (simp add: below_def)

lemma below_bind: "below m m' \<Longrightarrow> (\<And>x. below (k x) (k' x)) \<Longrightarrow> below (bind_res m k) (bind_res m' k')"
  by (cases m) (auto simp: below_def)

lemma below_step:
  assumes "\<And>r. below (val r) (val' r)" "\<And>r. below (e r) (e' r)" "\<And>r. below (m r) (m' r)"
  shows "below (parse_any e m fp v) (parse_any e' m' fp v)"
    and "below (parse_element val e v) (parse_element val' e' v)"
    and "below (parse_member val m v) (parse_member val' m' v)"
  using assms
  by (auto simp: parse_any_def parse_array_def parse_object_def parse_element_def parse_member_def
      intro!: below_bind split: prod.splits)

lemma below_Suc:
  "below (parse_value n fp v) (parse_value (Suc n) fp v)"
  "below (parse_elements n fp v) (parse_elements (Suc n) fp v)"
  "below (parse_members n fp v) (parse_members (Suc n) fp v)"
proof (induction n arbitrary: v)
  case (Suc n)
  { case 1 show ?case by (subst (1 2) parse_value.simps) (rule below_step(1); rule Suc) }
  { case 2 show ?case by (subst (1 2) parse_elements.simps) (rule below_step(2); rule Suc) }
  { case 3 show ?case by (subst (1 2) parse_members.simps) (rule below_step(3); rule Suc) }
qed (simp_all add: below_def)

lemma more_fuel:
  assumes "n \<le> m" "parse_value n fp v \<noteq> Out_of_fuel"
  shows "parse_value m fp v = parse_value n fp v"
  using assms(1)
proof (induction rule: dec_induct)
  case (step k)
  then show ?case using below_Suc(1) [of k fp v] assms(2) by (simp add: below_def)
qed simp

lemma parse_value_settled:
  assumes "parse_value n fp v = Ok x"
  shows "parse_value (2 * length v + 1) fp v = Ok x"
proof (cases "n \<le> 2 * length v + 1")
  case True
  then show ?thesis using more_fuel [OF True, of fp v] assms by simp
next
  case False
  have "parse_value (2 * length v + 1) fp v \<noteq> Out_of_fuel"
    using enough_fuel(1) [of v "2 * length v + 1" fp] by auto
  then show ?thesis using more_fuel [of "2 * length v + 1" n fp v] False assms by simp
qed

end
