(* ===== verification/Json_Items.thy ===== *)
theory Json_Items
  imports Json
begin

text \<open>
  The tree operations of comm/cJSON.c: constructors, access by index and by name, insertion,
  removal, replacement and duplication. A pointer that may be null is
  an option; what an operation frees is not in its result.
\<close>

section \<open>Names\<close>

definition tolower_byte :: "u8 \<Rightarrow> u8" where
  "tolower_byte c = (if 65 \<le> c \<and> c \<le> 90 then c + 32 else c)"

fun strcasecmp_from :: "u8 list \<Rightarrow> u8 list \<Rightarrow> int" where
  "strcasecmp_from [] [] = 0"
| "strcasecmp_from [] (d # ds) = - uint (tolower_byte d)"
| "strcasecmp_from (c # cs) [] = uint (tolower_byte c)"
| "strcasecmp_from (c # cs) (d # ds) =
     (if tolower_byte c = tolower_byte d then strcasecmp_from cs ds
      else uint (tolower_byte c) - uint (tolower_byte d))"

fun cJSON_strcasecmp :: "u8 list option \<Rightarrow> u8 list option \<Rightarrow> int" where
  "cJSON_strcasecmp None s2 = (if s2 = None then 0 else 1)"
| "cJSON_strcasecmp (Some s1) None = 1"
| "cJSON_strcasecmp (Some s1) (Some s2) = strcasecmp_from s1 s2"

section \<open>Constructors\<close>

definition cJSON_CreateNull :: json where
  "cJSON_CreateNull = set_jtype cJSON_NULL cJSON_New_Item"

definition cJSON_CreateTrue :: json where
  "cJSON_CreateTrue = set_jtype cJSON_True cJSON_New_Item"

definition cJSON_CreateFalse :: json where
  "cJSON_CreateFalse = set_jtype cJSON_False cJSON_New_Item"

definition cJSON_CreateBool :: "int \<Rightarrow> json" where
  "cJSON_CreateBool b = set_jtype (if b \<noteq> 0 then cJSON_True else cJSON_False) cJSON_New_Item"

definition cJSON_CreateNumber :: "real \<Rightarrow> json" where
  "cJSON_CreateNumber num = Node cJSON_Number None (int_of_double num) num None []"

definition cJSON_CreateString :: "u8 list \<Rightarrow> json" where
  "cJSON_CreateString s = Node cJSON_String (Some s) 0 0 None []"

definition cJSON_CreateArray :: json where
  "cJSON_CreateArray = set_jtype cJSON_Array cJSON_New_Item"

definition cJSON_CreateObject :: json where
  "cJSON_CreateObject = set_jtype cJSON_Object cJSON_New_Item"

definition cJSON_CreateIntArray :: "int list \<Rightarrow> json" where
  "cJSON_CreateIntArray numbers = set_child (map (\<lambda>n. cJSON_CreateNumber (of_int n)) numbers) cJSON_CreateArray"

definition cJSON_CreateDoubleArray :: "real list \<Rightarrow> json" where
  "cJSON_CreateDoubleArray numbers = set_child (map cJSON_CreateNumber numbers) cJSON_CreateArray"

definition cJSON_CreateStringArray :: "u8 list list \<Rightarrow> json" where
  "cJSON_CreateStringArray strings = set_child (map cJSON_CreateString strings) cJSON_CreateArray"

section \<open>Access\<close>

definition cJSON_GetArraySize :: "json \<Rightarrow> int" where
  "cJSON_GetArraySize array = int (length (child array))"

text \<open>The walk \<open>while (c && item > 0) item--, c = c->next\<close>.\<close>

fun walk_children :: "json list \<Rightarrow> int \<Rightarrow> json option" where
  "walk_children [] item = None"
| "walk_children (c # cs) item = (if item > 0 then walk_children cs (item - 1) else Some c)"

definition cJSON_GetArrayItem :: "json \<Rightarrow> int \<Rightarrow> json option" where
  "cJSON_GetArrayItem array item = walk_children (child array) item"

fun find_child :: "json list \<Rightarrow> u8 list option \<Rightarrow> json option" where
  "find_child [] s = None"
| "find_child (c # cs) s = (if cJSON_strcasecmp (jstring c) s \<noteq> 0 then find_child cs s else Some c)"

definition cJSON_GetObjectItem :: "json \<Rightarrow> u8 list \<Rightarrow> json option" where
  "cJSON_GetObjectItem obj s = find_child (child obj) (Some s)"

section \<open>Changes\<close>

definition cJSON_AddItemToArray :: "json \<Rightarrow> json option \<Rightarrow> json" where
  "cJSON_AddItemToArray array item =
     (case item of None \<Rightarrow> array | Some i \<Rightarrow> set_child (child array @ [i]) array)"

definition cJSON_AddItemToObject :: "json \<Rightarrow> u8 list \<Rightarrow> json option \<Rightarrow> json" where
  "cJSON_AddItemToObject obj s item =
     (case item of None \<Rightarrow> obj | Some i \<Rightarrow> cJSON_AddItemToArray obj (Some (set_jstring (Some s) i)))"

fun detach :: "json list \<Rightarrow> int \<Rightarrow> json option \<times> json list" where
  "detach [] which = (None, [])"
| "detach (c # cs) which =
     (if which > 0 then (let (d, ds) = detach cs (which - 1) in (d, c # ds)) else (Some c, cs))"

definition cJSON_DetachItemFromArray :: "json \<Rightarrow> int \<Rightarrow> json option \<times> json" where
  "cJSON_DetachItemFromArray array which =
     (let (c, cs) = detach (child array) which in (c, set_child cs array))"

definition cJSON_DeleteItemFromArray :: "json \<Rightarrow> int \<Rightarrow> json" where
  "cJSON_DeleteItemFromArray array which = snd (cJSON_DetachItemFromArray array which)"

text \<open>The index of the first child of a name; the length of the list when there is none.\<close>

fun index_of :: "json list \<Rightarrow> u8 list \<Rightarrow> nat" where
  "index_of [] s = 0"
| "index_of (c # cs) s = (if cJSON_strcasecmp (jstring c) (Some s) \<noteq> 0 then Suc (index_of cs s) else 0)"

definition cJSON_DetachItemFromObject :: "json \<Rightarrow> u8 list \<Rightarrow> json option \<times> json" where
  "cJSON_DetachItemFromObject obj s =
     (let i = index_of (child obj) s
      in if i < length (child obj) then cJSON_DetachItemFromArray obj (int i) else (None, obj))"

definition cJSON_DeleteItemFromObject :: "json \<Rightarrow> u8 list \<Rightarrow> json" where
  "cJSON_DeleteItemFromObject obj s = snd (cJSON_DetachItemFromObject obj s)"

fun replace_child :: "json list \<Rightarrow> int \<Rightarrow> json \<Rightarrow> json list" where
  "replace_child [] which new = []"
| "replace_child (c # cs) which new =
     (if which > 0 then c # replace_child cs (which - 1) new else new # cs)"

definition cJSON_ReplaceItemInArray :: "json \<Rightarrow> int \<Rightarrow> json \<Rightarrow> json" where
  "cJSON_ReplaceItemInArray array which new = set_child (replace_child (child array) which new) array"

definition cJSON_ReplaceItemInObject :: "json \<Rightarrow> u8 list \<Rightarrow> json \<Rightarrow> json" where
  "cJSON_ReplaceItemInObject obj s new =
     (let i = index_of (child obj) s
      in if i < length (child obj) then cJSON_ReplaceItemInArray obj (int i) (set_jstring (Some s) new) else obj)"

text \<open>The type loses the bit \<open>cJSON_IsReference\<close>, 256.\<close>

fun cJSON_Duplicate :: "json \<Rightarrow> bool \<Rightarrow> json" where
  "cJSON_Duplicate (Node t vs vi vd nm ch) recurse =
     Node (if odd (t div 256) then t - 256 else t) vs vi vd nm
       (if recurse then map (\<lambda>c. cJSON_Duplicate c True) ch else [])"

section \<open>Objects as maps\<close>

lemma tolower_nonzero: "tolower_byte c = 0 \<longleftrightarrow> c = 0"
proof -
  have "c + 32 \<noteq> 0" if "c \<le> 90"
  proof
    assume "c + 32 = 0"
    then have "c = - 32" by (simp add: eq_neg_iff_add_eq_0)
    then have "c = 224" by simp
    with that show False by simp
  qed
  then show ?thesis by (auto simp: tolower_byte_def)
qed

lemma strcasecmp_from_0:
  "0 \<notin> set s \<Longrightarrow> 0 \<notin> set t \<Longrightarrow> strcasecmp_from s t = 0 \<longleftrightarrow> map tolower_byte s = map tolower_byte t"
proof (induction s t rule: strcasecmp_from.induct)
  case (2 d ds)
  then show ?case using tolower_nonzero [of d] by (auto simp: uint_0_iff)
next
  case (3 c cs)
  then show ?case using tolower_nonzero [of c] by (auto simp: uint_0_iff)
next
  case (4 c cs d ds)
  then show ?case by (auto simp: word_uint_eq_iff)
qed simp

lemma find_child_append:
  "find_child (xs @ ys) s = (case find_child xs s of Some c \<Rightarrow> Some c | None \<Rightarrow> find_child ys s)"
  by (induction xs) auto

lemma child_set_child [simp]: "child (set_child ch j) = ch"
  by (cases j) simp

lemma jstring_set_jstring [simp]: "jstring (set_jstring nm j) = nm"
  by (cases j) simp

lemma find_child_index:
  "find_child cs (Some s) = (if index_of cs s < length cs then Some (cs ! index_of cs s) else None)"
  by (induction cs) auto

lemma detach_nth:
  "detach cs (int i) = (if i < length cs then (Some (cs ! i), take i cs @ drop (Suc i) cs) else (None, cs))"
proof (induction cs arbitrary: i)
  case (Cons c cs)
  then show ?case by (cases i) (auto simp: Let_def split: prod.splits)
qed simp

lemma lookup_after_add:
  assumes "0 \<notin> set s" "0 \<notin> set t"
  shows "cJSON_GetObjectItem (cJSON_AddItemToObject obj s (Some item)) t =
      (case cJSON_GetObjectItem obj t of
         Some c \<Rightarrow> Some c
       | None \<Rightarrow> if map tolower_byte s = map tolower_byte t then Some (set_jstring (Some s) item) else None)"
  using strcasecmp_from_0 [OF assms]
  by (simp add: cJSON_GetObjectItem_def cJSON_AddItemToObject_def cJSON_AddItemToArray_def find_child_append
      split: option.split)

text \<open>The interface of an object to the code that fills and reads it: keys that count, a sameness of keys,
  and first insertion wins. \<open>tag\<close> is what the insertion makes of the value.\<close>

locale first_wins =
  fixes lookup :: "'o \<Rightarrow> 'k \<Rightarrow> 'v option" and add :: "'o \<Rightarrow> 'k \<Rightarrow> 'v \<Rightarrow> 'o"
    and same :: "'k \<Rightarrow> 'k \<Rightarrow> bool" and tag :: "'k \<Rightarrow> 'v \<Rightarrow> 'v" and key :: "'k \<Rightarrow> bool"
  assumes lookup_add: "key k \<Longrightarrow> key k' \<Longrightarrow> lookup (add obj k v) k' =
    (case lookup obj k' of Some c \<Rightarrow> Some c | None \<Rightarrow> if same k k' then Some (tag k v) else None)"
begin

lemma lookup_filled:
  "key k' \<Longrightarrow> \<forall>(k, v)\<in>set kvs. key k \<Longrightarrow>
    lookup (fold (\<lambda>(k, v) obj. add obj k v) kvs obj) k' =
      (case lookup obj k' of Some c \<Rightarrow> Some c
       | None \<Rightarrow> map_option (\<lambda>(k, v). tag k v) (find (\<lambda>(k, v). same k k') kvs))"
  by (induction kvs arbitrary: obj) (auto simp: lookup_add split: option.split)

end

definition add_item :: "json \<Rightarrow> u8 list \<Rightarrow> json \<Rightarrow> json" where
  "add_item obj s item = cJSON_AddItemToObject obj s (Some item)"

interpretation json_object: first_wins cJSON_GetObjectItem add_item
  "\<lambda>s t. map tolower_byte s = map tolower_byte t" "\<lambda>s. set_jstring (Some s)" "\<lambda>s. 0 \<notin> set s"
  by unfold_locales (unfold add_item_def, rule lookup_after_add)

text \<open>Objects are maps from names, case ignored, to items: what \<open>cJSON_AddItemToObject\<close> adds is found
  under every name that differs in the case of letters only, unless an older item of such a name
  hides it; \<open>cJSON_DetachItemFromObject\<close> takes out just the item that \<open>cJSON_GetObjectItem\<close> finds.\<close>

theorem cJSON_object_map:
  assumes "0 \<notin> set s" "0 \<notin> set t"
  shows "cJSON_GetObjectItem (cJSON_AddItemToObject obj s (Some item)) t =
      (case cJSON_GetObjectItem obj t of
         Some c \<Rightarrow> Some c
       | None \<Rightarrow> if map tolower_byte s = map tolower_byte t then Some (set_jstring (Some s) item) else None) \<and>
    fst (cJSON_DetachItemFromObject obj t) = cJSON_GetObjectItem obj t \<and>
    (case cJSON_GetObjectItem obj t of
       None \<Rightarrow> snd (cJSON_DetachItemFromObject obj t) = obj
     | Some c \<Rightarrow> \<exists>xs ys. child obj = xs @ c # ys \<and> find_child xs (Some t) = None \<and>
         child (snd (cJSON_DetachItemFromObject obj t)) = xs @ ys)"
proof (intro conjI)
  show "cJSON_GetObjectItem (cJSON_AddItemToObject obj s (Some item)) t =
      (case cJSON_GetObjectItem obj t of
         Some c \<Rightarrow> Some c
       | None \<Rightarrow> if map tolower_byte s = map tolower_byte t then Some (set_jstring (Some s) item) else None)"
    by (rule lookup_after_add [OF assms])
next
  show "fst (cJSON_DetachItemFromObject obj t) = cJSON_GetObjectItem obj t"
    by (simp add: cJSON_DetachItemFromObject_def cJSON_DetachItemFromArray_def cJSON_GetObjectItem_def
        find_child_index detach_nth Let_def)
next
  define i where "i = index_of (child obj) t"
  have none: "find_child (take i cs) (Some t) = None" if "i = index_of cs t" for i cs
    using that by (induction cs arbitrary: i) auto
  show "case cJSON_GetObjectItem obj t of
       None \<Rightarrow> snd (cJSON_DetachItemFromObject obj t) = obj
     | Some c \<Rightarrow> \<exists>xs ys. child obj = xs @ c # ys \<and> find_child xs (Some t) = None \<and>
         child (snd (cJSON_DetachItemFromObject obj t)) = xs @ ys"
  proof (cases "i < length (child obj)")
    case True
    then have "child obj = take i (child obj) @ child obj ! i # drop (Suc i) (child obj)" by (rule id_take_nth_drop)
    moreover have "cJSON_GetObjectItem obj t = Some (child obj ! i)"
      using True by (simp add: cJSON_GetObjectItem_def find_child_index flip: i_def)
    moreover have "child (snd (cJSON_DetachItemFromObject obj t)) = take i (child obj) @ drop (Suc i) (child obj)"
      using True by (simp add: cJSON_DetachItemFromObject_def cJSON_DetachItemFromArray_def detach_nth Let_def flip: i_def)
    ultimately show ?thesis using none [OF i_def] by fastforce
  next
    case False
    then show ?thesis
      by (simp add: cJSON_DetachItemFromObject_def cJSON_GetObjectItem_def find_child_index Let_def flip: i_def)
  qed
qed

theorem cJSON_object_map_witness:
  "cJSON_GetObjectItem (cJSON_AddItemToObject cJSON_CreateObject [104, 111] (Some cJSON_CreateNull)) [72, 111] =
      (case cJSON_GetObjectItem cJSON_CreateObject [72, 111] of
         Some c \<Rightarrow> Some c
       | None \<Rightarrow> if map tolower_byte [104, 111] = map tolower_byte [72, 111]
           then Some (set_jstring (Some [104, 111]) cJSON_CreateNull) else None) \<and>
    fst (cJSON_DetachItemFromObject cJSON_CreateObject [72, 111]) = cJSON_GetObjectItem cJSON_CreateObject [72, 111] \<and>
    (case cJSON_GetObjectItem cJSON_CreateObject [72, 111] of
       None \<Rightarrow> snd (cJSON_DetachItemFromObject cJSON_CreateObject [72, 111]) = cJSON_CreateObject
     | Some c \<Rightarrow> \<exists>xs ys. child cJSON_CreateObject = xs @ c # ys \<and> find_child xs (Some [72, 111]) = None \<and>
         child (snd (cJSON_DetachItemFromObject cJSON_CreateObject [72, 111])) = xs @ ys)"
  by (rule cJSON_object_map) simp_all

end
