(* ===== verification/Monitor.thy ===== *)
theory Monitor
  imports Comm Json_Items
begin

text \<open>
  The state of the server process (program/main.c, the list of missions, the test environment, the
  feedback list of ui/ui.c) and the control of the ping monitor, monitor/monitor.c. What the
  operating system answers is a parameter of type \<open>platform\<close>, free to differ from call to call. A
  dereferenced null pointer and a write behind an array are a \<open>Trap\<close>. The lists are given by
  their entries, in order; the locks are held by one thread at a time and are left out.
\<close>

text \<open>\<open>MISSION\<close>: the type is whatever integer the client sent.\<close>

record mission =
  m_name :: "u8 list"
  m_type :: int
  m_status :: mission_status
  m_param :: json

record feedback =
  fb_seq :: int
  fb_triptime :: "u8 list"
  fb_error :: "u8 list"

text \<open>What goes out on a connection: a websocket text frame, a reply header, reply data.\<close>

datatype sent = Frame "u8 list" | Header "u8 list" "u8 list" | Data "u8 list"

record server =
  missions :: "mission list"
  feedbacks :: "feedback list"
  srv_env :: "ENV option"
  srv_running :: "running_mission option"
  ping_tid :: int
  ping_targets :: "u8 list list"
  sent_out :: "(nat \<times> sent) list"

text \<open>
  \<open>memory\<close>: does \<open>malloc\<close> succeed; \<open>debug_log\<close>: does the log format its debug messages;
  \<open>thread_gone\<close>: does \<open>pthread_kill(tid, 0)\<close> answer \<open>ESRCH\<close>; \<open>kill_result\<close>: the answer to the
  \<open>SIGINT\<close>; \<open>new_tid\<close>: what \<open>pthread_create\<close> stores; \<open>no_value\<close>: the value of a call whose function
  ended without one; \<open>wild_origin\<close>: the string an uninitialised pointer points to, if any.
\<close>

record platform =
  fp :: fpu
  memory :: bool
  debug_log :: bool
  thread_gone :: "int \<Rightarrow> bool"
  kill_result :: int
  new_tid :: int
  no_value :: int
  wild_origin :: "u8 list option"

text \<open>A call: the continuation gets the value returned, or \<open>g\<close> when the callee ran off its end.\<close>

fun call_with :: "'a \<Rightarrow> ('a, 's) flow \<Rightarrow> ('a \<Rightarrow> 's \<Rightarrow> ('b, 's) flow) \<Rightarrow> ('b, 's) flow" where
  "call_with g (Next s) k = k g s"
| "call_with g (Return r s) k = k r s"
| "call_with g (Exit c s) k = Exit c s"
| "call_with g (Trap s) k = Trap s"

section \<open>monitor.c\<close>

datatype monitor_type = M_PING | M_ARP

datatype monitor_ctl_type = M_START | M_STOP

abbreviation (input) "M_FINE \<equiv> 0 :: int"
abbreviation (input) "M_ERROR \<equiv> 1 :: int"

fun count_running :: "mission list \<Rightarrow> int" where
  "count_running [] = 0"
| "count_running (e # es) = (if m_status e = RUNNING then 1 else 0) + count_running es"

definition check_mission_queue :: "server \<Rightarrow> int" where
  "check_mission_queue s = count_running (missions s)"

definition check_monitor_running :: "platform \<Rightarrow> monitor_type \<Rightarrow> server \<Rightarrow> bool" where
  "check_monitor_running p t s \<longleftrightarrow>
     ping_tid s \<noteq> 0 \<and> t = M_PING \<and> \<not> thread_gone p (ping_tid s)"

text \<open>The thread started: \<open>strcpy\<close> of the 16 bytes it was given into an array of 16, then \<open>ping_main\<close>
  with the string. \<open>None\<close> is the read and write behind the arrays when no terminator is among
  them.\<close>

definition ping_thread :: "u8 list \<Rightarrow> u8 list option" where
  "ping_thread target = (if 0 \<in> set target then Some (takeWhile (\<lambda>c. c \<noteq> 0) target) else None)"

text \<open>\<open>start_ping\<close> ends without a \<open>return\<close>.\<close>

definition start_ping :: "platform \<Rightarrow> u8 list option \<Rightarrow> server \<Rightarrow> (int, server) flow" where
  "start_ping p target s =
     (case target of
        None \<Rightarrow> Return M_ERROR s
      | Some bytes \<Rightarrow>
          if \<not> memory p then Trap s
          else (let t = bytes
                in Next (s\<lparr>ping_tid := new_tid p, ping_targets := ping_targets s @ [t]\<rparr>)))"

definition stop_ping :: "platform \<Rightarrow> server \<Rightarrow> (int, server) flow" where
  "stop_ping p s = (let ret = kill_result p in if ret \<noteq> 0 then Return M_ERROR s else Return M_FINE s)"

definition start_arp :: "server \<Rightarrow> (int, server) flow" where
  "start_arp s = Next s"

definition stop_arp :: "server \<Rightarrow> (int, server) flow" where
  "stop_arp s = Next s"

text \<open>A \<open>return f();\<close>: the value of \<open>f\<close>, or none when it has none.\<close>

definition monitor_ctrl :: "platform \<Rightarrow> monitor_ctl_type \<Rightarrow> monitor_type \<Rightarrow> server \<Rightarrow> (int, server) flow" where
  "monitor_ctrl p ct t s =
     (case ct of
        M_START \<Rightarrow>
          if check_monitor_running p t s then Return M_FINE s
          else (case srv_env s of
                  None \<Rightarrow> Trap s
                | Some e \<Rightarrow>
                    (let target = target1 e
                     in case t of M_PING \<Rightarrow> start_ping p (Some target) s | M_ARP \<Rightarrow> start_arp s))
      | M_STOP \<Rightarrow>
          if check_monitor_running p t s then
            (if check_mission_queue s > 0 then Return M_FINE s
             else (case t of M_PING \<Rightarrow> stop_ping p s | M_ARP \<Rightarrow> stop_arp s))
          else Return M_ERROR s)"

section \<open>What the monitor control does\<close>

lemma count_running_pos: "count_running ms > 0 \<longleftrightarrow> (\<exists>m\<in>set ms. m_status m = RUNNING)"
proof -
  have nonneg: "0 \<le> count_running ms" for ms by (induction ms) simp_all
  show ?thesis
  proof (induction ms)
    case (Cons m ms)
    then show ?case using nonneg [of ms] by auto
  qed simp
qed

definition monitored :: "platform \<Rightarrow> server \<Rightarrow> bool" where
  "monitored p s \<longleftrightarrow> check_monitor_running p M_PING s"

text \<open>The monitor control as a switch. Starting is idempotent while the ping thread lives and starts
  one thread with the address of the first target otherwise; stopping keeps the thread while any
  mission runs, is an error when there is no thread, and sends one signal otherwise. The value of a
  start that creates a thread is not defined.\<close>

theorem monitor_ctrl_switch:
  assumes "memory p" "srv_env s = Some e"
  shows "monitor_ctrl p M_START M_PING s =
      (if monitored p s then Return M_FINE s
       else Next (s\<lparr>ping_tid := new_tid p, ping_targets := ping_targets s @ [target1 e]\<rparr>)) \<and>
    monitor_ctrl p M_STOP M_PING s =
      (if \<not> monitored p s then Return M_ERROR s
       else if \<exists>m\<in>set (missions s). m_status m = RUNNING then Return M_FINE s
       else Return (if kill_result p = 0 then M_FINE else M_ERROR) s)"
  using assms
  by (simp add: monitor_ctrl_def start_ping_def stop_ping_def monitored_def check_mission_queue_def count_running_pos Let_def)

definition quiet_server :: server where
  "quiet_server = \<lparr>missions = [], feedbacks = [], srv_env = Some ENV_zero, srv_running = Some running_zero,
     ping_tid = 0, ping_targets = [], sent_out = []\<rparr>"

definition lab_platform :: platform where
  "lab_platform = \<lparr>fp = \<lparr>fp_round = (\<lambda>x. x), fp_pow10 = power10\<rparr>, memory = True, debug_log = False,
     thread_gone = (\<lambda>tid. False), kill_result = 0, new_tid = 7, no_value = 0, wild_origin = None\<rparr>"

theorem monitor_ctrl_switch_witness:
  "monitor_ctrl lab_platform M_START M_PING quiet_server =
      (if monitored lab_platform quiet_server then Return M_FINE quiet_server
       else Next (quiet_server\<lparr>ping_tid := new_tid lab_platform,
         ping_targets := ping_targets quiet_server @ [target1 ENV_zero]\<rparr>)) \<and>
    monitor_ctrl lab_platform M_STOP M_PING quiet_server =
      (if \<not> monitored lab_platform quiet_server then Return M_ERROR quiet_server
       else if \<exists>m\<in>set (missions quiet_server). m_status m = RUNNING then Return M_FINE quiet_server
       else Return (if kill_result lab_platform = 0 then M_FINE else M_ERROR) quiet_server)"
  by (rule monitor_ctrl_switch) (simp_all add: lab_platform_def quiet_server_def)

end
