(* ===== verification/Ui.thy ===== *)
theory Ui
  imports Monitor
begin

text \<open>
  ui/ui.c: the feedback of the ping monitor, the control of missions, the request handlers behind
  \<open>/mission\<close>, \<open>/env\<close>, \<open>/runner\<close>, \<open>/scan\<close> and \<open>/setup\<close>, and the callback that pushes feedback to the
  clients. A request body is the block of its bytes, which the code copies without a terminator.
\<close>

definition ascii :: "string \<Rightarrow> u8 list" where
  "ascii s = map (\<lambda>c. of_nat (of_char c)) s"

text \<open>A connection of the web server: body, header \<open>Origin\<close>, kind.\<close>

record connection =
  conn_id :: nat
  content :: "u8 list"
  is_websocket :: bool
  origin_header :: "u8 list option"

definition send_to :: "connection \<Rightarrow> sent list \<Rightarrow> server \<Rightarrow> server" where
  "send_to conn xs s = s\<lparr>sent_out := sent_out s @ map (Pair (conn_id conn)) xs\<rparr>"

section \<open>Feedback\<close>

text \<open>\<open>%0wld\<close>; division and remainder truncate.\<close>

definition sprintf_0d :: "nat \<Rightarrow> int \<Rightarrow> u8 list" where
  "sprintf_0d w n =
     (if n < 0 then 45 # replicate (w - 1 - length (decimal (nat (- n)))) 48 @ decimal (nat (- n))
      else replicate (w - length (decimal (nat n))) 48 @ decimal (nat n))"

definition triptime_text :: "int \<Rightarrow> u8 list" where
  "triptime_text tt =
     (if tt \<ge> 100000 then sprintf_d (tt sdiv 1000)
      else if tt \<ge> 10000 then sprintf_d (tt sdiv 1000) @ 46 # sprintf_0d 1 ((tt smod 1000) sdiv 100)
      else if tt \<ge> 1000 then sprintf_d (tt sdiv 1000) @ 46 # sprintf_0d 2 ((tt smod 1000) sdiv 10)
      else sprintf_d (tt sdiv 1000) @ 46 # sprintf_0d 3 (tt smod 1000))"

definition Feedback :: "platform \<Rightarrow> int \<Rightarrow> int \<Rightarrow> u8 list option \<Rightarrow> server \<Rightarrow> (unit, server) flow" where
  "Feedback p seq triptime error s =
     (if \<not> memory p then Trap s
      else if triptime = 0 \<and> error = None then Return () s
      else (let tt = (if triptime \<noteq> 0 then triptime_text triptime else []);
                er = (case error of None \<Rightarrow> [] | Some e \<Rightarrow> e)
            in if length tt \<ge> 32 \<or> length er \<ge> 64 then Trap s
               else Next (s\<lparr>feedbacks := feedbacks s @
                 [\<lparr>fb_seq = to_s32 seq, fb_triptime = tt, fb_error = er\<rparr>]\<rparr>)))"

section \<open>Missions\<close>

fun set_first_status :: "int \<Rightarrow> mission_status \<Rightarrow> mission list \<Rightarrow> bool \<times> mission list" where
  "set_first_status t st [] = (False, [])"
| "set_first_status t st (e # es) =
     (if m_type e = t then (True, e\<lparr>m_status := st\<rparr> # es)
      else (let (find, es') = set_first_status t st es in (find, e # es')))"

definition mission_ctl :: "int \<Rightarrow> bool \<Rightarrow> server \<Rightarrow> bool \<times> server" where
  "mission_ctl t go s =
     (let (find, ms) = set_first_status t (if go then RUNNING else STOPPED) (missions s)
      in (find, s\<lparr>missions := ms\<rparr>))"

text \<open>\<open>COMMAND\<close>; the order is whatever integer the client sent: 0 start, 1 pause, 2 resume, 3 stop.\<close>

record command =
  c_type :: command_type
  c_order :: int
  c_m_type :: int
  c_ALLGO :: bool

definition command_control :: "platform \<Rightarrow> command \<Rightarrow> server \<Rightarrow> (int, server) flow" where
  "command_control p cmd s =
     (if srv_running s = None then Return 0 s
      else case c_type cmd of
        T_MISSION \<Rightarrow>
          if c_order cmd = 0 \<or> c_order cmd = 2 then
            call_with (no_value p) (monitor_ctrl p M_START M_PING (snd (mission_ctl (c_m_type cmd) True s)))
              (\<lambda>ret s. if ret = M_ERROR then Return 0 s else Return 1 s)
          else if c_order cmd = 1 \<or> c_order cmd = 3 then
            call_with (no_value p) (monitor_ctrl p M_STOP M_PING (snd (mission_ctl (c_m_type cmd) False s)))
              (\<lambda>ret s. if ret = M_ERROR then Return 0 s else Return 1 s)
          else Return 1 s
      | _ \<Rightarrow> Return 1 s)"

section \<open>The setup functions\<close>

text \<open>They get the request body and fill \<open>msg\<close>, 32 bytes that begin empty; they return an \<open>int\<close>.
  Each passes the tree to \<open>cJSON_GetObjectItem\<close>, which dereferences it, without a test.\<close>

definition invalid_parameter :: "u8 list" where
  "invalid_parameter = ascii ''Invalid Parameter''"

definition parsed :: "platform \<Rightarrow> u8 list \<Rightarrow> json option" where
  "parsed p data = (case cJSON_Parse (fp p) data of Ok doc \<Rightarrow> Some doc | _ \<Rightarrow> None)"

definition parse_mission :: "platform \<Rightarrow> u8 list option \<Rightarrow> server \<Rightarrow> (int \<times> u8 list, server) flow" where
  "parse_mission p data s =
     (case data of
        None \<Rightarrow> Return (0, []) s
      | Some data \<Rightarrow>
          if \<not> memory p then Return (0, ascii ''Insufficient Memory'') s
          else (case parsed p data of
                  None \<Rightarrow> Trap s
                | Some doc \<Rightarrow>
                    (case cJSON_GetObjectItem doc (ascii ''mission-type'') of
                       None \<Rightarrow> Return (0, invalid_parameter) s
                     | Some type_entry \<Rightarrow>
                         Return (1, []) (s\<lparr>missions := missions s @
                           [\<lparr>m_name = replicate 16 0, m_type = valueint type_entry, m_status = STOPPED,
                             m_param = doc\<rparr>]\<rparr>))))"

text \<open>\<open>strcpy\<close> of a string, possibly null, into an array.\<close>

definition strcpy_into :: "u8 list \<Rightarrow> u8 list option \<Rightarrow> u8 list option" where
  "strcpy_into arr str =
     (case str of
        None \<Rightarrow> None
      | Some bs \<Rightarrow> if length bs < length arr then Some (bs @ 0 # drop (length bs + 1) arr) else None)"

definition parse_env :: "platform \<Rightarrow> u8 list option \<Rightarrow> server \<Rightarrow> (int \<times> u8 list, server) flow" where
  "parse_env p data s =
     (case srv_env s of
        None \<Rightarrow> Return (0, []) s
      | Some e \<Rightarrow>
         (case Option.bind data (parsed p) of
            None \<Rightarrow> Trap s
          | Some doc \<Rightarrow>
             (case cJSON_GetObjectItem doc (ascii ''host'') of
                None \<Rightarrow> Trap s
              | Some h \<Rightarrow>
                 (case strcpy_into (host e) (valuestring h) of
                    None \<Rightarrow> Trap s
                  | Some hs \<Rightarrow>
                      (let e1 = e\<lparr>host := hs\<rparr>;
                           s1 = s\<lparr>srv_env := Some e1\<rparr>;
                           obj1 = cJSON_GetObjectItem doc (ascii ''target1'');
                           obj2 = cJSON_GetObjectItem doc (ascii ''target2'')
                       in if obj1 = None \<and> obj2 = None then Return (0, invalid_parameter) s1
                          else (case (case obj1 of None \<Rightarrow> Some (target1 e1)
                                      | Some o1 \<Rightarrow> strcpy_into (target1 e1) (valuestring o1)) of
                                  None \<Rightarrow> Trap s1
                                | Some t1 \<Rightarrow>
                                   (case (case obj2 of None \<Rightarrow> Some (target2 e1)
                                      | Some o2 \<Rightarrow> strcpy_into (target2 e1) (valuestring o2)) of
                                      None \<Rightarrow> Trap (s1\<lparr>srv_env := Some (e1\<lparr>target1 := t1\<rparr>)\<rparr>)
                                    | Some t2 \<Rightarrow>
                                        Return (1, []) (s1\<lparr>srv_env := Some (e1\<lparr>target1 := t1, target2 := t2\<rparr>)\<rparr>))))))))"

definition parse_runner :: "platform \<Rightarrow> u8 list option \<Rightarrow> server \<Rightarrow> (int \<times> u8 list, server) flow" where
  "parse_runner p data s =
     (case data of
        None \<Rightarrow> Return (0, []) s
      | Some data \<Rightarrow>
         (case parsed p data of
            None \<Rightarrow> Trap s
          | Some doc \<Rightarrow>
             (case cJSON_GetObjectItem doc (ascii ''order'') of
                None \<Rightarrow> Trap s
              | Some order \<Rightarrow>
                 (case cJSON_GetObjectItem doc (ascii ''type'') of
                    None \<Rightarrow> Trap s
                  | Some type \<Rightarrow>
                      if \<exists>m\<in>set (missions s). m_type m = valueint type then
                        call_with 0
                          (command_control p \<lparr>c_type = T_MISSION, c_order = valueint order,
                             c_m_type = valueint type, c_ALLGO = False\<rparr> s)
                          (\<lambda>_ s. Return (1, []) s)
                      else Return (0, invalid_parameter) s))))"

text \<open>\<open>parse_scan\<close> has no body: it ends without a value.\<close>

definition parse_scan :: "platform \<Rightarrow> u8 list option \<Rightarrow> server \<Rightarrow> (int \<times> u8 list, server) flow" where
  "parse_scan p data s = Next s"

section \<open>Requests\<close>

definition get_post_data :: "connection \<Rightarrow> u8 list option" where
  "get_post_data conn = (if length (content conn) = 0 then None else Some (content conn))"

definition origin_name :: "u8 list" where
  "origin_name = ascii ''Access-Control-Allow-Origin''"

text \<open>The end of \<open>handle_request\<close>, from its label \<open>EXIT\<close>; \<open>origin\<close> is \<open>None\<close> when no string can be read
  through the pointer.\<close>

definition handle_exit :: "connection \<Rightarrow> u8 list option \<Rightarrow> u8 list \<Rightarrow> server \<Rightarrow> (int, server) flow" where
  "handle_exit conn origin reply s =
     (if is_websocket conn then Return 0 (send_to conn [Frame reply] s)
      else (case origin of
              None \<Rightarrow> Trap s
            | Some o' \<Rightarrow> Return 1 (send_to conn [Header origin_name o', Data reply] s)))"

text \<open>Two returns of the function have no value.\<close>

definition handle_request ::
  "platform \<Rightarrow> connection \<Rightarrow> (platform \<Rightarrow> u8 list option \<Rightarrow> server \<Rightarrow> (int \<times> u8 list, server) flow) option \<Rightarrow>
   server \<Rightarrow> (int, server) flow" where
  "handle_request p conn func s =
     (case get_post_data conn of
        None \<Rightarrow> handle_exit conn (wild_origin p) [] s
      | Some post_data \<Rightarrow>
          if \<not> memory p then Trap s
          else (case origin_header conn of
                  None \<Rightarrow> Next s
                | Some origin \<Rightarrow>
                    (case func of
                       None \<Rightarrow> Next s
                     | Some f \<Rightarrow>
                         call_with (no_value p, []) (f p (Some post_data) s)
                           (\<lambda>(ok, error_msg) s.
                              handle_exit conn (Some origin) (if ok \<noteq> 0 then ascii ''OK'' else error_msg) s))))"

definition mission_setup :: "platform \<Rightarrow> connection \<Rightarrow> server \<Rightarrow> (int, server) flow" where
  "mission_setup p conn s = handle_request p conn (Some parse_mission) s"

definition evn_setup :: "platform \<Rightarrow> connection \<Rightarrow> server \<Rightarrow> (int, server) flow" where
  "evn_setup p conn s = handle_request p conn (Some parse_env) s"

definition runner_setup :: "platform \<Rightarrow> connection \<Rightarrow> server \<Rightarrow> (int, server) flow" where
  "runner_setup p conn s = handle_request p conn (Some parse_runner) s"

definition scan_setup :: "platform \<Rightarrow> connection \<Rightarrow> server \<Rightarrow> (int, server) flow" where
  "scan_setup p conn s = handle_request p conn (Some parse_scan) s"

section \<open>Pushing to the clients\<close>

text \<open>\<open>fb->triptime\<close> is an array and never null, so it is always the content.\<close>

definition feedback_json :: "feedback \<Rightarrow> json" where
  "feedback_json fb =
     (let temp = cJSON_CreateObject;
          temp = cJSON_AddItemToObject temp (ascii ''seq'') (Some (cJSON_CreateNumber (of_int (fb_seq fb))))
      in cJSON_AddItemToObject temp (ascii ''content'') (Some (cJSON_CreateString (fb_triptime fb))))"

fun drain_feedback :: "feedback list \<Rightarrow> json \<Rightarrow> json" where
  "drain_feedback [] result = result"
| "drain_feedback (fb # fbs) result =
     drain_feedback fbs (cJSON_AddItemToArray result (Some (feedback_json fb)))"

text \<open>\<open>cJSON_Print\<close> and the write of its result, whose length is taken without a test.\<close>

definition write_json :: "connection \<Rightarrow> json \<Rightarrow> server \<Rightarrow> (unit, server) flow" where
  "write_json conn result s =
     (case cJSON_Print result of Ok ret \<Rightarrow> Next (send_to conn [Frame ret] s) | _ \<Rightarrow> Trap s)"

definition iterate_callback :: "connection \<Rightarrow> server \<Rightarrow> (int, server) flow" where
  "iterate_callback conn s =
     (if is_websocket conn \<and> feedbacks s \<noteq> [] then
        (let result = drain_feedback (feedbacks s) cJSON_CreateArray
         in call_with () (write_json conn result (s\<lparr>feedbacks := []\<rparr>)) (\<lambda>_ s. Return 1 s))
      else Return 1 s)"

text \<open>The loop of \<open>push_mission\<close>: \<open>result\<close> is null to begin with, and \<open>cJSON_AddItemToObject\<close> reads the
  children of the object it gets.\<close>

fun push_loop :: "mission list \<Rightarrow> json option \<Rightarrow> json option option" where
  "push_loop [] result = Some result"
| "push_loop (entry # es) result =
     (case result of
        None \<Rightarrow> None
      | Some obj \<Rightarrow> push_loop es (Some (cJSON_AddItemToObject obj (ascii ''mission_type'')
          (Some (cJSON_CreateBool (m_type entry))))))"

definition push_mission :: "connection \<Rightarrow> server \<Rightarrow> (unit, server) flow" where
  "push_mission conn s =
     (case push_loop (missions s) None of
        None \<Rightarrow> Trap s
      | Some (Some result) \<Rightarrow> write_json conn result s
      | Some None \<Rightarrow> Next (send_to conn [Frame (ascii ''0'')] s))"

definition oops_text :: "u8 list" where
  "oops_text = ascii ''websocket data expected'' @ [10]"

text \<open>The body goes to the log as a string before it is parsed.\<close>

definition ws_handler :: "platform \<Rightarrow> connection \<Rightarrow> server \<Rightarrow> (int, server) flow" where
  "ws_handler p conn s =
     (if \<not> is_websocket conn then Return 1 (send_to conn [Data oops_text] s)
      else (case get_post_data conn of
              None \<Rightarrow> Return 0 s
            | Some buf \<Rightarrow>
                if \<not> memory p then Trap s
                else if debug_log p \<and> 0 \<notin> set buf then Trap s
                else (case parsed p buf of
                        None \<Rightarrow> Trap s
                      | Some doc \<Rightarrow>
                          (case cJSON_GetObjectItem doc (ascii ''setup_type'') of
                             None \<Rightarrow> Return 1 s
                           | Some temp \<Rightarrow>
                               call_with () (if valueint temp = 0 then push_mission conn s else Next s)
                                 (\<lambda>_ s. Return (if content conn = ascii ''exit'' then 1 else 0) s)))))"

end
