(* ===== verification/Json_Roundtrip.thy ===== *)
theory Json_Roundtrip
  imports Json
begin

text \<open>
  The printer of comm/cJSON.c against its buffers and against the parser: what the two composing
  loops write, that no write leaves its block, and that the parser gives back every tree it could
  have made itself.
\<close>

section \<open>What the composing loops write\<close>

fun separated :: "u8 list \<Rightarrow> u8 list list \<Rightarrow> u8 list" where
  "separated s [] = []"
| "separated s [e] = e"
| "separated s (e # f # es) = e @ s @ separated s (f # es)"

lemma put_Ok [simp]: "length out + length bs \<le> cap \<Longrightarrow> put cap bs (Ok out) = Ok (out @ bs)"
  by (simp add: put_def)

lemma put_string_Ok [simp]: "length out + length bs < cap \<Longrightarrow> put_string cap bs (Ok out) = Ok (out @ bs)"
  by (simp add: put_string_def)

lemma array_loop:
  assumes "n = k + length es"
    and "length out + sum_list (map (\<lambda>e. length e + length s) es) < cap"
  shows "fold (\<lambda>(i, e) out. let out = put_string cap e out in if i \<noteq> n - 1 then put_string cap s out else out)
      (zip [k..<n] es) (Ok out) = Ok (out @ separated s es)"
  using assms
proof (induction s es arbitrary: k out rule: separated.induct)
  case (3 s e f es)
  from 3(2) have upt: "[k..<n] = k # [Suc k..<n]" by (intro upt_conv_Cons) simp
  have ne: "k \<noteq> n - 1" using 3(2) by simp
  have "n = Suc k + length (f # es)" using 3(2) by simp
  note IH = 3(1) [OF this, of "out @ e @ s"]
  show ?case using ne IH 3(3) by (simp add: upt)
qed (simp_all add: upt_conv_Cons)

lemma compose_array_ok:
  assumes "es \<noteq> []"
  shows "compose_array fmt es = Ok (91 # separated (44 # (if fmt then [32] else [])) es @ [93])"
proof -
  define s :: "u8 list" where "s = 44 # (if fmt then [32] else [])"
  define m where "m = sum_list (map (\<lambda>e. length e + length s) es)"
  have len: "5 + sum_list (map (\<lambda>ret. length ret + 2 + (if fmt then 1 else 0)) es) = 5 + m + length es"
    unfolding m_def s_def by (induction es) simp_all
  have sep: "length (separated s es) \<le> m"
    unfolding m_def by (induction s es rule: separated.induct) simp_all
  have "fold (\<lambda>(i, e) out. let out = put_string (5 + m + length es) e out
        in if i \<noteq> length es - 1 then put_string (5 + m + length es) s out else out)
      (zip [0..<length es] es) (Ok [91]) = Ok ([91] @ separated s es)"
    by (rule array_loop) (simp_all add: m_def)
  then show ?thesis
    using sep unfolding compose_array_def len Let_def s_def [symmetric] by simp
qed

definition member_line :: "nat \<Rightarrow> bool \<Rightarrow> u8 list \<times> u8 list \<Rightarrow> u8 list" where
  "member_line depth fmt = (\<lambda>(name, e).
     (if fmt then replicate depth 9 else []) @ name @ 58 # (if fmt then [9] else []) @ e)"

lemma object_loop:
  fixes nl ind :: "u8 list"
  assumes "nl = (if fmt then [10] else [])" "ind = (if fmt then replicate depth 9 else [])"
    and "n = k + length es"
    and "length out + sum_list (map (\<lambda>e. length (member_line depth fmt e) + 1 + length nl) es) < cap"
  shows "fold (\<lambda>(i, name, e) out.
             let out = put cap ind out;
                 out = put_string cap name out;
                 out = put cap (58 # (if fmt then [9] else [])) out;
                 out = put_string cap e out
             in put_string cap ((if i \<noteq> n - 1 then [44] else []) @ nl) out)
      (zip [k..<n] es) (Ok out) =
    Ok (out @ separated (44 # nl) (map (member_line depth fmt) es) @ (if es = [] then [] else nl))"
  using assms(3,4)
proof (induction es arbitrary: k out)
  case (Cons x es)
  obtain name e where x: "x = (name, e)" by (cases x)
  have upt: "[k..<n] = k # [Suc k..<n]" using Cons.prems(1) by (intro upt_conv_Cons) simp
  have line: "length (member_line depth fmt x) = length ind + length name + 1 + (if fmt then 1 else 0) + length e"
    by (simp add: member_line_def x assms(2))
  have step: "out @ member_line depth fmt x = out @ ind @ name @ (58 # (if fmt then [9] else [])) @ e"
    by (simp add: member_line_def x assms(2))
  show ?case
  proof (cases es)
    case Nil
    then show ?thesis using Cons.prems line step by (simp add: upt x) 
  next
    case (Cons y ys)
    then have ne: "k \<noteq> n - 1" using Cons.prems(1) by simp
    have "n = Suc k + length es" using Cons.prems(1) by simp
    note IH = Cons.IH [OF this, of "out @ member_line depth fmt x @ 44 # nl"]
    show ?thesis
      using ne IH Cons.prems(2) line \<open>es = _\<close> step by (simp add: upt x)
  qed
qed simp

lemma compose_object_ok:
  assumes "es \<noteq> []" "0 < depth"
  shows "compose_object depth fmt es =
    Ok ((123 # (if fmt then [10] else [])) @
        separated (44 # (if fmt then [10] else [])) (map (member_line depth fmt) es) @
        (if fmt then [10] else []) @ (if fmt then replicate (depth - 1) 9 else []) @ [125])"
proof -
  define nl :: "u8 list" where "nl = (if fmt then [10] else [])"
  define ind :: "u8 list" where "ind = (if fmt then replicate depth 9 else [])"
  define m where "m = sum_list (map (\<lambda>e. length (member_line depth fmt e) + 1 + length nl) es)"
  have len: "sum_list (map (\<lambda>(str, ret). length ret + length str + 2 + (if fmt then 2 + depth else 0)) es) = m"
    unfolding m_def nl_def by (induction es) (auto simp: member_line_def)
  have sep: "length (separated (44 # nl) (map (member_line depth fmt) es) @ nl) \<le> m"
    using assms(1) unfolding m_def
    by (induction es rule: induct_list012) simp_all
  have fits: "length (123 # nl) + sum_list (map (\<lambda>e. length (member_line depth fmt e) + 1 + length nl) es)
      < 7 + (if fmt then depth else 0) + m"
    by (simp add: m_def nl_def)
  note loop = object_loop [OF nl_def ind_def _ fits, of "length es" 0, simplified]
  show ?thesis
    using sep assms loop
    unfolding compose_object_def len Let_def nl_def [symmetric] ind_def [symmetric]
    by (cases fmt) (simp_all add: nl_def)
qed

section \<open>The printer stays within its blocks\<close>

text \<open>The numbers of the tree are values of their C types; the printer knows all types it reaches.\<close>

fun in_range :: "json \<Rightarrow> bool" where
  "in_range (Node t vs vi vd nm ch) \<longleftrightarrow>
     - (2 ^ 31) \<le> vi \<and> vi < 2 ^ 31 \<and> finite_double vd \<and> (\<forall>c\<in>set ch. in_range c)"

fun printable :: "json \<Rightarrow> bool" where
  "printable (Node t vs vi vd nm ch) \<longleftrightarrow>
     t mod 256 \<le> cJSON_Object \<and> (t mod 256 \<ge> cJSON_Array \<longrightarrow> (\<forall>c\<in>set ch. printable c))"

lemma print_string_ptr_total: "\<exists>s. print_string_ptr nm = Ok s"
  by (cases nm) (simp_all add: print_string_ptr_ok, simp add: print_string_ptr_def)

lemma small_type: "(k::nat) \<le> 6 \<longleftrightarrow> k = 2 \<or> k = 0 \<or> k = 1 \<or> k = 3 \<or> k = 4 \<or> k = 5 \<or> k = 6"
  by auto

lemma print_value_outcome:
  "in_range j \<Longrightarrow> \<exists>s. print_value depth fmt j = (if printable j then Ok s else Fail)"
  "\<forall>j\<in>set js. in_range j \<Longrightarrow>
    \<exists>es. length es = length js \<and> print_elements depth fmt js = (if \<forall>j\<in>set js. printable j then Ok es else Fail)"
  "\<forall>j\<in>set js. in_range j \<Longrightarrow>
    \<exists>es. length es = length js \<and> print_members depth fmt js = (if \<forall>j\<in>set js. printable j then Ok es else Fail)"
proof (induction depth fmt j and depth fmt js and depth fmt js rule: print_value_print_elements_print_members.induct)
  case (1 depth fmt t vs vi vd nm ch)
  consider (unknown) "\<not> t mod 256 \<le> 6" | (leaf) "t mod 256 \<in> {0, 1, 2, 3, 4}" | (array) "t mod 256 = 5" | (object) "t mod 256 = 6"
    using small_type [of "t mod 256"] by auto
  then show ?case
  proof cases
    case leaf
    then show ?thesis
      using print_string_ptr_total [of vs] print_number_ok [of vi vd] 1(3)
      by (auto simp: print_value.simps(1) Let_def)
  next
    case array
    then obtain es where "length es = length ch" "print_elements (depth + 1) fmt ch =
        (if \<forall>j\<in>set ch. printable j then Ok es else Fail)" if "ch \<noteq> []"
      using 1(1) [OF refl] 1(3) by fastforce
    moreover from this(1) have "ch \<noteq> [] \<Longrightarrow> es \<noteq> []" by auto
    ultimately show ?thesis using array compose_array_ok [of es fmt]
      by (cases "ch = []") (auto simp: print_value.simps(1) Let_def)
  next
    case object
    then obtain es where "length es = length ch" "print_members (depth + 1) fmt ch =
        (if \<forall>j\<in>set ch. printable j then Ok es else Fail)" if "ch \<noteq> []"
      using 1(2) [OF refl] 1(3) by fastforce
    moreover from this(1) have "ch \<noteq> [] \<Longrightarrow> es \<noteq> []" by auto
    ultimately show ?thesis using object compose_object_ok [of es "depth + 1" fmt]
      by (cases "ch = []") (auto simp: print_value.simps(1) Let_def)
  qed (auto simp: print_value.simps(1) Let_def)
next
  case (3 depth fmt j js)
  then obtain s where s: "print_value depth fmt j = (if printable j then Ok s else Fail)" by auto
  show ?case
  proof (cases "printable j")
    case True
    with s 3 obtain es where "length es = length js" "print_elements depth fmt js = (if \<forall>j\<in>set js. printable j then Ok es else Fail)"
      by auto
    then show ?thesis using s True by (intro exI [of _ "s # es"]) auto
  next
    case False
    then show ?thesis using s by (intro exI [of _ "replicate (Suc (length js)) []"]) auto
  qed
next
  case (5 depth fmt j js)
  then obtain s es where "print_value depth fmt j = (if printable j then Ok s else Fail)"
    "length es = length js" "print_members depth fmt js = (if \<forall>j\<in>set js. printable j then Ok es else Fail)" 
    using print_string_ptr_total [of "jstring j"] by fastforce
  moreover obtain name where "print_string_ptr (jstring j) = Ok name" using print_string_ptr_total by blast
  ultimately show ?case by (intro exI [of _ "(name, s) # es"]) auto
qed simp_all



section \<open>Reading back\<close>

text \<open>A tree as the parser builds it, with integers for numbers.\<close>

fun plain :: "json \<Rightarrow> bool" where
  "plain (Node t vs vi vd nm ch) \<longleftrightarrow>
     (if t = cJSON_Number then vs = None \<and> ch = [] \<and> - (2 ^ 31) \<le> vi \<and> vi < 2 ^ 31 \<and> vd = of_int vi
      else t \<le> cJSON_Object \<and> vd = 0 \<and> vi = (if t = cJSON_True then 1 else 0) \<and>
        (case vs of None \<Rightarrow> t \<noteq> cJSON_String | Some s \<Rightarrow> t = cJSON_String \<and> 0 \<notin> set s) \<and>
        (t < cJSON_Array \<longrightarrow> ch = []) \<and>
        (\<forall>c\<in>set ch. plain c \<and>
          (case jstring c of None \<Rightarrow> t = cJSON_Array | Some s \<Rightarrow> t = cJSON_Object \<and> 0 \<notin> set s)))"

definition ends :: "u8 list \<Rightarrow> bool" where
  "ends t \<longleftrightarrow> (\<exists>c cs. t = c # cs \<and> number_ends c)"

definition visible :: "u8 list \<Rightarrow> bool" where
  "visible s \<longleftrightarrow> (\<exists>c cs. s = c # cs \<and> 32 < c \<and> c \<noteq> 93 \<and> c \<noteq> 125)"

definition blank :: "u8 list \<Rightarrow> bool" where
  "blank w \<longleftrightarrow> (\<forall>c\<in>set w. c \<noteq> 0 \<and> c \<le> 32)"

text \<open>\<open>parses f x\<close>: with enough fuel, the parser \<open>f\<close> gives \<open>x\<close>.\<close>

definition parses :: "(nat \<Rightarrow> 'a res) \<Rightarrow> 'a \<Rightarrow> bool" where
  "parses f x \<longleftrightarrow> (\<exists>n. \<forall>m\<ge>n. f m = Ok x)"

lemma parses_Suc:
  assumes "parses (\<lambda>n. f (Suc n)) x"
  shows "parses f x"
proof -
  from assms obtain n where n: "\<And>m. m \<ge> n \<Longrightarrow> f (Suc m) = Ok x" by (auto simp: parses_def)
  have "f m = Ok x" if "m \<ge> Suc n" for m using n [of "m - 1"] that by simp
  then show ?thesis unfolding parses_def by blast
qed

lemma parses_const [simp]: "parses (\<lambda>n. Ok x) x"
  by (simp add: parses_def)

lemma parses_bind:
  assumes "parses f y" "parses (\<lambda>n. k n y) x"
  shows "parses (\<lambda>n. bind_res (f n) (k n)) x"
proof -
  from assms obtain n m where "\<And>i. i \<ge> n \<Longrightarrow> f i = Ok y" "\<And>i. i \<ge> m \<Longrightarrow> k i y = Ok x"
    by (auto simp: parses_def)
  then have "\<forall>i\<ge>max n m. bind_res (f i) (k i) = Ok x" by simp
  then show ?thesis unfolding parses_def by blast
qed

lemma skip_blank: "blank w \<Longrightarrow> visible s \<Longrightarrow> skip (w @ s @ t) = Ok (s @ t)"
  by (induction w) (auto simp: blank_def visible_def)

lemma skip_visible: "visible s \<Longrightarrow> skip (s @ t) = Ok (s @ t)"
  using skip_blank [of "[]" s t] by (simp add: blank_def)

lemma skip_char: "32 < c \<Longrightarrow> skip (c # t) = Ok (c # t)"
  by auto

lemma skip_blank_char: "blank w \<Longrightarrow> 32 < c \<Longrightarrow> skip (w @ c # t) = Ok (c # t)"
  by (induction w) (auto simp: blank_def)

lemma c_string_id: "0 \<notin> set s \<Longrightarrow> c_string s = s"
  unfolding c_string_def by (rule takeWhile_eq_all_conv [THEN iffD2]) auto

lemma int_of_double_int: "- (2 ^ 31) \<le> k \<Longrightarrow> k < 2 ^ 31 \<Longrightarrow> int_of_double (of_int k) = k"
  by (simp add: int_of_double_def)

text \<open>How \<open>parse_any\<close> branches on the first byte.\<close>

lemma parse_any_string:
  "parse_string (34 # t) = Ok (s, rest) \<Longrightarrow>
    parse_any e m fp (34 # t) = Ok (Node cJSON_String (Some (c_string s)) 0 0 None [], rest)"
  by (simp add: parse_any_def null_text_def false_text_def true_text_def first_byte_def)

lemma parse_any_number:
  assumes "c = 45 \<or> is_digit c" "parse_number fp (c # t) = Ok (d, rest)"
  shows "parse_any e m fp (c # t) = Ok (Node cJSON_Number None (int_of_double d) d None [], rest)"
proof -
  have "c \<noteq> 110" "c \<noteq> 102" "c \<noteq> 116" "c \<noteq> 34" using assms(1) by (auto simp: is_digit_def)
  then show ?thesis using assms
    by (simp add: parse_any_def null_text_def false_text_def true_text_def first_byte_def)
qed

lemma parse_any_bracket:
  "parse_any e m fp (91 # t) = parse_array e (91 # t)" "parse_any e m fp (123 # t) = parse_object m (123 # t)"
  by (simp_all add: parse_any_def null_text_def false_text_def true_text_def first_byte_def is_digit_def)

lemma sprintf_d_first: "\<exists>c cs. sprintf_d k = c # cs \<and> (c = 45 \<or> is_digit c)"
proof (cases "k < 0")
  case False
  then show ?thesis using decimal_first [of "nat k"] decimal_digits [of "nat k"] by (auto simp: sprintf_d_def)
qed (simp add: sprintf_d_def)

lemma digit_visible: "c = 45 \<or> is_digit c \<Longrightarrow> 32 < c \<and> c \<noteq> 93 \<and> c \<noteq> 125"
  by (auto simp: is_digit_def intro: less_le_trans [of 32 48])

text \<open>What a printed value must satisfy to be read back in every context.\<close>

definition reads_back :: "fpu \<Rightarrow> json \<Rightarrow> u8 list \<Rightarrow> bool" where
  "reads_back fp j s \<longleftrightarrow> visible s \<and>
     (\<forall>t. ends t \<longrightarrow> parses (\<lambda>n. parse_value n fp (s @ t)) (set_jstring None j, t))"

text \<open>Arrays and objects are read back whatever follows.\<close>

definition reads_always :: "fpu \<Rightarrow> json \<Rightarrow> u8 list \<Rightarrow> bool" where
  "reads_always fp j s \<longleftrightarrow> visible s \<and> (\<forall>t. parses (\<lambda>n. parse_value n fp (s @ t)) (set_jstring None j, t))"

lemma reads_always_back: "reads_always fp j s \<Longrightarrow> reads_back fp j s"
  by (simp add: reads_always_def reads_back_def)

lemma reads_always_any:
  assumes "visible s" "\<And>t n. parse_any (parse_elements n fp) (parse_members n fp) fp (s @ t) = Ok (set_jstring None j, t)"
  shows "reads_always fp j s"
  using assms unfolding reads_always_def by (auto intro!: parses_Suc [where f = "\<lambda>n. parse_value n fp _"])

lemma reads_back_any:
  assumes "visible s" "\<And>t n. ends t \<Longrightarrow> parse_any (parse_elements n fp) (parse_members n fp) fp (s @ t) = Ok (set_jstring None j, t)"
  shows "reads_back fp j s"
  using assms unfolding reads_back_def by (auto intro!: parses_Suc [where f = "\<lambda>n. parse_value n fp _"])

lemma reads_back_leaf:
  assumes "exact_ints fp" "plain (Node t vs vi vd nm ch)" "t < cJSON_Array"
  shows "\<exists>s. print_value depth fmt (Node t vs vi vd nm ch) = Ok s \<and> reads_back fp (Node t vs vi vd nm ch) s"
proof -
  consider "t = 0" | "t = 1" | "t = 2" | "t = 3" | "t = 4" using assms(3) by linarith
  then show ?thesis
  proof cases
    case 4
    then have vi: "- (2 ^ 31) \<le> vi" "vi < 2 ^ 31" "vd = of_int vi" "vs = None" "ch = []" using assms(2) by auto
    obtain c cs where c: "sprintf_d vi = c # cs" "c = 45 \<or> is_digit c" using sprintf_d_first by blast
    have "print_value depth fmt (Node t vs vi vd nm ch) = Ok (sprintf_d vi)"
      using vi length_sprintf_d [OF vi(1,2)]
      by (simp add: print_value.simps(1) 4 print_number_def DBL_EPSILON_def into_block_def)
    moreover have "reads_back fp (Node t vs vi vd nm ch) (sprintf_d vi)"
    proof (rule reads_back_any)
      show "visible (sprintf_d vi)" using c digit_visible by (auto simp: visible_def)
    next
      fix rest n assume "ends rest"
      then obtain d ds where rest: "rest = d # ds" "number_ends d" by (auto simp: ends_def)
      have "\<bar>vi\<bar> \<le> 2 ^ 53" using vi(1,2) by simp
      from parse_number_sprintf_d [OF assms(1) this rest(2), of ds]
      have "parse_number fp (c # (cs @ rest)) = Ok (of_int vi, rest)" using c(1) rest(1) by simp
      from parse_any_number [OF c(2) this] show "parse_any (parse_elements n fp) (parse_members n fp) fp (sprintf_d vi @ rest) =
          Ok (set_jstring None (Node t vs vi vd nm ch), rest)"
        using vi int_of_double_int [OF vi(1,2)] by (simp add: c(1) 4)
    qed
    ultimately show ?thesis by blast
  next
    case 5
    then obtain s where vs: "vs = Some s" "0 \<notin> set s" "vi = 0" "vd = 0" "ch = []"
      using assms(2) by (auto split: option.splits)
    obtain out where out: "print_string_ptr (Some s) = Ok (34 # out)"
      by (simp add: print_string_ptr_ok)
    have "\<And>rest. parse_string (34 # (out @ rest)) = Ok (s, rest)"
      using print_parse [OF vs(2) out] by simp
    then have "reads_back fp (Node t vs vi vd nm ch) (34 # out)"
      using vs 5 c_string_id [OF vs(2)]
      by (intro reads_back_any) (simp_all add: visible_def parse_any_string)
    then show ?thesis using vs 5 out by (simp add: print_value.simps(1))
  qed (use assms(2) in \<open>auto simp: print_value.simps(1) visible_def null_text_def false_text_def true_text_def
      parse_any_def split: option.splits intro!: reads_back_any\<close>)
qed

text \<open>Arrays.\<close>

lemma ends_char: "number_ends c \<Longrightarrow> ends (c # t)"
  by (simp add: ends_def)

lemma ends_punct [simp]: "ends (44 # t)" "ends (93 # t)" "ends (125 # t)" "ends (10 # t)" "ends (9 # t)" "ends (0 # t)"
  by (rule ends_char; simp add: number_ends_def is_digit_def)+

lemma set_jstring_same: "jstring j = nm \<Longrightarrow> set_jstring nm (set_jstring x j) = j"
  by (cases j) simp

lemma set_jstring_id: "jstring j = nm \<Longrightarrow> set_jstring nm j = j"
  by (cases j) simp

lemma parse_elements_back:
  assumes "list_all2 (\<lambda>j e. reads_back fp j e \<and> jstring j = None) js es" "js \<noteq> []" "blank w" "blank b"
  shows "parses (\<lambda>n. parse_elements n fp (b @ separated (44 # w) es @ 93 # t)) (js, t)"
  using assms(1,2,4)
proof (induction js es arbitrary: b rule: list_all2_induct)
  case (Cons j js e es)
  then have e: "visible e" "\<And>t. ends t \<Longrightarrow> parses (\<lambda>n. parse_value n fp (e @ t)) (j, t)"
    by (auto simp: reads_back_def set_jstring_id)
  note skip_b = skip_blank [OF Cons.prems(2) e(1)]
  show ?case
  proof (cases "js = []")
    case True
    then have "es = []" using Cons.hyps(2) by simp
    have "parses (\<lambda>n. parse_elements (Suc n) fp (b @ e @ 93 # t)) ([j], t)"
      by (auto simp: parse_element_def skip_b skip_char first_byte_def intro!: parses_bind [OF e(2)])
    then show ?thesis using True \<open>es = []\<close> by (auto intro: parses_Suc)
  next
    case False
    then obtain f fs where es: "es = f # fs" using Cons.hyps(2) by (cases es) auto
    let ?tl = "w @ separated (44 # w) es @ 93 # t"
    have "parses (\<lambda>n. parse_elements (Suc n) fp (b @ e @ 44 # ?tl)) (j # js, t)"
      by (auto simp: parse_element_def skip_b skip_char first_byte_def
          intro!: parses_bind [OF e(2)] parses_bind [OF Cons.IH [OF False assms(3)]])
    then show ?thesis using es by (auto intro: parses_Suc)
  qed
qed simp

lemma separated_Cons: "separated s (e # es) = e @ (if es = [] then [] else s @ separated s es)"
  by (cases es) simp_all

lemma reads_back_array:
  assumes "list_all2 (\<lambda>j e. reads_back fp j e \<and> jstring j = None) ch es" "ch \<noteq> []"
  shows "reads_always fp (Node cJSON_Array None 0 0 nm ch) (91 # separated (44 # (if fmt then [32] else [])) es @ [93])"
  unfolding reads_always_def
proof (intro conjI allI)
  fix t
  define w :: "u8 list" where "w = (if fmt then [32] else [])"
  obtain e fs where es: "es = e # fs" using assms by (cases es) auto
  then have "visible e" using assms by (cases ch) (auto simp: reads_back_def)
  then obtain c cs where c: "separated (44 # w) es = c # cs" "32 < c" "c \<noteq> 93"
    by (auto simp: visible_def es separated_Cons)
  have "parses (\<lambda>n. parse_elements n fp (separated (44 # w) es @ 93 # t)) (ch, t)"
    using parse_elements_back [OF assms, of w "[]" t] by (simp add: blank_def w_def)
  then have "parses (\<lambda>n. parse_value (Suc n) fp (91 # separated (44 # w) es @ 93 # t)) (Node cJSON_Array None 0 0 None ch, t)"
    unfolding parse_value.simps parse_any_bracket parse_array_def
    by (auto simp: first_byte_def c skip_char simp del: skip.simps intro!: parses_bind)
  then show "parses (\<lambda>n. parse_value n fp ((91 # separated (44 # (if fmt then [32] else [])) es @ [93]) @ t))
      (set_jstring None (Node cJSON_Array None 0 0 nm ch), t)"
    by (auto simp: w_def intro: parses_Suc)
qed (simp add: visible_def)

text \<open>Objects.\<close>

definition member_back :: "fpu \<Rightarrow> json \<Rightarrow> u8 list \<times> u8 list \<Rightarrow> bool" where
  "member_back fp j p \<longleftrightarrow> reads_back fp j (snd p) \<and>
     (\<exists>s. jstring j = Some s \<and> 0 \<notin> set s \<and> print_string_ptr (Some s) = Ok (fst p))"

lemma printed_name: "print_string_ptr (Some s) = Ok name \<Longrightarrow> \<exists>cs. name = 34 # cs"
  by (auto simp: print_string_ptr_ok)

lemma parse_members_back:
  assumes "list_all2 (member_back fp) js ps" "js \<noteq> []" "blank nl" "blank w" "blank b" "ends (w @ 125 # t)" "ends (nl @ [125])"
  shows "parses (\<lambda>n. parse_members n fp (b @ separated (44 # nl) (map (member_line depth fmt) ps) @ w @ 125 # t)) (js, t)"
  using assms(1,2,5)
proof (induction js ps arbitrary: b rule: list_all2_induct)
  case (Cons j js p ps)
  define ind :: "u8 list" where "ind = (if fmt then replicate depth 9 else [])"
  define tab :: "u8 list" where "tab = (if fmt then [9] else [])"
  obtain name e where p: "p = (name, e)" by (cases p)
  obtain s where s: "jstring j = Some s" "0 \<notin> set s" "print_string_ptr (Some s) = Ok name"
    and e: "visible e" "\<And>t. ends t \<Longrightarrow> parses (\<lambda>n. parse_value n fp (e @ t)) (set_jstring None j, t)"
    using Cons.hyps(1) by (auto simp: member_back_def p reads_back_def)
  have line: "member_line depth fmt p = ind @ name @ 58 # tab @ e" by (simp add: member_line_def p ind_def tab_def)
  have tab: "skip (tab @ e @ r) = Ok (e @ r)" for r by (rule skip_blank) (simp_all add: tab_def blank_def e(1))
  have "blank (b @ ind)" using Cons.prems(2) by (auto simp: ind_def blank_def)
  moreover have "visible name" using printed_name [OF s(3)] by (auto simp: visible_def)
  ultimately have head: "skip (b @ ind @ name @ r) = Ok (name @ r)" for r
    using skip_blank [of "b @ ind" name r] by simp
  have str: "parse_string (name @ r) = Ok (s, r)" for r by (rule print_parse [OF s(2,3)])
  have item: "set_jstring (Some (c_string s)) (set_jstring None j) = j"
    using s(1) c_string_id [OF s(2)] by (simp add: set_jstring_same)
  have last: "skip (w @ 125 # t) = Ok (125 # t)"
    using assms(4) by (intro skip_blank_char) simp_all
  show ?case
  proof (cases "js = []")
    case True
    then have "ps = []" using Cons.hyps(2) by simp
    have "parses (\<lambda>n. parse_members (Suc n) fp (b @ ind @ name @ 58 # tab @ e @ w @ 125 # t)) ([j], t)"
      by (auto simp: parse_member_def head str skip_char tab last item first_byte_def
          intro!: parses_bind [OF e(2)] assms(6))
    then show ?thesis using True \<open>ps = []\<close> line by (auto intro: parses_Suc)
  next
    case False
    then obtain f fs where ps: "ps = f # fs" using Cons.hyps(2) by (cases ps) auto
    let ?tl = "nl @ separated (44 # nl) (map (member_line depth fmt) ps) @ w @ 125 # t"
    have "parses (\<lambda>n. parse_members (Suc n) fp (b @ ind @ name @ 58 # tab @ e @ 44 # ?tl)) (j # js, t)"
      by (auto simp: parse_member_def head str skip_char tab item first_byte_def
          intro!: parses_bind [OF e(2)] parses_bind [OF Cons.IH [OF False assms(3)]])
    then show ?thesis using ps line by (auto intro: parses_Suc)
  qed
qed simp

lemma reads_back_object:
  assumes "list_all2 (member_back fp) ch ps" "ch \<noteq> []"
  shows "reads_always fp (Node cJSON_Object None 0 0 nm ch)
    ((123 # (if fmt then [10] else [])) @ separated (44 # (if fmt then [10] else [])) (map (member_line depth fmt) ps) @
      (if fmt then [10] else []) @ (if fmt then replicate (depth - 1) 9 else []) @ [125])"
  unfolding reads_always_def
proof (intro conjI allI)
  fix t
  define nl :: "u8 list" where "nl = (if fmt then [10] else [])"
  define w :: "u8 list" where "w = nl @ (if fmt then replicate (depth - 1) 9 else [])"
  define ind :: "u8 list" where "ind = (if fmt then replicate depth 9 else [])"
  define body where "body = separated (44 # nl) (map (member_line depth fmt) ps) @ w @ 125 # t"
  have blanks: "blank nl" "blank w" "blank ind" "blank []" by (auto simp: nl_def w_def ind_def blank_def)
  have ends: "ends (w @ 125 # t)" "ends (nl @ [125])" by (cases fmt; simp add: nl_def w_def)+
  have members: "parses (\<lambda>n. parse_members n fp (b @ body)) (ch, t)" if "blank b" for b
    unfolding body_def by (rule parse_members_back [OF assms blanks(1,2) that ends])
  obtain p qs where ps: "ps = p # qs" using assms by (cases ps) auto
  then have "member_back fp (hd ch) p" using assms by (cases ch) auto
  then obtain cs where name: "fst p = 34 # cs" using printed_name by (auto simp: member_back_def)
  then obtain r where body: "body = ind @ 34 # r"
    by (cases p) (auto simp: body_def ps separated_Cons member_line_def ind_def)
  have head: "skip (nl @ body) = Ok (34 # r)"
    using skip_blank [of "nl @ ind" "[34]" r] blanks unfolding body by (auto simp: blank_def visible_def)
  have "parses (\<lambda>n. parse_members n fp (34 # r)) (ch, t)"
  proof -
    have "skip (ind @ 34 # r) = skip (34 # r)"
      using skip_blank [OF blanks(3), of "[34]" r] by (simp add: visible_def skip_char)
    then have "parse_members n fp (34 # r) = parse_members n fp ([] @ body)" for n
      by (cases n) (simp_all add: body parse_member_def)
    then show ?thesis using members [OF blanks(4)] by simp
  qed
  then have "parses (\<lambda>n. parse_value (Suc n) fp (123 # nl @ body)) (Node cJSON_Object None 0 0 None ch, t)"
    unfolding parse_value.simps parse_any_bracket parse_object_def
    by (auto simp: first_byte_def head simp del: skip.simps intro!: parses_bind)
  then show "parses (\<lambda>n. parse_value n fp (((123 # (if fmt then [10] else [])) @
      separated (44 # (if fmt then [10] else [])) (map (member_line depth fmt) ps) @
      (if fmt then [10] else []) @ (if fmt then replicate (depth - 1) 9 else []) @ [125]) @ t))
      (set_jstring None (Node cJSON_Object None 0 0 nm ch), t)"
    by (auto simp: body_def w_def nl_def intro: parses_Suc)
qed (simp add: visible_def)

lemma print_value_back:
  assumes "exact_ints fp"
  shows "plain j \<Longrightarrow> \<exists>s. print_value depth fmt j = Ok s \<and> reads_back fp j s \<and> (cJSON_Array \<le> jtype j \<longrightarrow> reads_always fp j s)"
    and "\<forall>j\<in>set js. plain j \<and> jstring j = None \<Longrightarrow>
      \<exists>es. print_elements depth fmt js = Ok es \<and> list_all2 (\<lambda>j e. reads_back fp j e \<and> jstring j = None) js es"
    and "\<forall>j\<in>set js. plain j \<and> (\<exists>s. jstring j = Some s \<and> 0 \<notin> set s) \<Longrightarrow>
      \<exists>ps. print_members depth fmt js = Ok ps \<and> list_all2 (member_back fp) js ps"
proof (induction depth fmt j and depth fmt js and depth fmt js rule: print_value_print_elements_print_members.induct)
  case (1 depth fmt t vs vi vd nm ch)
  show ?case
  proof (cases "t < cJSON_Array")
    case True
    then show ?thesis using 1(3) reads_back_leaf [OF assms, of t vs vi vd nm ch depth fmt] by auto
  next
    case False
    then have t: "t = 5 \<or> t = 6" and rest: "vs = None" "vi = 0" "vd = 0"
      using 1(3) by (auto split: option.splits if_splits)
    show ?thesis
    proof (cases "ch = []")
      case True
      define w :: "u8 list" where "w = (if fmt then 10 # replicate (depth - 1) 9 else [])"
      have "blank w" by (auto simp: blank_def w_def)
      then have obj: "skip (w @ 125 # r) = Ok (125 # r)" for r by (intro skip_blank_char) simp_all
      have fits: "length w < (if fmt then depth + 2 else 1)" unfolding w_def by (cases depth) auto
      from t show ?thesis
      proof
        assume "t = 5"
        then show ?thesis using True rest
          by (auto simp: print_value.simps(1) visible_def parse_any_bracket parse_array_def first_byte_def skip_char
              intro!: reads_always_any reads_always_back)
      next
        assume "t = 6"
        then show ?thesis using True rest obj fits
          by (auto simp: print_value.simps(1) visible_def parse_any_bracket parse_object_def first_byte_def
              simp flip: w_def simp del: skip.simps intro!: reads_always_any reads_always_back)
      qed
    next
      case False
      from t show ?thesis
      proof
        assume t: "t = 5"
        then obtain es where es: "print_elements (depth + 1) fmt ch = Ok es"
          "list_all2 (\<lambda>j e. reads_back fp j e \<and> jstring j = None) ch es"
          using 1(1) [OF refl] 1(3) False by (fastforce split: option.splits)
        then have "es \<noteq> []" using False by auto
        then show ?thesis using es False rest t reads_back_array [OF es(2) False, of nm fmt]
          by (auto simp: print_value.simps(1) compose_array_ok intro: reads_always_back)
      next
        assume t: "t = 6"
        then obtain ps where ps: "print_members (depth + 1) fmt ch = Ok ps" "list_all2 (member_back fp) ch ps"
          using 1(2) [OF refl] 1(3) False by (fastforce split: option.splits)
        then have "ps \<noteq> []" using False by auto
        then show ?thesis using ps False rest t reads_back_object [OF ps(2) False, of nm fmt "depth + 1"]
          by (auto simp: print_value.simps(1) compose_object_ok intro: reads_always_back)
      qed
    qed
  qed
next
  case (3 depth fmt j js)
  then show ?case by (auto simp: list_all2_Cons1)
next
  case (5 depth fmt j js)
  then obtain s ps nm name where "print_value depth fmt j = Ok s" "reads_back fp j s"
    "print_members depth fmt js = Ok ps" "list_all2 (member_back fp) js ps"
    "jstring j = Some nm" "0 \<notin> set nm" "print_string_ptr (Some nm) = Ok name"
    using print_string_ptr_ok by fastforce
  moreover from this have "member_back fp j (name, s)" by (auto simp: member_back_def)
  ultimately show ?case by (intro exI [of _ "(name, s) # ps"]) simp
qed simp_all

lemma parse_from_value:
  assumes "parses (\<lambda>n. parse_value n fp v) (item, rest)" "skip v = Ok v"
  shows "cJSON_Parse fp v = Ok item"
proof -
  from assms(1) obtain n where "parse_value n fp v = Ok (item, rest)" by (auto simp: parses_def)
  then have "parse_value (2 * length v + 1) fp v = Ok (item, rest)" by (rule parse_value_settled)
  then show ?thesis using assms(2) unfolding cJSON_Parse_def cJSON_ParseWithOpts_def by (simp del: parse_value.simps)
qed

text \<open>Arrays and objects need no terminator.\<close>

lemma parse_printed_closed:
  assumes "exact_ints fp" "plain item" "jstring item = None" "cJSON_Array \<le> jtype item"
    "print_value 0 fmt item = Ok s"
  shows "cJSON_Parse fp (s @ t) = Ok item"
proof -
  have s: "reads_always fp item s" using print_value_back(1) [OF assms(1,2), of 0 fmt] assms(4,5) by auto
  have "parses (\<lambda>n. parse_value n fp (s @ t)) (item, t)"
    using s set_jstring_id [OF assms(3)] by (simp add: reads_always_def)
  moreover have "skip (s @ t) = Ok (s @ t)" using s by (intro skip_visible) (simp add: reads_always_def)
  ultimately show ?thesis by (rule parse_from_value)
qed



end
