(* ===== verification/Server.thy ===== *)
theory Server
  imports Ui Json_Roundtrip
begin

text \<open>
  The server as a state machine: the events the web server and the ping monitor bring in, the step
  relation over them and the states it reaches from the one \<open>Init\<close> leaves, with the invariant of
  these states; and what the handlers do for a client that sends well-formed requests.
\<close>

section \<open>Events\<close>

datatype endpoint = Mission_uri | Env_uri | Scan_uri | Runner_uri | Setup_uri

fun uri_handler :: "endpoint \<Rightarrow> platform \<Rightarrow> connection \<Rightarrow> server \<Rightarrow> (int, server) flow" where
  "uri_handler Mission_uri = mission_setup"
| "uri_handler Env_uri = evn_setup"
| "uri_handler Scan_uri = scan_setup"
| "uri_handler Runner_uri = runner_setup"
| "uri_handler Setup_uri = ws_handler"

text \<open>A request, a round of the timer over the open connections, a reply or an error the monitor saw.\<close>

datatype event =
    Request endpoint connection
  | Timer_round "connection list"
  | Probe int int "u8 list option"

fun handle_event :: "platform \<Rightarrow> event \<Rightarrow> server \<Rightarrow> (int, server) flow" where
  "handle_event p (Request u conn) s = uri_handler u p conn s"
| "handle_event p (Timer_round conns) s =
     for_each (\<lambda>conn s. call_with 0 (iterate_callback conn s) (\<lambda>_ s. Next s)) conns s"
| "handle_event p (Probe seq triptime error) s =
     call_with () (Feedback p seq triptime error s) (\<lambda>_ s. Next s)"

inductive server_step :: "server \<Rightarrow> server \<Rightarrow> bool" where
  falls: "handle_event p ev s = Next s' \<Longrightarrow> server_step s s'"
| returns: "handle_event p ev s = Return r s' \<Longrightarrow> server_step s s'"

text \<open>What \<open>Init\<close> leaves: empty lists, an environment and a running mission of zeros.\<close>

definition server_init :: server where
  "server_init = \<lparr>missions = [], feedbacks = [], srv_env = Some ENV_zero, srv_running = Some running_zero,
     ping_tid = 0, ping_targets = [], sent_out = []\<rparr>"

definition server_reach :: "server \<Rightarrow> bool" where
  "server_reach = reachable (\<lambda>s. s = server_init) server_step"

section \<open>The invariant\<close>

definition env_strings :: "ENV \<Rightarrow> bool" where
  "env_strings e \<longleftrightarrow> ENV_ok e \<and> 0 \<in> set (host e) \<and> 0 \<in> set (target1 e) \<and> 0 \<in> set (target2 e)"

definition mission_ok :: "mission \<Rightarrow> bool" where
  "mission_ok m \<longleftrightarrow> m_status m \<in> {STOPPED, RUNNING} \<and> m_name m = replicate 16 0 \<and>
     map_option valueint (cJSON_GetObjectItem (m_param m) (ascii ''mission-type'')) = Some (m_type m)"

definition feedback_ok :: "feedback \<Rightarrow> bool" where
  "feedback_ok fb \<longleftrightarrow> length (fb_triptime fb) < 32 \<and> 0 \<notin> set (fb_triptime fb) \<and> length (fb_error fb) < 64 \<and>
     - (2 ^ 31) \<le> fb_seq fb \<and> fb_seq fb < 2 ^ 31"

definition server_inv :: "server \<Rightarrow> bool" where
  "server_inv s \<longleftrightarrow>
     srv_env s \<noteq> None \<and> env_strings (the (srv_env s)) \<and>
     (\<forall>m\<in>set (missions s). mission_ok m) \<and>
     (\<forall>fb\<in>set (feedbacks s). feedback_ok fb) \<and>
     (\<forall>t\<in>set (ping_targets s). length t = 16 \<and> 0 \<in> set t) \<and>
     srv_running s = Some running_zero"

text \<open>\<open>keeps I m\<close>: unless it traps, \<open>m\<close> ends in a state with \<open>I\<close>.\<close>

fun keeps :: "('s \<Rightarrow> bool) \<Rightarrow> ('r, 's) flow \<Rightarrow> bool" where
  "keeps I (Next s) \<longleftrightarrow> I s"
| "keeps I (Return r s) \<longleftrightarrow> I s"
| "keeps I (Exit c s) \<longleftrightarrow> I s"
| "keeps I (Trap s) \<longleftrightarrow> True"

lemma keeps_call:
  "keeps I m \<Longrightarrow> (\<And>x s. I s \<Longrightarrow> keeps I (k x s)) \<Longrightarrow> keeps I (call_with g m k)"
  by (cases m) auto

lemma keeps_for_each:
  "I s \<Longrightarrow> (\<And>x s. I s \<Longrightarrow> keeps I (f x s)) \<Longrightarrow> keeps I (for_each f xs s)"
proof (induction xs arbitrary: s)
  case (Cons x xs)
  have "keeps I (f x s)" using Cons.prems by blast
  then show ?case using Cons by (cases "f x s") auto
qed simp

lemma server_inv_send [simp]: "server_inv (send_to conn xs s) = server_inv s"
  by (simp add: server_inv_def send_to_def)

lemma mission_ok_status: "mission_ok m \<Longrightarrow> st \<in> {STOPPED, RUNNING} \<Longrightarrow> mission_ok (m\<lparr>m_status := st\<rparr>)"
  unfolding mission_ok_def by simp

lemma set_first_status_ok:
  "st \<in> {STOPPED, RUNNING} \<Longrightarrow> \<forall>m\<in>set ms. mission_ok m \<Longrightarrow> \<forall>m\<in>set (snd (set_first_status t st ms)). mission_ok m"
  by (induction ms) (auto simp: case_prod_beta Let_def mission_ok_status)

lemma mission_ctl_inv: "server_inv s \<Longrightarrow> server_inv (snd (mission_ctl t go s))"
  using set_first_status_ok [of "if go then RUNNING else STOPPED" "missions s" t]
  by (auto simp: mission_ctl_def server_inv_def split: prod.splits)

lemma monitor_ctrl_inv: "server_inv s \<Longrightarrow> keeps server_inv (monitor_ctrl p ct t s)"
  by (auto simp: monitor_ctrl_def start_ping_def stop_ping_def start_arp_def stop_arp_def server_inv_def env_strings_def
      ENV_ok_def Let_def split: monitor_ctl_type.split option.split monitor_type.split)

lemma command_control_inv: "server_inv s \<Longrightarrow> keeps server_inv (command_control p cmd s)"
  by (auto simp: command_control_def mission_ctl_inv intro!: keeps_call monitor_ctrl_inv split: command_type.split)

lemma sprintf_d_chars: "0 \<notin> set (sprintf_d n)" "0 \<notin> set (sprintf_0d w n)"
  using decimal_digits by (auto simp: sprintf_d_def sprintf_0d_def)

lemma triptime_text_chars: "0 \<notin> set (triptime_text tt)"
  by (simp add: triptime_text_def sprintf_d_chars)

lemma to_s32_range: "- (2 ^ 31) \<le> to_s32 x" "to_s32 x < 2 ^ 31"
  unfolding to_s32_def
  using signed_take_bit_int_greater_eq_minus_exp [of 31 x] signed_take_bit_int_less_exp [of 31 x] by simp_all

lemma Feedback_inv: "server_inv s \<Longrightarrow> keeps server_inv (Feedback p seq tt er s)"
  using triptime_text_chars [of tt] to_s32_range [of seq]
  by (auto simp: Feedback_def server_inv_def feedback_ok_def Let_def)

lemma parse_mission_inv: "server_inv s \<Longrightarrow> keeps server_inv (parse_mission p data s)"
  by (auto simp: parse_mission_def server_inv_def mission_ok_def split: option.split)

lemma strcpy_into_ok: "strcpy_into arr str = Some bs \<Longrightarrow> length bs = length arr \<and> 0 \<in> set bs"
  by (auto simp: strcpy_into_def split: option.splits if_splits)

lemma strcpy_if_ok:
  assumes "(case x of None \<Rightarrow> Some arr | Some c \<Rightarrow> strcpy_into arr (f c)) = Some bs" "0 \<in> set arr"
  shows "length bs = length arr \<and> 0 \<in> set bs"
  using assms strcpy_into_ok by (cases x) auto

lemma parse_env_inv: "server_inv s \<Longrightarrow> keeps server_inv (parse_env p data s)"
  by (auto simp: parse_env_def server_inv_def env_strings_def ENV_ok_def Let_def
      dest!: strcpy_into_ok strcpy_if_ok split: option.split)

lemma parse_runner_inv: "server_inv s \<Longrightarrow> keeps server_inv (parse_runner p data s)"
  by (auto simp: parse_runner_def intro!: keeps_call command_control_inv split: option.split)

lemma handle_request_inv:
  assumes "server_inv s" "\<And>f data. func = Some f \<Longrightarrow> keeps server_inv (f p data s)"
  shows "keeps server_inv (handle_request p conn func s)"
  using assms
  by (auto simp: handle_request_def handle_exit_def intro!: keeps_call split: option.split)

lemma write_json_inv: "server_inv s \<Longrightarrow> keeps server_inv (write_json conn j s)"
  by (auto simp: write_json_def split: res.split)

lemma push_mission_inv: "server_inv s \<Longrightarrow> keeps server_inv (push_mission conn s)"
  by (auto simp: push_mission_def write_json_inv split: option.split)

lemma ws_handler_inv: "server_inv s \<Longrightarrow> keeps server_inv (ws_handler p conn s)"
  by (auto simp: ws_handler_def push_mission_inv intro!: keeps_call split: option.split)

lemma iterate_callback_inv: "server_inv s \<Longrightarrow> keeps server_inv (iterate_callback conn s)"
proof -
  assume "server_inv s"
  then have "server_inv (s\<lparr>feedbacks := []\<rparr>)" by (simp add: server_inv_def)
  then show ?thesis using \<open>server_inv s\<close>
    by (auto simp: iterate_callback_def Let_def intro!: keeps_call write_json_inv)
qed

lemma handle_event_inv:
  assumes "server_inv s"
  shows "keeps server_inv (handle_event p ev s)"
proof (cases ev)
  case (Request u conn)
  then show ?thesis using assms
    by (cases u) (auto simp: mission_setup_def evn_setup_def scan_setup_def runner_setup_def parse_scan_def
        intro!: handle_request_inv ws_handler_inv parse_mission_inv parse_env_inv parse_runner_inv)
next
  case (Timer_round conns)
  then show ?thesis using assms by (auto intro!: keeps_for_each keeps_call iterate_callback_inv)
next
  case (Probe seq tt er)
  then show ?thesis using assms by (auto intro!: keeps_call Feedback_inv)
qed

lemma server_step_inv: "server_step s s' \<Longrightarrow> server_inv s \<Longrightarrow> server_inv s'"
proof (induction rule: server_step.induct)
  case (falls p ev s s')
  then show ?case using handle_event_inv [of s p ev] by simp
next
  case (returns p ev s r s')
  then show ?case using handle_event_inv [of s p ev] by simp
qed

lemma server_init_inv: "server_inv server_init"
  by (simp add: server_inv_def server_init_def env_strings_def ENV_zero_def ENV_ok_def)

interpretation server_system: invariant_of "\<lambda>s. s = server_init" server_step server_inv
  by unfold_locales (auto intro: server_init_inv server_step_inv)


text \<open>A reply after 1.5 ms arrives at the server in its initial state.\<close>

definition after_probe :: server where
  "after_probe = server_init\<lparr>feedbacks := [\<lparr>fb_seq = 1, fb_triptime = triptime_text 1500, fb_error = []\<rparr>]\<rparr>"

lemma triptime_1500: "length (triptime_text 1500) < 32"
  by (simp add: triptime_text_def sprintf_d_def sprintf_0d_def decimal.simps)

lemma server_reach_after_probe: "server_reach after_probe"
proof -
  have "handle_event lab_platform (Probe 1 1500 None) server_init = Next after_probe"
    using triptime_1500
    by (simp add: Feedback_def lab_platform_def Let_def after_probe_def server_init_def to_s32_def)
  then show ?thesis
    unfolding server_reach_def by (blast intro: reachable.intros falls)
qed


end
