(* ===== verification/Service.thy ===== *)
theory Service
  imports Server
begin

text \<open>
  What a client of the server sees: requests whose bodies are printed JSON objects, the feedback
  pushed to the websockets, and the requests that end the server.
\<close>

section \<open>Names\<close>

lemma ascii_simps:
  "ascii [] = []" "ascii (c # cs) = of_nat (of_char c) # ascii cs"
  by (simp_all add: ascii_def)

text \<open>A request whose body is a tree of the printer's, without a terminator, in either format.\<close>

definition posts :: "platform \<Rightarrow> connection \<Rightarrow> json \<Rightarrow> bool" where
  "posts p conn obj \<longleftrightarrow> exact_ints (fp p) \<and> memory p \<and> plain obj \<and> jstring obj = None \<and>
     jtype obj = cJSON_Object \<and>
     (print_value 0 True obj = Ok (content conn) \<or> print_value 0 False obj = Ok (content conn))"

lemma posts_parsed:
  assumes "posts p conn obj"
  shows "parsed p (content conn) = Some obj"
proof -
  obtain fmt where "print_value 0 fmt obj = Ok (content conn)" using assms by (auto simp: posts_def)
  then have "cJSON_Parse (fp p) (content conn @ []) = Ok obj"
    using assms by (intro parse_printed_closed) (auto simp: posts_def)
  then show ?thesis by (simp add: parsed_def)
qed

lemma posts_post_data:
  assumes "posts p conn obj"
  shows "get_post_data conn = Some (content conn)"
proof -
  obtain fmt where fmt: "print_value 0 fmt obj = Ok (content conn)" using assms by (auto simp: posts_def)
  then have "visible (content conn)"
    using print_value_back(1) [of "fp p" obj 0 fmt] assms by (auto simp: posts_def reads_back_def)
  then show ?thesis by (auto simp: get_post_data_def visible_def)
qed

definition reply_to :: "connection \<Rightarrow> u8 list \<Rightarrow> u8 list \<Rightarrow> server \<Rightarrow> (int, server) flow" where
  "reply_to conn origin reply s =
     (if is_websocket conn then Return 0 (send_to conn [Frame reply] s)
      else Return 1 (send_to conn [Header origin_name origin, Data reply] s))"

lemma handle_exit_reply [simp]: "handle_exit conn (Some origin) reply = reply_to conn origin reply"
  by (rule ext) (simp add: handle_exit_def reply_to_def)

lemma handle_request_posts:
  assumes "posts p conn obj" "origin_header conn = Some origin"
  shows "handle_request p conn (Some f) s =
    call_with (no_value p, []) (f p (Some (content conn)) s)
      (\<lambda>(ok, error_msg) s. reply_to conn origin (if ok \<noteq> 0 then ascii ''OK'' else error_msg) s)"
  using assms posts_post_data [OF assms(1)] by (simp add: handle_request_def posts_def)

section \<open>/mission and /env\<close>

text \<open>C8: A mission set up: the handler of \<open>/mission\<close> answers a posted object with a \<open>mission-type\<close> by
  \<open>OK\<close> and appends one stopped mission of that type with the whole object as its parameters; an
  object without one is refused and changes nothing. The body is not terminated; the parser stops
  at the closing brace.\<close>

theorem mission_setup_posts:
  assumes "posts p conn obj" "origin_header conn = Some origin"
  shows "mission_setup p conn s =
    (case cJSON_GetObjectItem obj (ascii ''mission-type'') of
       None \<Rightarrow> reply_to conn origin (ascii ''Invalid Parameter'') s
     | Some t \<Rightarrow> reply_to conn origin (ascii ''OK'')
         (s\<lparr>missions := missions s @
           [\<lparr>m_name = replicate 16 0, m_type = valueint t, m_status = STOPPED, m_param = obj\<rparr>]\<rparr>))"
proof -
  have "memory p" using assms(1) by (simp add: posts_def)
  then show ?thesis
    unfolding mission_setup_def handle_request_posts [OF assms] parse_mission_def
    by (simp add: posts_parsed [OF assms(1)] invalid_parameter_def split: option.split)
qed

text \<open>The environment after a request; a missing target keeps the old one.\<close>

definition set_target :: "u8 list \<Rightarrow> json option \<Rightarrow> u8 list" where
  "set_target arr obj = (case obj of None \<Rightarrow> arr
     | Some j \<Rightarrow> the (valuestring j) @ 0 # drop (length (the (valuestring j)) + 1) arr)"

definition fits16 :: "json option \<Rightarrow> bool" where
  "fits16 obj = (case obj of None \<Rightarrow> True
     | Some j \<Rightarrow> (case valuestring j of None \<Rightarrow> False | Some bs \<Rightarrow> length bs < 16))"

lemma strcpy_fits:
  assumes "length arr = 16"
  shows "(case obj of None \<Rightarrow> Some arr | Some j \<Rightarrow> strcpy_into arr (valuestring j)) =
    (if fits16 obj then Some (set_target arr obj) else None)"
  using assms by (auto simp: strcpy_into_def fits16_def set_target_def split: option.split)


section \<open>/runner\<close>

lemma set_first_status_sets:
  "fst (set_first_status t st ms) \<longleftrightarrow> (\<exists>m\<in>set ms. m_type m = t)"
  "\<exists>m\<in>set ms. m_type m = t \<Longrightarrow> \<exists>xs m ys. ms = xs @ m # ys \<and> m_type m = t \<and> (\<forall>x\<in>set xs. m_type x \<noteq> t) \<and>
     snd (set_first_status t st ms) = xs @ m\<lparr>m_status := st\<rparr> # ys"
proof (induction ms)
  case (Cons m ms)
  { case 1 show ?case using Cons(1) by (auto simp: Let_def split: prod.splits) }
  { case 2
    show ?case
    proof (cases "m_type m = t")
      case True
      then show ?thesis by (intro exI [of _ "[]"]) auto
    next
      case False
      with 2 Cons(2) obtain xs m' ys where *: "ms = xs @ m' # ys" "m_type m' = t" "\<forall>x\<in>set xs. m_type x \<noteq> t"
        "snd (set_first_status t st ms) = xs @ m'\<lparr>m_status := st\<rparr> # ys" by auto
      then show ?thesis using False
        by (intro exI [of _ "m # xs"] exI [of _ m'] exI [of _ ys]) (auto simp: Let_def case_prod_beta)
    qed }
qed simp_all

text \<open>Starting a mission, with the monitor of the platform \<open>p\<close>: the first mission of the type runs, and
  a ping thread for the first target is there.\<close>

definition started :: "platform \<Rightarrow> int \<Rightarrow> server \<Rightarrow> server \<Rightarrow> bool" where
  "started p t s s' \<longleftrightarrow>
     (\<exists>xs m ys. missions s = xs @ m # ys \<and> m_type m = t \<and> (\<forall>x\<in>set xs. m_type x \<noteq> t) \<and>
        missions s' = xs @ m\<lparr>m_status := RUNNING\<rparr> # ys) \<and>
     (if monitored p s then ping_targets s' = ping_targets s \<and> ping_tid s' = ping_tid s
      else ping_targets s' = ping_targets s @ [target1 (the (srv_env s))] \<and> ping_tid s' = new_tid p)"

definition runner_command :: "int \<Rightarrow> int \<Rightarrow> command" where
  "runner_command order t = \<lparr>c_type = T_MISSION, c_order = order, c_m_type = t, c_ALLGO = False\<rparr>"

lemma monitored_missions: "monitored p (s\<lparr>missions := ms\<rparr>) = monitored p s"
  by (simp add: monitored_def check_monitor_running_def)

lemma command_control_start:
  assumes "memory p" "srv_env s = Some e" "srv_running s = Some r" "order = 0 \<or> order = 2"
    "\<exists>m\<in>set (missions s). m_type m = t"
  shows "\<exists>v s'. command_control p (runner_command order t) s = Return v s' \<and> started p t s s' \<and>
    sent_out s' = sent_out s \<and> srv_env s' = srv_env s \<and> feedbacks s' = feedbacks s"
proof -
  define s1 where "s1 = snd (mission_ctl t True s)"
  have s1: "s1 = s\<lparr>missions := snd (set_first_status t RUNNING (missions s))\<rparr>"
    by (simp add: s1_def mission_ctl_def case_prod_beta Let_def)
  have env1: "srv_env s1 = Some e" using assms(2) by (simp add: s1)
  have mon: "monitored p s1 = monitored p s" by (simp add: s1 monitored_missions)
  have ctrl: "monitor_ctrl p M_START M_PING s1 = (if monitored p s then Return M_FINE s1
      else Next (s1\<lparr>ping_tid := new_tid p, ping_targets := ping_targets s1 @ [target1 e]\<rparr>))"
    using env1 assms(1)
    by (simp add: monitor_ctrl_def start_ping_def Let_def mon flip: monitored_def)
  have sets: "\<exists>xs m ys. missions s = xs @ m # ys \<and> m_type m = t \<and> (\<forall>x\<in>set xs. m_type x \<noteq> t) \<and>
      missions s1 = xs @ m\<lparr>m_status := RUNNING\<rparr> # ys"
    using set_first_status_sets(2) [OF assms(5), of RUNNING] by (simp add: s1)
  show ?thesis
    using assms(2-4) ctrl sets
    by (auto simp: command_control_def runner_command_def started_def s1 simp flip: s1_def)
qed

lemma command_control_returns:
  assumes "memory p" "srv_env s = Some e"
  shows "\<exists>v s'. command_control p cmd s = Return v s'"
proof -
  have env: "srv_env (snd (mission_ctl t go s)) = Some e" for t go
    using assms(2) by (simp add: mission_ctl_def case_prod_beta Let_def)
  have ctl: "(\<exists>v s'. monitor_ctrl p ct M_PING s1 = Return v s') \<or> (\<exists>s'. monitor_ctrl p ct M_PING s1 = Next s')"
    if "srv_env s1 = Some e" for ct s1
    using that assms(1)
    by (auto simp: monitor_ctrl_def start_ping_def stop_ping_def Let_def split: monitor_ctl_type.split)
  have "\<exists>v s'. call_with g (monitor_ctrl p ct M_PING (snd (mission_ctl t go s)))
      (\<lambda>ret s. if ret = M_ERROR then Return 0 s else Return 1 s) = Return (v::int) s'" for g ct t go
    using ctl [OF env, of ct t go] by auto
  then show ?thesis unfolding command_control_def by (auto split: command_type.split)
qed

text \<open>C9: A mission started: for a posted object with an order and a type for which a mission is set up,
  \<open>/runner\<close> answers \<open>OK\<close> whatever the control reports, and for the orders start and resume the first
  mission of the type is then running and its target is pinged, by the thread that was there or by
  a new one. A type without mission is refused and changes nothing.\<close>

theorem runner_setup_posts:
  assumes "posts p conn obj" "origin_header conn = Some origin" "server_inv s"
    "cJSON_GetObjectItem obj (ascii ''order'') = Some order" "cJSON_GetObjectItem obj (ascii ''type'') = Some t"
  shows "if \<exists>m\<in>set (missions s). m_type m = valueint t
    then \<exists>s'. runner_setup p conn s = reply_to conn origin (ascii ''OK'') s' \<and>
      (valueint order = 0 \<or> valueint order = 2 \<longrightarrow> started p (valueint t) s s')
    else runner_setup p conn s = reply_to conn origin (ascii ''Invalid Parameter'') s"
proof -
  have m: "memory p" using assms(1) by (simp add: posts_def)
  obtain e where e: "srv_env s = Some e" using assms(3) by (auto simp: server_inv_def)
  have r: "srv_running s = Some running_zero" using assms(3) by (simp add: server_inv_def)
  obtain v s' where c: "command_control p (runner_command (valueint order) (valueint t)) s = Return v s'"
    using command_control_returns [OF m e] by blast
  have "started p (valueint t) s s'" if "valueint order = 0 \<or> valueint order = 2"
    "\<exists>m\<in>set (missions s). m_type m = valueint t"
    using command_control_start [OF m e r that] c by auto
  moreover have "parse_runner p (Some (content conn)) s =
    (if \<exists>m\<in>set (missions s). m_type m = valueint t then Return (1, []) s' else Return (0, invalid_parameter) s)"
    using c by (simp add: parse_runner_def posts_parsed [OF assms(1)] assms(4,5) flip: runner_command_def)
  ultimately show ?thesis
    unfolding runner_setup_def handle_request_posts [OF assms(1,2)]
    by (auto simp: invalid_parameter_def)
qed

section \<open>Feedback\<close>

lemma drain_feedback_eq: "drain_feedback fbs arr = set_child (child arr @ map feedback_json fbs) arr"
proof (induction fbs arbitrary: arr)
  case Nil
  show ?case by (cases arr) simp
next
  case (Cons fb fbs)
  show ?case using Cons by (cases arr) (simp add: cJSON_AddItemToArray_def)
qed

definition feedback_array :: "feedback list \<Rightarrow> json" where
  "feedback_array fbs = Node cJSON_Array None 0 0 None (map feedback_json fbs)"

lemma drain_feedback_array: "drain_feedback fbs cJSON_CreateArray = feedback_array fbs"
  by (simp add: drain_feedback_eq feedback_array_def cJSON_CreateArray_def cJSON_New_Item_def)

lemma plain_feedback_json: "feedback_ok fb \<Longrightarrow> plain (feedback_json fb) \<and> jstring (feedback_json fb) = None"
  by (simp add: feedback_json_def feedback_ok_def cJSON_AddItemToObject_def cJSON_AddItemToArray_def
      cJSON_CreateObject_def cJSON_CreateNumber_def cJSON_CreateString_def cJSON_New_Item_def int_of_double_int ascii_simps)

lemma plain_feedback_array: "\<forall>fb\<in>set fbs. feedback_ok fb \<Longrightarrow> plain (feedback_array fbs) \<and> jstring (feedback_array fbs) = None"
  using plain_feedback_json by (auto simp: feedback_array_def)

lemma exact_model: "exact_ints \<lparr>fp_round = (\<lambda>x. x), fp_pow10 = power10\<rparr>"
  by (simp add: exact_ints_def power10_def)

lemma print_feedback:
  assumes "\<forall>fb\<in>set fbs. feedback_ok fb"
  shows "\<exists>ret. cJSON_Print (feedback_array fbs) = Ok ret \<and>
    (\<forall>fp. exact_ints fp \<longrightarrow> cJSON_Parse fp ret = Ok (feedback_array fbs))"
proof -
  have plain: "plain (feedback_array fbs)" "jstring (feedback_array fbs) = None"
    using plain_feedback_array [OF assms] by simp_all
  obtain ret where ret: "print_value 0 True (feedback_array fbs) = Ok ret"
    using print_value_back(1) [OF exact_model plain(1), of 0 True] by blast
  have "cJSON_Parse fp (ret @ []) = Ok (feedback_array fbs)" if "exact_ints fp" for fp
    using that plain ret by (intro parse_printed_closed) (auto simp: feedback_array_def)
  then show ?thesis using ret by (auto simp: cJSON_Print_def)
qed

lemma iterate_idle:
  "feedbacks s = [] \<Longrightarrow> for_each (\<lambda>conn s. call_with 0 (iterate_callback conn s) (\<lambda>_ s. Next s)) conns s = Next s"
  by (induction conns) (simp_all add: iterate_callback_def)

lemma feedback_fields:
  "map_option valueint (cJSON_GetObjectItem (feedback_json fb) (ascii ''seq'')) = Some (int_of_double (of_int (fb_seq fb)))"
  "map_option valuestring (cJSON_GetObjectItem (feedback_json fb) (ascii ''content'')) = Some (Some (fb_triptime fb))"
proof -
  let ?fields = "[(ascii ''seq'', cJSON_CreateNumber (of_int (fb_seq fb))), (ascii ''content'', cJSON_CreateString (fb_triptime fb))]"
  have fill: "feedback_json fb = fold (\<lambda>(k, v) obj. add_item obj k v) ?fields cJSON_CreateObject"
    by (simp add: feedback_json_def add_item_def Let_def)
  have none: "cJSON_GetObjectItem cJSON_CreateObject k = None" for k
    by (simp add: cJSON_GetObjectItem_def cJSON_CreateObject_def cJSON_New_Item_def)
  have keys: "0 \<notin> set (ascii ''seq'')" "0 \<notin> set (ascii ''content'')" by (simp_all add: ascii_simps)
  have differ: "map tolower_byte (ascii ''seq'') \<noteq> map tolower_byte (ascii ''content'')" by (simp add: ascii_simps)
  show "map_option valueint (cJSON_GetObjectItem (feedback_json fb) (ascii ''seq'')) = Some (int_of_double (of_int (fb_seq fb)))"
    unfolding fill using keys
    by (subst json_object.lookup_filled) (simp_all add: none cJSON_CreateNumber_def)
  show "map_option valuestring (cJSON_GetObjectItem (feedback_json fb) (ascii ''content'')) = Some (Some (fb_triptime fb))"
    unfolding fill using keys differ
    by (subst json_object.lookup_filled) (simp_all add: none cJSON_CreateString_def)
qed

lemma timer_round_frame:
  assumes "server_inv s" "feedbacks s \<noteq> []"
  shows "\<exists>ret. (\<forall>fp. exact_ints fp \<longrightarrow> cJSON_Parse fp ret = Ok (feedback_array (feedbacks s))) \<and>
    (\<forall>fb\<in>set (feedbacks s).
       map_option valueint (cJSON_GetObjectItem (feedback_json fb) (ascii ''seq'')) = Some (fb_seq fb) \<and>
       map_option valuestring (cJSON_GetObjectItem (feedback_json fb) (ascii ''content'')) = Some (Some (fb_triptime fb))) \<and>
    handle_event p (Timer_round conns) s =
      (case find is_websocket conns of None \<Rightarrow> Next s
       | Some conn \<Rightarrow> Next (send_to conn [Frame ret] (s\<lparr>feedbacks := []\<rparr>)))"
proof -
  have "\<forall>fb\<in>set (feedbacks s). feedback_ok fb" using assms(1) by (simp add: server_inv_def)
  moreover from this have fields: "\<forall>fb\<in>set (feedbacks s).
       map_option valueint (cJSON_GetObjectItem (feedback_json fb) (ascii ''seq'')) = Some (fb_seq fb) \<and>
       map_option valuestring (cJSON_GetObjectItem (feedback_json fb) (ascii ''content'')) = Some (Some (fb_triptime fb))"
    by (auto simp: feedback_fields feedback_ok_def int_of_double_int)
  ultimately obtain ret where ret: "cJSON_Print (feedback_array (feedbacks s)) = Ok ret"
    "\<forall>fp. exact_ints fp \<longrightarrow> cJSON_Parse fp ret = Ok (feedback_array (feedbacks s))"
    using print_feedback by blast
  have "handle_event p (Timer_round conns) s =
      (case find is_websocket conns of None \<Rightarrow> Next s
       | Some conn \<Rightarrow> Next (send_to conn [Frame ret] (s\<lparr>feedbacks := []\<rparr>)))"
  proof (induction conns)
    case (Cons conn conns)
    show ?case
    proof (cases "is_websocket conn")
      case True
      then have "iterate_callback conn s = Return 1 (send_to conn [Frame ret] (s\<lparr>feedbacks := []\<rparr>))"
        using assms(2) ret(1) by (simp add: iterate_callback_def drain_feedback_array write_json_def)
      then show ?thesis using True iterate_idle [of "send_to conn [Frame ret] (s\<lparr>feedbacks := []\<rparr>)" conns]
        by (simp add: send_to_def)
    next
      case False
      then have "iterate_callback conn s = Return 1 s" by (simp add: iterate_callback_def)
      then show ?thesis using False Cons by simp
    qed
  qed simp
  then show ?thesis using ret(2) fields by blast
qed

text \<open>C10: A round of the timer: the first websocket among the connections gets one frame, which parses to
  the array of all feedback waiting, in the order it came, and the list is empty afterwards; the
  other websockets get nothing. Each element has the sequence number and the trip time; the error
  of a feedback is in no frame.\<close>

theorem timer_round_pushes:
  assumes "server_inv s" "feedbacks s \<noteq> []"
  shows "\<exists>ret. (\<forall>fp. exact_ints fp \<longrightarrow> cJSON_Parse fp ret = Ok (feedback_array (feedbacks s))) \<and>
    (\<forall>fb\<in>set (feedbacks s).
       map_option valueint (cJSON_GetObjectItem (feedback_json fb) (ascii ''seq'')) = Some (fb_seq fb) \<and>
       map_option valuestring (cJSON_GetObjectItem (feedback_json fb) (ascii ''content'')) = Some (Some (fb_triptime fb))) \<and>
    handle_event p (Timer_round conns) s =
      (case find is_websocket conns of None \<Rightarrow> Next s
       | Some conn \<Rightarrow> Next (send_to conn [Frame ret] (s\<lparr>feedbacks := []\<rparr>)))"
  by (rule timer_round_frame [OF assms])

section \<open>Requests that end the server\<close>

lemma exit_not_json: "parsed p (ascii ''exit'') = None"
proof -
  have "ascii ''exit'' = [101, 120, 105, 116]" by (simp add: ascii_simps)
  then have "cJSON_Parse (fp p) (ascii ''exit'') = Fail"
    by (simp add: cJSON_Parse_def cJSON_ParseWithOpts_def parse_any_def null_text_def false_text_def true_text_def
        first_byte_def is_digit_def)
  then show ?thesis by (simp add: parsed_def)
qed


section \<open>A client\<close>

definition lab_conn :: "json \<Rightarrow> connection" where
  "lab_conn obj = \<lparr>conn_id = 1,
     content = (case print_value 0 False obj of Ok body \<Rightarrow> body | _ \<Rightarrow> []),
     is_websocket = False, origin_header = Some (ascii ''http://localhost'')\<rparr>"

lemma posts_lab:
  assumes "plain obj" "jstring obj = None" "jtype obj = cJSON_Object"
  shows "posts lab_platform (lab_conn obj) obj"
proof -
  obtain body where "print_value 0 False obj = Ok body"
    using print_value_back(1) [OF exact_model assms(1)] by blast
  then show ?thesis using assms exact_model by (simp add: posts_def lab_conn_def lab_platform_def)
qed

definition number_entry :: "string \<Rightarrow> int \<Rightarrow> json" where
  "number_entry nm k = Node cJSON_Number None k (of_int k) (Some (ascii nm)) []"

definition string_entry :: "string \<Rightarrow> string \<Rightarrow> json" where
  "string_entry nm v = Node cJSON_String (Some (ascii v)) 0 0 (Some (ascii nm)) []"

definition lab_mission :: json where
  "lab_mission = Node cJSON_Object None 0 0 None [number_entry ''mission-type'' 0]"

definition lab_env :: json where
  "lab_env = Node cJSON_Object None 0 0 None [string_entry ''host'' ''10.0.0.1'', string_entry ''target1'' ''10.0.0.2'']"

definition lab_runner :: json where
  "lab_runner = Node cJSON_Object None 0 0 None [number_entry ''order'' 0, number_entry ''type'' 0]"

lemma lab_posts:
  "posts lab_platform (lab_conn lab_mission) lab_mission"
  "posts lab_platform (lab_conn lab_env) lab_env"
  "posts lab_platform (lab_conn lab_runner) lab_runner"
  by (rule posts_lab;
      simp add: lab_mission_def lab_env_def lab_runner_def number_entry_def string_entry_def ascii_simps)+

theorem mission_setup_posts_witness:
  "mission_setup lab_platform (lab_conn lab_mission) server_init =
    (case cJSON_GetObjectItem lab_mission (ascii ''mission-type'') of
       None \<Rightarrow> reply_to (lab_conn lab_mission) (ascii ''http://localhost'') (ascii ''Invalid Parameter'') server_init
     | Some t \<Rightarrow> reply_to (lab_conn lab_mission) (ascii ''http://localhost'') (ascii ''OK'')
         (server_init\<lparr>missions := missions server_init @
           [\<lparr>m_name = replicate 16 0, m_type = valueint t, m_status = STOPPED, m_param = lab_mission\<rparr>]\<rparr>))"
  by (rule mission_setup_posts [OF lab_posts(1)]) (simp add: lab_conn_def)


definition armed_server :: server where
  "armed_server = server_init\<lparr>missions :=
     [\<lparr>m_name = replicate 16 0, m_type = 0, m_status = STOPPED, m_param = lab_mission\<rparr>]\<rparr>"

lemma lab_lookup:
  "cJSON_GetObjectItem lab_mission (ascii ''mission-type'') = Some (number_entry ''mission-type'' 0)"
  "cJSON_GetObjectItem lab_runner (ascii ''order'') = Some (number_entry ''order'' 0)"
  "cJSON_GetObjectItem lab_runner (ascii ''type'') = Some (number_entry ''type'' 0)"
  by (simp_all add: cJSON_GetObjectItem_def lab_mission_def lab_runner_def number_entry_def ascii_simps tolower_byte_def)

lemma armed_inv: "server_inv armed_server"
  using server_init_inv lab_lookup(1)
  by (simp add: armed_server_def server_inv_def mission_ok_def server_init_def number_entry_def)

theorem runner_setup_posts_witness:
  "if \<exists>m\<in>set (missions armed_server). m_type m = valueint (number_entry ''type'' 0)
    then \<exists>s'. runner_setup lab_platform (lab_conn lab_runner) armed_server =
        reply_to (lab_conn lab_runner) (ascii ''http://localhost'') (ascii ''OK'') s' \<and>
      (valueint (number_entry ''order'' 0) = 0 \<or> valueint (number_entry ''order'' 0) = 2 \<longrightarrow>
        started lab_platform (valueint (number_entry ''type'' 0)) armed_server s')
    else runner_setup lab_platform (lab_conn lab_runner) armed_server =
      reply_to (lab_conn lab_runner) (ascii ''http://localhost'') (ascii ''Invalid Parameter'') armed_server"
  by (rule runner_setup_posts [OF lab_posts(3) _ armed_inv lab_lookup(2,3)]) (simp add: lab_conn_def)

definition waiting_server :: server where
  "waiting_server = server_init\<lparr>feedbacks := [\<lparr>fb_seq = 3, fb_triptime = ascii ''1.25'', fb_error = []\<rparr>]\<rparr>"

theorem timer_round_pushes_witness:
  "\<exists>ret. (\<forall>fp. exact_ints fp \<longrightarrow> cJSON_Parse fp ret = Ok (feedback_array (feedbacks waiting_server))) \<and>
    (\<forall>fb\<in>set (feedbacks waiting_server).
       map_option valueint (cJSON_GetObjectItem (feedback_json fb) (ascii ''seq'')) = Some (fb_seq fb) \<and>
       map_option valuestring (cJSON_GetObjectItem (feedback_json fb) (ascii ''content'')) = Some (Some (fb_triptime fb))) \<and>
    handle_event lab_platform (Timer_round [lab_conn lab_env, (lab_conn lab_env)\<lparr>is_websocket := True\<rparr>]) waiting_server =
      (case find is_websocket [lab_conn lab_env, (lab_conn lab_env)\<lparr>is_websocket := True\<rparr>] of
         None \<Rightarrow> Next waiting_server
       | Some conn \<Rightarrow> Next (send_to conn [Frame ret] (waiting_server\<lparr>feedbacks := []\<rparr>)))"
proof (rule timer_round_pushes)
  show "server_inv waiting_server"
    using server_init_inv by (simp add: waiting_server_def server_inv_def feedback_ok_def server_init_def ascii_simps)
  show "feedbacks waiting_server \<noteq> []" by (simp add: waiting_server_def)
qed

definition exit_conn :: connection where
  "exit_conn = \<lparr>conn_id = 1, content = ascii ''exit'', is_websocket = True, origin_header = Some []\<rparr>"


section \<open>Trip times\<close>

lemma decimal_small:
  "n < 10 \<Longrightarrow> decimal n = [of_nat (48 + n)]"
  "10 \<le> n \<Longrightarrow> n < 100 \<Longrightarrow> decimal n = [of_nat (48 + n div 10), of_nat (48 + n mod 10)]"
  "100 \<le> n \<Longrightarrow> n < 1000 \<Longrightarrow>
    decimal n = [of_nat (48 + n div 100), of_nat (48 + n div 10 mod 10), of_nat (48 + n mod 10)]"
proof -
  show one: "decimal n = [of_nat (48 + n)]" if "n < 10" for n
    using that by (subst decimal.simps) simp
  show two: "decimal n = [of_nat (48 + n div 10), of_nat (48 + n mod 10)]" if "10 \<le> n" "n < 100" for n
    using that one [of "n div 10"] by (subst decimal.simps) (simp del: of_nat_add)
  show "decimal n = [of_nat (48 + n div 100), of_nat (48 + n div 10 mod 10), of_nat (48 + n mod 10)]"
    if "100 \<le> n" "n < 1000" for n
    using that two [of "n div 10"] by (subst decimal.simps) (simp del: of_nat_add add: div_mult2_eq [symmetric])
qed

text \<open>\<open>digit n k\<close>: the \<open>k\<close>-th decimal digit of \<open>n\<close>.\<close>

definition digit :: "nat \<Rightarrow> nat \<Rightarrow> u8" where
  "digit n k = of_nat (48 + n div 10 ^ k mod 10)"

lemma sprintf_0d_digits:
  "n < 10 \<Longrightarrow> sprintf_0d 1 (int n) = [digit n 0]"
  "n < 100 \<Longrightarrow> sprintf_0d 2 (int n) = [digit n 1, digit n 0]"
  "n < 1000 \<Longrightarrow> sprintf_0d 3 (int n) = [digit n 2, digit n 1, digit n 0]"
proof -
  show "sprintf_0d 1 (int n) = [digit n 0]" if "n < 10"
    using that decimal_small(1) [of n] by (simp add: sprintf_0d_def digit_def del: of_nat_add)
  show "sprintf_0d 2 (int n) = [digit n 1, digit n 0]" if "n < 100"
    using that decimal_small(1,2) [of n]
    by (cases "n < 10") (simp_all add: sprintf_0d_def digit_def del: of_nat_add)
  show "sprintf_0d 3 (int n) = [digit n 2, digit n 1, digit n 0]" if "n < 1000"
  proof -
    have two: "replicate 2 x = [x, x]" for x :: u8 by (simp add: numeral_2_eq_2)
    show ?thesis using that decimal_small [of n]
      by (cases "n < 10"; cases "n < 100") (simp_all add: sprintf_0d_def digit_def two del: of_nat_add)
  qed
qed

lemma sdiv_nat: "int a sdiv int b = int (a div b)"
  by (cases "a = 0"; cases "b = 0") (simp_all add: signed_divide_int_def zdiv_int)

lemma smod_nat: "int a smod int b = int (a mod b)"
  by (cases "a = 0"; cases "b = 0") (simp_all add: signed_modulo_int_def zmod_int)

lemma triptime_text_digits:
  "triptime_text (int us) = decimal (us div 1000) @
     (if us < 1000 then [46, digit us 2, digit us 1, digit us 0]
      else if us < 10000 then [46, digit us 2, digit us 1]
      else if us < 100000 then [46, digit us 2]
      else [])"
proof -
  define m where "m = us mod 1000"
  have m: "m < 1000" "m div 10 < 100" "m div 100 < 10" by (simp_all add: m_def div_less_iff_less_mult)
  have quot: "int us sdiv 1000 = int (us div 1000)" "int us smod 1000 = int m"
    "int m sdiv 100 = int (m div 100)" "int m sdiv 10 = int (m div 10)"
    using sdiv_nat [of us 1000] smod_nat [of us 1000] sdiv_nat [of m 100] sdiv_nat [of m 10] by (simp_all add: m_def)
  have dig: "digit (m div 10) 0 = digit us 1" "digit (m div 10) 1 = digit us 2" "digit (m div 100) 0 = digit us 2"
    "digit m 0 = digit us 0" "digit m 1 = digit us 1" "digit m 2 = digit us 2"
  proof -
    define q where "q = us div 1000"
    have us: "us = m + 1000 * q" by (simp add: m_def q_def)
    have "us div 10 = (m + 10 * (100 * q)) div 10" "us div 100 = (m + 100 * (10 * q)) div 100" by (simp_all add: us)
    then have quots: "us div 10 = 10 * (10 * q) + m div 10" "us div 100 = 10 * q + m div 100"
      by (simp_all only: div_mult_self2)
    have "us mod 10 = (m + 10 * (100 * q)) mod 10" by (simp add: us)
    then have mods: "us mod 10 = m mod 10" "us div 10 mod 10 = m div 10 mod 10" "us div 100 mod 10 = m div 100 mod 10"
      by (simp_all only: quots mod_mult_self2 mod_mult_self4)
    have "m div 10 div 10 = m div 100" by (simp add: div_mult2_eq [symmetric])
    then show "digit (m div 10) 0 = digit us 1" "digit (m div 10) 1 = digit us 2" "digit (m div 100) 0 = digit us 2"
      "digit m 0 = digit us 0" "digit m 1 = digit us 1" "digit m 2 = digit us 2"
      using mods by (simp_all add: digit_def)
  qed
  show ?thesis
    using sprintf_0d_digits(1) [OF m(3)] sprintf_0d_digits(2) [OF m(2)] sprintf_0d_digits(3) [OF m(1)]
    by (simp add: triptime_text_def quot sprintf_d_def dig dig [unfolded One_nat_def])
qed

lemma length_triptime_text:
  assumes "us < 2 ^ 63"
  shows "length (triptime_text (int us)) < 32"
proof -
  have "us div 1000 < 10 ^ 16" using assms by (simp add: div_less_iff_less_mult)
  then have "length (decimal (us div 1000)) \<le> 16" by (rule length_decimal) simp
  then obtain d where "decimal (us div 1000) = d" "length d \<le> 16" by blast
  then show ?thesis unfolding triptime_text_digits by simp
qed

text \<open>The trip time in a feedback: for every positive number of microseconds the text is the number of
  milliseconds, cut off rather than rounded, with three digits behind the point below 1 ms, two
  below 10 ms, one below 100 ms and none from there on; it fits its 32 bytes, so the monitor's
  replies are queued with it, in order.\<close>

theorem Feedback_text:
  assumes "memory p" "0 < us" "us < 2 ^ 63"
  shows "Feedback p seq (int us) None s =
    Next (s\<lparr>feedbacks := feedbacks s @ [\<lparr>fb_seq = to_s32 seq,
      fb_triptime = decimal (us div 1000) @
        (if us < 1000 then [46, digit us 2, digit us 1, digit us 0]
         else if us < 10000 then [46, digit us 2, digit us 1]
         else if us < 100000 then [46, digit us 2]
         else []),
      fb_error = []\<rparr>]\<rparr>)"
proof -
  have "length (triptime_text (int us)) < 32" by (rule length_triptime_text [OF assms(3)])
  then show ?thesis unfolding Feedback_def Let_def using assms(1,2) by (simp add: triptime_text_digits)
qed

theorem Feedback_text_witness:
  "Feedback lab_platform 3 (int 1234) None server_init =
    Next (server_init\<lparr>feedbacks := feedbacks server_init @ [\<lparr>fb_seq = to_s32 3,
      fb_triptime = decimal (1234 div 1000) @
        (if (1234::nat) < 1000 then [46, digit 1234 2, digit 1234 1, digit 1234 0]
         else if (1234::nat) < 10000 then [46, digit 1234 2, digit 1234 1]
         else if (1234::nat) < 100000 then [46, digit 1234 2]
         else []),
      fb_error = []\<rparr>]\<rparr>)"
  by (rule Feedback_text) (simp_all add: lab_platform_def)

end
