(* ===== verification/Dispatch.thy ===== *)
theory Dispatch
  imports Arp_Frames Server
begin

text \<open>
  The start of the program (\<open>Init\<close> and \<open>main\<close> of program/main.c) and the dispatch of missions to the
  generators (\<open>Test_MISS\<close> and \<open>Test_Work\<close> of network/network.c), which nothing calls: the thread
  that would run \<open>Test_Work\<close> is commented out in ui/ui.c.
\<close>

section \<open>Init\<close>

text \<open>What the system answers: the target of \<open>/proc/self/exe\<close> (\<open>None\<close> is the error), the result of
  \<open>zlog_init\<close>, whether there is a log category, whether the two allocations succeed.\<close>

record boot =
  exe_link :: "u8 list option"
  zlog_result :: int
  category :: bool
  env_memory :: bool
  running_memory :: bool

definition PATH_MAX :: nat where
  "PATH_MAX = 4096"

text \<open>\<open>strrchr(exe_path, '/')\<close>, and the text up to and including that byte.\<close>

fun upto_last :: "u8 \<Rightarrow> u8 list \<Rightarrow> u8 list option" where
  "upto_last x [] = None"
| "upto_last x (c # cs) =
     (case upto_last x cs of
        Some p \<Rightarrow> Some (c # p)
      | None \<Rightarrow> if c = x then Some [c] else None)"

record process =
  config_path :: "u8 list"
  zlog_up :: bool
  srv :: "server option"

definition zlog_conf :: "u8 list" where
  "zlog_conf = ascii ''zlog.conf''"

definition process_start :: process where
  "process_start = \<lparr>config_path = [], zlog_up = False, srv = None\<rparr>"

text \<open>\<open>readlink\<close> writes no terminator: a path that fills the array of \<open>PATH_MAX\<close> bytes is read behind it.
  The lists have been initialised when \<open>srv\<close> is there.\<close>

definition Init :: "boot \<Rightarrow> process \<Rightarrow> (bool, process) flow" where
  "Init b s =
     (case exe_link b of
        None \<Rightarrow> Return False s
      | Some path \<Rightarrow>
         if length path \<ge> PATH_MAX then Trap s
         else (case upto_last 47 path of
            None \<Rightarrow> Return False s
          | Some dir \<Rightarrow>
              if length (dir @ zlog_conf) \<ge> PATH_MAX then Trap s
              else (let s = s\<lparr>config_path := dir @ zlog_conf\<rparr>
                in if zlog_result b \<noteq> 0 then Return False s
                   else (let s = s\<lparr>zlog_up := True\<rparr>
                     in if \<not> category b then Return False (s\<lparr>zlog_up := False\<rparr>)
                        else (let v = \<lparr>missions = [], feedbacks = [], srv_env = None, srv_running = None,
                                 ping_tid = 0, ping_targets = [], sent_out = []\<rparr>;
                                s = s\<lparr>srv := Some v\<rparr>
                          in if \<not> env_memory b then Return False s
                             else (let v = v\<lparr>srv_env := Some ENV_zero\<rparr>; s = s\<lparr>srv := Some v\<rparr>
                               in if \<not> running_memory b then Return False s
                                  else Return True (s\<lparr>srv := Some (v\<lparr>srv_running := Some running_zero\<rparr>)\<rparr>)))))))"

text \<open>\<open>main\<close>: the server runs when \<open>Init\<close> succeeds (its result is the state it starts in), and the
  exit code is -1 otherwise.\<close>

definition main_start :: "boot \<Rightarrow> (int + server) option" where
  "main_start b =
     (case Init b process_start of
        Return ok s \<Rightarrow> if \<not> ok then Some (Inl (-1)) else map_option Inr (srv s)
      | _ \<Rightarrow> None)"

lemma upto_last_app: "x \<notin> set ys \<Longrightarrow> upto_last x (xs @ x # ys) = Some (xs @ [x])"
proof (induction xs)
  case Nil
  then have "upto_last x ys = None" by (induction ys) auto
  then show ?case by simp
qed simp

text \<open>The start of the program. With an executable at \<open>dir/name\<close>, a path that is short enough, and a
  system that gives what is asked for, the log is configured from \<open>zlog.conf\<close> in the same directory
  and the server starts in the initial state of its invariant; every refusal makes \<open>main\<close> return -1
  without serving.\<close>

theorem main_starts:
  assumes "exe_link b = Some (dir @ 47 # name)" "47 \<notin> set name" "length dir + length name < 4086"
  shows "config_path (flow_state (Init b process_start)) = dir @ 47 # ascii ''zlog.conf'' \<and>
    main_start b =
      (if zlog_result b = 0 \<and> category b \<and> env_memory b \<and> running_memory b
       then Some (Inr server_init) else Some (Inl (-1)))"
proof -
  have len: "length zlog_conf = 9" by (simp add: zlog_conf_def ascii_def)
  have "Init b process_start =
    (let s = process_start\<lparr>config_path := (dir @ [47]) @ zlog_conf\<rparr>
     in if zlog_result b \<noteq> 0 then Return False s
        else if \<not> category b then Return False (s\<lparr>zlog_up := False\<rparr>)
        else if \<not> env_memory b then Return False (s\<lparr>zlog_up := True, srv := Some (server_init\<lparr>srv_env := None, srv_running := None\<rparr>)\<rparr>)
        else if \<not> running_memory b then Return False (s\<lparr>zlog_up := True, srv := Some (server_init\<lparr>srv_running := None\<rparr>)\<rparr>)
        else Return True (s\<lparr>zlog_up := True, srv := Some server_init\<rparr>))"
    using assms upto_last_app [OF assms(2), of dir] len
    by (simp add: Init_def PATH_MAX_def Let_def server_init_def process_start_def)
  then show ?thesis
    by (simp add: main_start_def Let_def zlog_conf_def process_start_def)
qed

definition lab_boot :: boot where
  "lab_boot = \<lparr>exe_link = Some [47, 98, 47, 112], zlog_result = 0, category = True, env_memory = True, running_memory = True\<rparr>"

theorem main_starts_witness:
  "config_path (flow_state (Init lab_boot process_start)) = [47, 98] @ 47 # ascii ''zlog.conf'' \<and>
    main_start lab_boot =
      (if zlog_result lab_boot = 0 \<and> category lab_boot \<and> env_memory lab_boot \<and> running_memory lab_boot
       then Some (Inr server_init) else Some (Inl (-1)))"
  by (rule main_starts [where name = "[112]"]) (simp_all add: lab_boot_def)

section \<open>Test_MISS and Test_Work\<close>

text \<open>The argument struct \<open>Test_MISS\<close> prepares in a fresh block \<open>g\<close>: speed and times are not set, of the
  device six bytes are.\<close>

definition storm_argument :: "ENV \<Rightarrow> job \<Rightarrow> job" where
  "storm_argument e g = g\<lparr>ip_dst := target1 e, ip_src := host e, enet_dst := target1_mac e, enet_src := host_mac e,
     device := take 6 (env_device e) @ drop 6 (device g)\<rparr>"

text \<open>The thread gets \<open>&a\<close>, the address of the local pointer to that struct, and reads its argument from
  there: \<open>behind\<close> gives the struct that lies at the address of a pointer to a struct. The thread is
  joined. \<open>None\<close> as for the storms.\<close>

definition Test_MISS ::
  "(job \<Rightarrow> job) \<Rightarrow> job \<Rightarrow> u32 \<Rightarrow> nat \<Rightarrow> env \<Rightarrow> server \<Rightarrow> mission \<Rightarrow> net \<Rightarrow> (int, net) flow option" where
  "Test_MISS behind heap g fuel E s m w =
     (if m_status m = RUNNING then
        (if m_type m = mission_type_value ARP_REQUEST_STORM_T then
           (case srv_env s of
              None \<Rightarrow> Some (Trap w)
            | Some e \<Rightarrow>
                (let a = storm_argument e heap
                 in map_option (\<lambda>r. call_with 0 r (\<lambda>_ w. Next w)) (ARP_Request_Storm g fuel E (behind a) w)))
         else Some (Next w))
      else Some (Next w))"

definition mission_zero :: mission where
  "mission_zero = \<lparr>m_name = replicate 16 0, m_type = 0, m_status = STOPPED, m_param = cJSON_New_Item\<rparr>"

text \<open>The walk over the missions: each running one overwrites the copy.\<close>

fun copy_running :: "mission list \<Rightarrow> mission \<Rightarrow> mission" where
  "copy_running [] run_misson = run_misson"
| "copy_running (entry # es) run_misson =
     copy_running es (if m_status entry = RUNNING then entry else run_misson)"

text \<open>The \<open>do\<close> loop ends after one round: \<open>name\<close> is an array, its address is not null.\<close>

definition work_loop ::
  "(job \<Rightarrow> job) \<Rightarrow> job \<Rightarrow> u32 \<Rightarrow> nat \<Rightarrow> env \<Rightarrow> server \<Rightarrow> net \<Rightarrow> (int, net) flow option" where
  "work_loop behind heap g fuel E s w = Test_MISS behind heap g fuel E s (copy_running (missions s) mission_zero) w"

definition Test_Work ::
  "(job \<Rightarrow> job) \<Rightarrow> job \<Rightarrow> u32 \<Rightarrow> nat \<Rightarrow> env \<Rightarrow> command \<Rightarrow> server \<Rightarrow> net \<Rightarrow> (int, net) flow option" where
  "Test_Work behind heap g fuel E a s w =
     (if c_ALLGO a then
        (if c_order a = 0 then work_loop behind heap g fuel E s w else Some (Next w))
      else
        (if c_order a = 0 then work_loop behind heap g fuel E s w else Some (Next w)))"

lemma copy_running_eq:
  "copy_running ms d = (if \<exists>m\<in>set ms. m_status m = RUNNING then last (filter (\<lambda>m. m_status m = RUNNING) ms) else d)"
proof (induction ms arbitrary: d)
  case (Cons m ms)
  have "filter (\<lambda>m. m_status m = RUNNING) ms = [] \<longleftrightarrow> \<not> (\<exists>m\<in>set ms. m_status m = RUNNING)"
    by (auto simp: filter_empty_conv)
  then show ?case using Cons by auto
qed simp

text \<open>The dispatch of missions, if it were called: a start command runs the last of the running missions
  only, and only if it is an ARP request storm, whichever mission the command is for; all other
  commands and all other missions do nothing. The storm does not get the argument prepared for it,
  but what lies at the address of the pointer to it.\<close>

theorem Test_Work_runs_last:
  assumes "srv_env s = Some e"
  shows "Test_Work behind heap g fuel E a s w =
    (if c_order a = 0 \<and> filter (\<lambda>m. m_status m = RUNNING) (missions s) \<noteq> [] \<and>
        m_type (last (filter (\<lambda>m. m_status m = RUNNING) (missions s))) = 0
     then map_option (\<lambda>r. call_with 0 r (\<lambda>_ w. Next w)) (ARP_Request_Storm g fuel E (behind (storm_argument e heap)) w)
     else Some (Next w))"
proof -
  have "filter (\<lambda>m. m_status m = RUNNING) (missions s) = [] \<longleftrightarrow> \<not> (\<exists>m\<in>set (missions s). m_status m = RUNNING)"
    by (auto simp: filter_empty_conv)
  moreover have "m_status (last (filter (\<lambda>m. m_status m = RUNNING) ms)) = RUNNING"
    if "filter (\<lambda>m. m_status m = RUNNING) ms \<noteq> []" for ms
    using last_in_set [OF that] by simp
  ultimately show ?thesis
    using assms by (auto simp: Test_Work_def work_loop_def Test_MISS_def copy_running_eq mission_zero_def)
qed

definition storm_server :: server where
  "storm_server = server_init\<lparr>missions :=
     [\<lparr>m_name = replicate 16 0, m_type = 3, m_status = RUNNING, m_param = cJSON_New_Item\<rparr>]\<rparr>"

theorem Test_Work_runs_last_witness:
  "Test_Work id lab_job 0 5 good_env \<lparr>c_type = T_MISSION, c_order = 0, c_m_type = 3, c_ALLGO = False\<rparr> storm_server net_init =
    (if c_order \<lparr>c_type = T_MISSION, c_order = 0, c_m_type = 3, c_ALLGO = False\<rparr> = 0 \<and>
        filter (\<lambda>m. m_status m = RUNNING) (missions storm_server) \<noteq> [] \<and>
        m_type (last (filter (\<lambda>m. m_status m = RUNNING) (missions storm_server))) = 0
     then map_option (\<lambda>r. call_with 0 r (\<lambda>_ w. Next w))
       (ARP_Request_Storm 0 5 good_env (id (storm_argument ENV_zero lab_job)) net_init)
     else Some (Next net_init))"
  by (rule Test_Work_runs_last) (simp add: storm_server_def server_init_def)

end
