(* ===== verification/Json_Minify.thy ===== *)
theory Json_Minify
  imports Json_Roundtrip
begin

text \<open>
  \<open>cJSON_Minify\<close> of comm/cJSON.c, which strips blanks and comments from a text in place. The memory is the block the
  text lies in, with the two cursors \<open>json\<close> and \<open>into\<close> as offsets; an access behind the block is a \<open>Fault\<close>.
\<close>

section \<open>The code\<close>

type_synonym cursors = "nat \<times> nat \<times> u8 list"

definition byte_at :: "u8 list \<Rightarrow> nat \<Rightarrow> u8 res" where
  "byte_at m j = (if j < length m then Ok (m ! j) else Fault)"

text \<open>\<open>*into++ = *json++\<close>\<close>

fun copy_byte :: "cursors \<Rightarrow> cursors res" where
  "copy_byte (j, i, m) = (if j < length m \<and> i < length m then Ok (j + 1, i + 1, m[i := m ! j]) else Fault)"

function skip_line :: "u8 list \<Rightarrow> nat \<Rightarrow> nat res" where
  "skip_line m j = (if j \<ge> length m then Fault else if m ! j = 0 \<or> m ! j = 10 then Ok j else skip_line m (j + 1))"
  by pat_completeness auto
termination by (relation "measure (\<lambda>(m, j). length m - j)") auto

text \<open>The second byte is read only behind an asterisk; at the end \<open>json += 2\<close> in any case.\<close>

function skip_comment :: "u8 list \<Rightarrow> nat \<Rightarrow> nat res" where
  "skip_comment m j =
     (if j \<ge> length m then Fault
      else if m ! j = 0 then Ok (j + 2)
      else if m ! j = 42 then
        (if j + 1 \<ge> length m then Fault else if m ! (j + 1) = 47 then Ok (j + 2) else skip_comment m (j + 1))
      else skip_comment m (j + 1))"
  by pat_completeness auto
termination by (relation "measure (\<lambda>(m, j). length m - j)") auto

function copy_string :: "cursors \<Rightarrow> cursors res" where
  "copy_string (j, i, m) =
     (if j \<ge> length m then Fault
      else if m ! j = 0 \<or> m ! j = 34 then copy_byte (j, i, m)
      else (case (if m ! j = 92 then copy_byte (j, i, m) else Ok (j, i, m)) of
              Ok s \<Rightarrow> (case copy_byte s of Ok s \<Rightarrow> copy_string s | _ \<Rightarrow> Fault)
            | _ \<Rightarrow> Fault))"
  by pat_completeness auto
termination by (relation "measure (\<lambda>(j, i, m). length m - j)") (auto split: if_splits)

definition minify_step :: "u8 \<Rightarrow> cursors \<Rightarrow> cursors res" where
  "minify_step c = (\<lambda>(j, i, m).
     if c = 32 \<or> c = 9 \<or> c = 13 \<or> c = 10 then Ok (j + 1, i, m)
     else if c = 47 then
       bind_res (byte_at m (j + 1)) (\<lambda>d.
         if d = 47 then bind_res (skip_line m j) (\<lambda>j. Ok (j, i, m))
         else if d = 42 then bind_res (skip_comment m j) (\<lambda>j. Ok (j, i, m))
         else copy_byte (j, i, m))
     else if c = 34 then bind_res (copy_byte (j, i, m)) copy_string
     else copy_byte (j, i, m))"

declare skip_line.simps [simp del] skip_comment.simps [simp del] copy_string.simps [simp del]

lemma skip_line_forward: "skip_line m j = Ok j' \<Longrightarrow> j \<le> j' \<and> (m ! j \<noteq> 0 \<and> m ! j \<noteq> 10 \<longrightarrow> j < j')"
proof (induction m j rule: skip_line.induct)
  case (1 m j)
  then show ?case by (subst (asm) skip_line.simps [of m j]) (auto split: if_splits)
qed

lemma skip_comment_forward: "skip_comment m j = Ok j' \<Longrightarrow> j < j'"
proof (induction m j rule: skip_comment.induct)
  case (1 m j)
  then show ?case by (subst (asm) skip_comment.simps [of m j]) (auto split: if_splits)
qed

lemma copy_string_forward: "copy_string (j, i, m) = Ok (j', i', m') \<Longrightarrow> j < j' \<and> length m' = length m"
proof (induction "length m - j" arbitrary: j i m rule: less_induct)
  case less
  note IH = less(1) [rotated]
  show ?case
    using less(2) by (subst (asm) copy_string.simps) (auto split: if_splits dest!: IH)
qed

lemma minify_step_forward:
  assumes "minify_step (m ! j) (j, i, m) = Ok (j', i', m')"
  shows "j < j' \<and> length m' = length m"
  using assms
  by (auto simp: minify_step_def byte_at_def split: if_splits dest!: skip_line_forward skip_comment_forward copy_string_forward)

function minify_loop :: "cursors \<Rightarrow> cursors res" where
  "minify_loop (j, i, m) =
     (if j \<ge> length m then Fault
      else if m ! j = 0 then Ok (j, i, m)
      else (case minify_step (m ! j) (j, i, m) of Ok s \<Rightarrow> minify_loop s | r \<Rightarrow> r))"
  by pat_completeness auto
termination by (relation "measure (\<lambda>(j, i, m). length m - j)") (auto dest!: minify_step_forward)

declare minify_loop.simps [simp del]

text \<open>The text afterwards, up to its terminator.\<close>

definition cJSON_Minify :: "u8 list \<Rightarrow> u8 list res" where
  "cJSON_Minify json = bind_res (minify_loop (0, 0, json)) (\<lambda>(j, i, m). Ok (m[i := 0]))"

section \<open>What it keeps\<close>

text \<open>The cursors behind the bytes written, \<open>out\<close>, and the stale bytes that follow them.\<close>

definition cursors_at :: "u8 list \<Rightarrow> u8 list \<Rightarrow> u8 list \<Rightarrow> cursors" where
  "cursors_at out stale s = (length out + length stale, length out, out @ stale @ s)"

text \<open>\<open>reduces f s u\<close>: the loop \<open>f\<close> reads \<open>s\<close> and writes \<open>u\<close>.\<close>

definition reduces :: "(cursors \<Rightarrow> cursors res) \<Rightarrow> u8 list \<Rightarrow> u8 list \<Rightarrow> bool" where
  "reduces f s u \<longleftrightarrow> (\<forall>out stale t. \<exists>stale'. length u + length stale' = length stale + length s \<and>
     f (cursors_at out stale (s @ t)) = f (cursors_at (out @ u) stale' t))"

lemma reduces_Nil: "reduces f [] []"
  unfolding reduces_def by auto

lemma reduces_append:
  assumes "reduces f s u" "reduces f s' u'"
  shows "reduces f (s @ s') (u @ u')"
  unfolding reduces_def
proof (intro allI)
  fix out stale t
  from assms(1) obtain st1 where 1: "length u + length st1 = length stale + length s"
    "f (cursors_at out stale (s @ s' @ t)) = f (cursors_at (out @ u) st1 (s' @ t))"
    unfolding reduces_def by blast
  from assms(2) obtain st2 where 2: "length u' + length st2 = length st1 + length s'"
    "f (cursors_at (out @ u) st1 (s' @ t)) = f (cursors_at ((out @ u) @ u') st2 t)"
    unfolding reduces_def by blast
  show "\<exists>stale'. length (u @ u') + length stale' = length stale + length (s @ s') \<and>
      f (cursors_at out stale ((s @ s') @ t)) = f (cursors_at (out @ u @ u') stale' t)"
    using 1 2 by (intro exI [of _ st2]) simp
qed

lemma reduces_concat:
  "(\<And>x. x \<in> set xs \<Longrightarrow> reduces f (g x) (h x)) \<Longrightarrow> reduces f (concat (map g xs)) (concat (map h xs))"
  by (induction xs) (auto intro: reduces_append reduces_Nil)

lemma reduces_each: "(\<And>c. c \<in> set s \<Longrightarrow> reduces f [c] [c]) \<Longrightarrow> reduces f s s"
  using reduces_concat [of s f "\<lambda>c. [c]" "\<lambda>c. [c]"] by simp

lemma copy_byte_at: "copy_byte (cursors_at out stale (c # s)) = Ok (cursors_at (out @ [c]) (tl (stale @ [c])) s)"
  by (cases stale) (simp_all add: cursors_at_def nth_append list_update_append)

lemma byte_here:
  "(out @ stale @ c # s) ! (length out + length stale) = c"
  "(out @ stale @ c # d # s) ! Suc (length out + length stale) = d"
  by (simp_all add: nth_append)

lemma copy_string_at:
  "copy_string (cursors_at out stale (c # s)) =
     (if c = 0 \<or> c = 34 then Ok (cursors_at (out @ [c]) (tl (stale @ [c])) s)
      else case (if c = 92 then Ok (cursors_at (out @ [c]) (tl (stale @ [c])) s) else Ok (cursors_at out stale (c # s))) of
              Ok x \<Rightarrow> (case copy_byte x of Ok x \<Rightarrow> copy_string x | _ \<Rightarrow> Fault)
            | _ \<Rightarrow> Fault)"
  unfolding copy_byte_at [symmetric]
  unfolding cursors_at_def by (subst copy_string.simps) (simp add: byte_here)

lemma copy_string_byte: "c \<noteq> 0 \<Longrightarrow> c \<noteq> 34 \<Longrightarrow> c \<noteq> 92 \<Longrightarrow> reduces copy_string [c] [c]"
  unfolding reduces_def
  by (intro allI, rule_tac x = "tl (stale @ [c])" in exI) (simp add: copy_string_at copy_byte_at)

lemma copy_string_escape: "reduces copy_string [92, c] [92, c]"
  unfolding reduces_def
  by (intro allI, rule_tac x = "tl (tl (stale @ [92]) @ [c])" in exI) (simp add: copy_string_at copy_byte_at)

lemma skip_line_at:
  "\<forall>c\<in>set body. c \<noteq> 0 \<and> c \<noteq> 10 \<Longrightarrow> c = 0 \<or> c = 10 \<Longrightarrow>
    skip_line (pre @ body @ c # t) (length pre) = Ok (length pre + length body)"
proof (induction body arbitrary: pre)
  case (Cons b body)
  then show ?case using Cons.IH [of "pre @ [b]"] by (subst skip_line.simps) (simp add: nth_append)
qed (simp add: skip_line.simps nth_append)

text \<open>A comment so far: no terminator and no end of the comment in it.\<close>

fun open_comment :: "u8 list \<Rightarrow> bool" where
  "open_comment [] \<longleftrightarrow> True"
| "open_comment (c # cs) \<longleftrightarrow> c \<noteq> 0 \<and> \<not> (c = 42 \<and> cs \<noteq> [] \<and> hd cs = 47) \<and> open_comment cs"

lemma skip_comment_at:
  assumes "open_comment body" "t = 42 # 47 # t' \<or> t = 0 # t'"
  shows "skip_comment (pre @ body @ t) (length pre) = Ok (length pre + length body + 2)"
  using assms(1)
proof (induction body arbitrary: pre)
  case Nil
  then show ?case using assms(2) by (subst skip_comment.simps) (auto simp: nth_append)
next
  case (Cons b body)
  have hd: "(body @ t) ! 0 \<noteq> 47" if "b = 42"
    using Cons.prems that assms(2) by (cases body) auto
  have "(pre @ b # body @ t) ! (length pre) = b" "(pre @ b # body @ t) ! Suc (length pre) = (body @ t) ! 0"
    by (simp_all add: nth_append)
  moreover have "Suc (length pre) < length (pre @ b # body @ t)" using assms(2) by auto
  ultimately show ?case using Cons.IH [of "pre @ [b]"] Cons.prems hd
    by (cases "b = 42"; subst skip_comment.simps) simp_all
qed

lemma minify_loop_at:
  "minify_loop (cursors_at out stale (c # s)) =
     (if c = 0 then Ok (cursors_at out stale (c # s))
      else case minify_step c (cursors_at out stale (c # s)) of Ok x \<Rightarrow> minify_loop x | r \<Rightarrow> r)"
  unfolding cursors_at_def by (subst minify_loop.simps) (simp add: byte_here)

text \<open>The parts of a text: blanks, comments to the end of a line and in asterisks, string literals, given by
  their bytes and escapes, and other bytes. A comment starts with its first slash: \<open>/*/\<close> is one.\<close>

datatype piece = Blank u8 | Line "u8 list" | Comment "u8 list" | Literal "u8 list list" | Other u8

fun piece_ok :: "piece \<Rightarrow> bool" where
  "piece_ok (Blank c) \<longleftrightarrow> c \<in> {32, 9, 13, 10}"
| "piece_ok (Line body) \<longleftrightarrow> 0 \<notin> set body \<and> 10 \<notin> set body"
| "piece_ok (Comment body) \<longleftrightarrow> (\<exists>cs. body @ [42] = 47 # 42 # cs) \<and> open_comment body"
| "piece_ok (Literal chunks) \<longleftrightarrow> (\<forall>b\<in>set chunks. (\<exists>c. b = [c] \<and> c \<notin> {0, 34, 92}) \<or> (\<exists>c. b = [92, c]))"
| "piece_ok (Other c) \<longleftrightarrow> c \<notin> {0, 32, 9, 13, 10, 34, 47}"

fun piece_text :: "piece \<Rightarrow> u8 list" where
  "piece_text (Blank c) = [c]"
| "piece_text (Line body) = 47 # 47 # body @ [10]"
| "piece_text (Comment body) = body @ [42, 47]"
| "piece_text (Literal chunks) = 34 # concat chunks @ [34]"
| "piece_text (Other c) = [c]"

fun piece_kept :: "piece \<Rightarrow> u8 list" where
  "piece_kept (Literal chunks) = 34 # concat chunks @ [34]"
| "piece_kept (Other c) = [c]"
| "piece_kept _ = []"

lemma chunks_copied:
  assumes "piece_ok (Literal chunks)"
  shows "reduces copy_string (concat chunks) (concat chunks)"
  using assms reduces_concat [of chunks copy_string "\<lambda>x. x" "\<lambda>x. x"] copy_string_byte copy_string_escape by force

lemma skips:
  assumes "\<And>out stale t. minify_loop (cursors_at out stale (s @ t)) = minify_loop (cursors_at out (stale @ s) t)"
  shows "reduces minify_loop s []"
  using assms unfolding reduces_def by (intro allI, rule_tac x = "stale @ s" in exI) simp

lemma reduces_blank: "piece_ok (Blank c) \<Longrightarrow> reduces minify_loop [c] []"
proof (rule skips)
  fix out stale t
  assume "piece_ok (Blank c)"
  moreover from this have "minify_step c (cursors_at out stale (c # t)) = Ok (cursors_at out (stale @ [c]) t)"
    by (auto simp: minify_step_def cursors_at_def)
  ultimately show "minify_loop (cursors_at out stale ([c] @ t)) = minify_loop (cursors_at out (stale @ [c]) t)"
    by (auto simp: minify_loop_at)
qed

lemma reduces_other:
  assumes "piece_ok (Other c)"
  shows "reduces minify_loop [c] [c]"
  unfolding reduces_def
proof (intro allI)
  fix out stale t
  have "minify_step c (cursors_at out stale (c # t)) = Ok (cursors_at (out @ [c]) (tl (stale @ [c])) t)"
    using assms copy_byte_at [of out stale c t] by (simp add: minify_step_def cursors_at_def)
  then show "\<exists>stale'. length [c] + length stale' = length stale + length [c] \<and>
      minify_loop (cursors_at out stale ([c] @ t)) = minify_loop (cursors_at (out @ [c]) stale' t)"
    using assms by (intro exI [of _ "tl (stale @ [c])"]) (simp add: minify_loop_at)
qed

lemma reduces_line:
  assumes "piece_ok (Line body)"
  shows "reduces minify_loop (47 # 47 # body @ [10]) []"
proof (rule skips)
  fix out stale t
  have "skip_line ((out @ stale) @ (47 # 47 # body) @ 10 # t) (length (out @ stale)) = Ok (length (out @ stale) + length (47 # 47 # body))"
    using assms by (intro skip_line_at) auto
  then have "minify_step 47 (cursors_at out stale (47 # 47 # body @ 10 # t)) = Ok (cursors_at out (stale @ 47 # 47 # body) (10 # t))"
    by (simp add: minify_step_def cursors_at_def byte_at_def byte_here)
  then show "minify_loop (cursors_at out stale ((47 # 47 # body @ [10]) @ t)) =
      minify_loop (cursors_at out (stale @ 47 # 47 # body @ [10]) t)"
    by (simp add: minify_loop_at minify_step_def) (simp add: cursors_at_def)
qed

lemma comment_step:
  assumes "open_comment body" "t = 42 # 47 # t' \<or> t = 0 # t'" "body @ t = 47 # 42 # cs"
  shows "minify_step 47 (cursors_at out stale (body @ t)) =
    Ok (length out + length stale + length body + 2, length out, out @ stale @ body @ t)"
  using skip_comment_at [OF assms(1,2), of "out @ stale"] assms(3)
  by (simp add: minify_step_def cursors_at_def byte_at_def byte_here)

lemma reduces_comment:
  assumes "piece_ok (Comment body)"
  shows "reduces minify_loop (body @ [42, 47]) []"
proof (rule skips)
  fix out stale t
  obtain cs where cs: "body @ [42] = 47 # 42 # cs" using assms by auto
  then have start: "body @ 42 # 47 # t = 47 # 42 # (cs @ 47 # t)"
    using arg_cong [OF cs, of "\<lambda>x. x @ 47 # t"] by simp
  have "minify_step 47 (cursors_at out stale (body @ 42 # 47 # t)) = Ok (cursors_at out (stale @ body @ [42, 47]) t)"
    using comment_step [OF _ _ start, of t] assms by (simp add: cursors_at_def)
  then show "minify_loop (cursors_at out stale ((body @ [42, 47]) @ t)) =
      minify_loop (cursors_at out (stale @ body @ [42, 47]) t)"
    by (simp add: start) (simp add: minify_loop_at)
qed

lemma minify_step_quote: "minify_step 34 x = bind_res (copy_byte x) copy_string"
  by (cases x) (simp add: minify_step_def del: copy_byte.simps)

lemma reduces_literal:
  assumes "piece_ok (Literal chunks)"
  shows "reduces minify_loop (34 # concat chunks @ [34]) (34 # concat chunks @ [34])"
  unfolding reduces_def
proof (intro allI)
  fix out stale t
  let ?b = "concat chunks"
  obtain st where st: "length ?b + length st = length (tl (stale @ [34])) + length ?b"
    "copy_string (cursors_at (out @ [34]) (tl (stale @ [34])) (?b @ 34 # t)) = copy_string (cursors_at ((out @ [34]) @ ?b) st (34 # t))"
    using chunks_copied [OF assms] unfolding reduces_def by blast
  have "minify_step 34 (cursors_at out stale (34 # ?b @ 34 # t)) = Ok (cursors_at (out @ 34 # ?b @ [34]) (tl (st @ [34])) t)"
    using copy_byte_at [of out stale 34 "?b @ 34 # t"] st(2)
    by (simp add: minify_step_quote copy_string_at)
  then show "\<exists>stale'. length (34 # ?b @ [34]) + length stale' = length stale + length (34 # ?b @ [34]) \<and>
      minify_loop (cursors_at out stale ((34 # ?b @ [34]) @ t)) = minify_loop (cursors_at (out @ 34 # ?b @ [34]) stale' t)"
    using st(1) by (intro exI [of _ "tl (st @ [34])"]) (simp add: minify_loop_at)
qed

lemma reduces_piece: "piece_ok p \<Longrightarrow> reduces minify_loop (piece_text p) (piece_kept p)"
  using reduces_blank reduces_line reduces_comment reduces_literal reduces_other by (cases p) simp_all

lemma reduces_pieces:
  "\<forall>p\<in>set ps. piece_ok p \<Longrightarrow> reduces minify_loop (concat (map piece_text ps)) (concat (map piece_kept ps))"
  by (intro reduces_concat reduces_piece) auto

lemma minified:
  assumes "reduces minify_loop s u"
  shows "\<exists>junk. length u + length junk = length s \<and> cJSON_Minify (s @ 0 # t) = Ok (u @ 0 # junk @ t)"
proof -
  obtain stale where st: "length u + length stale = length s"
    "minify_loop (cursors_at [] [] (s @ 0 # t)) = minify_loop (cursors_at u stale (0 # t))"
    using assms unfolding reduces_def by (metis add.left_neutral append_Nil list.size(3))
  have "cJSON_Minify (s @ 0 # t) = Ok (u @ 0 # tl (stale @ [0]) @ t)"
    using st(2) by (simp add: cJSON_Minify_def minify_loop_at) (cases stale, simp_all add: cursors_at_def list_update_append)
  then show ?thesis using st(1) by (intro exI [of _ "tl (stale @ [0])"]) simp
qed

text \<open>\<open>cJSON_Minify\<close> ends on every text and keeps of a text of blanks, comments, strings and other bytes exactly the
  strings and the other bytes, in their order and in place; the block has its size and what follows the text is
  not touched.\<close>

theorem cJSON_Minify_keeps:
  assumes "\<forall>p\<in>set ps. piece_ok p"
  shows "\<exists>junk. length (concat (map piece_kept ps)) + length junk = length (concat (map piece_text ps)) \<and>
    cJSON_Minify (concat (map piece_text ps) @ 0 # t) = Ok (concat (map piece_kept ps) @ 0 # junk @ t)"
  by (rule minified [OF reduces_pieces [OF assms]])

theorem cJSON_Minify_keeps_witness:
  "\<exists>junk. length (concat (map piece_kept [Other 91, Comment [47, 42, 32], Literal [[47], [92, 34]], Blank 10, Other 93])) + length junk =
      length (concat (map piece_text [Other 91, Comment [47, 42, 32], Literal [[47], [92, 34]], Blank 10, Other 93])) \<and>
    cJSON_Minify (concat (map piece_text [Other 91, Comment [47, 42, 32], Literal [[47], [92, 34]], Blank 10, Other 93]) @ 0 # [7]) =
      Ok (concat (map piece_kept [Other 91, Comment [47, 42, 32], Literal [[47], [92, 34]], Blank 10, Other 93]) @ 0 # junk @ [7])"
  by (rule cJSON_Minify_keeps) simp

text \<open>What it does not survive: a comment or a string the text does not close. Both cursors leave the text behind its
  terminator, and where the block ends there, the block.\<close>

lemma open_comment_faults:
  assumes "\<forall>p\<in>set ps. piece_ok p" "open_comment body" "body = 47 # 42 # cs"
  shows "cJSON_Minify (concat (map piece_text ps) @ body @ [0]) = Fault"
proof -
  obtain stale u where "minify_loop (cursors_at [] [] (concat (map piece_text ps) @ body @ [0])) =
      minify_loop (cursors_at u stale (body @ [0]))"
    using reduces_pieces [OF assms(1)] unfolding reduces_def by (metis append_Nil)
  also have "\<dots> = Fault"
  proof -
    have "minify_step 47 (cursors_at u stale (47 # 42 # cs @ [0])) =
        Ok (length u + length stale + length body + 2, length u, u @ stale @ body @ [0])"
      using comment_step [OF assms(2), of "[0]" "[]" "cs @ [0]" u stale] by (simp add: assms(3))
    then show ?thesis by (simp add: assms(3) minify_loop_at) (simp add: minify_loop.simps)
  qed
  finally show ?thesis by (simp add: cJSON_Minify_def cursors_at_def)
qed

lemma open_string_faults:
  assumes "\<forall>p\<in>set ps. piece_ok p" "piece_ok (Literal chunks)"
  shows "cJSON_Minify (concat (map piece_text ps) @ 34 # concat chunks @ [0]) = Fault"
proof -
  obtain stale u where "minify_loop (cursors_at [] [] (concat (map piece_text ps) @ 34 # concat chunks @ [0])) =
      minify_loop (cursors_at u stale (34 # concat chunks @ [0]))"
    using reduces_pieces [OF assms(1)] unfolding reduces_def by (metis append_Nil)
  also obtain st where st: "copy_string (cursors_at (u @ [34]) (tl (stale @ [34])) (concat chunks @ [0])) =
      copy_string (cursors_at ((u @ [34]) @ concat chunks) st [0])"
    using chunks_copied [OF assms(2)] unfolding reduces_def by blast
  have "minify_step 34 (cursors_at u stale (34 # concat chunks @ [0])) =
      Ok (cursors_at (u @ 34 # concat chunks @ [0]) (tl (st @ [0])) [])"
    using st by (simp add: minify_step_quote copy_byte_at copy_string_at)
  then have "minify_loop (cursors_at u stale (34 # concat chunks @ [0])) = Fault"
    by (simp add: minify_loop_at) (simp add: cursors_at_def minify_loop.simps)
  finally show ?thesis by (simp add: cJSON_Minify_def cursors_at_def)
qed

section \<open>Minifying what the printer prints\<close>

lemma reduces_ascii: "\<forall>c\<in>set s. piece_ok (Other c) \<Longrightarrow> reduces minify_loop s s"
  by (rule reduces_each, rule reduces_other) auto

lemma reduces_blanks: "\<forall>c\<in>set s. piece_ok (Blank c) \<Longrightarrow> reduces minify_loop s []"
proof (induction s)
  case (Cons c s)
  then have "reduces minify_loop ([c] @ s) ([] @ [])" by (intro reduces_append reduces_blank) auto
  then show ?case by simp
qed (simp add: reduces_Nil)

definition number_char :: "u8 \<Rightarrow> bool" where
  "number_char c \<longleftrightarrow> is_digit c \<or> c \<in> {45, 46, 101, 43}"

lemma number_char_other: "number_char c \<Longrightarrow> piece_ok (Other c)"
  by (auto simp: number_char_def is_digit_def)

lemma number_chars:
  "c \<in> set (decimal n) \<Longrightarrow> number_char c" "c \<in> set (padded w n) \<Longrightarrow> number_char c" "c \<in> set (sign_text d) \<Longrightarrow> number_char c"
  using decimal_digits [of n] by (auto simp: number_char_def padded_def sign_text_def is_digit_def split: if_splits)

lemma number_char_signs: "number_char 45" "number_char 46" "number_char 101" "number_char 43"
  by (simp_all add: number_char_def)

lemma print_number_chars:
  assumes "print_number vi d = Ok s" "c \<in> set s"
  shows "number_char c"
proof -
  have "c \<in> set (sprintf_d vi) \<Longrightarrow> number_char c" "c \<in> set (sprintf_f0 d) \<Longrightarrow> number_char c"
    "c \<in> set (sprintf_f d) \<Longrightarrow> number_char c" "c \<in> set (sprintf_e d) \<Longrightarrow> number_char c"
    unfolding sprintf_d_def sprintf_f0_def sprintf_f_def sprintf_e_def
    by (auto simp: Let_def number_char_signs dest: number_chars split: prod.splits if_splits)
  then show ?thesis using assms by (auto simp: print_number_def into_block_def split: if_splits)
qed

lemma hex_char_ok: "n < 16 \<Longrightarrow> hex_char n \<notin> {0, 34, 92}"
  using hex_value_char [of n] by (auto simp: hex_value_def)

lemma print_byte_pieces: "\<exists>bs. print_byte c = concat bs \<and> piece_ok (Literal bs)"
proof -
  have "unat c < 256" using unsigned_less [of c] by simp
  then have less: "unat c div 16 < 16" by simp
  show ?thesis
  proof (cases c rule: print_tok_cases)
    case plain
    moreover from this have "c \<noteq> 0" by (auto simp: print_tok_def)
    ultimately show ?thesis by (intro exI [of _ "[[c]]"]) (simp flip: print_tok_text)
  next
    case (escaped e)
    then show ?thesis by (intro exI [of _ "[[92, e]]"]) (simp flip: print_tok_text)
  next
    case control
    then show ?thesis using print_tok_text [of c] hex_char_ok [OF less] hex_char_ok [of "unat c mod 16"]
      by (intro exI [of _ "[[92, 117], [48], [48], [hex_char (unat c div 16)], [hex_char (unat c mod 16)]]"]) simp
  qed
qed

lemma reduces_string:
  assumes "print_string_ptr nm = Ok s"
  shows "reduces minify_loop s s"
proof (cases nm)
  case (Some str)
  obtain f where f: "\<And>c. print_byte c = concat (f c) \<and> piece_ok (Literal (f c))" using print_byte_pieces by metis
  have "concat (map print_byte str) = concat (concat (map f str))" using f by (induction str) auto
  moreover have "piece_ok (Literal (concat (map f str)))" using f by (simp only: piece_ok.simps) auto
  ultimately show ?thesis
    using assms Some reduces_literal [of "concat (map f str)"] by (simp only: print_string_ptr_ok) simp
qed (use assms in \<open>simp add: print_string_ptr_def reduces_Nil\<close>)

lemma reduces_separated:
  assumes "list_all2 (reduces f) es us" "reduces f s v"
  shows "reduces f (separated s es) (separated v us)"
  using assms
proof (induction s es arbitrary: us rule: separated.induct)
  case (3 s e e' es)
  then show ?case by (auto simp: list_all2_Cons1 intro!: reduces_append)
qed (auto simp: list_all2_Cons1 reduces_Nil)

lemma small_texts:
  "reduces minify_loop null_text null_text" "reduces minify_loop false_text false_text" "reduces minify_loop true_text true_text"
  by (rule reduces_ascii, simp add: null_text_def false_text_def true_text_def)+

lemma punctuation:
  "reduces minify_loop [91] [91]" "reduces minify_loop [93] [93]" "reduces minify_loop [123] [123]" "reduces minify_loop [125] [125]"
  "reduces minify_loop [58, 9] [58]" "reduces minify_loop [44, 32] [44]" "reduces minify_loop [44, 10] [44]" "reduces minify_loop [10] []"
  "reduces minify_loop (replicate n 9) []"
  using reduces_append [OF reduces_other reduces_blank, of 58 9] reduces_append [OF reduces_other reduces_blank, of 44 32]
    reduces_append [OF reduces_other reduces_blank, of 44 10]
  by (simp_all add: reduces_other reduces_blank reduces_blanks)

lemma reduces_array:
  assumes "list_all2 (reduces minify_loop) es us" "es \<noteq> []" "compose_array True es = Ok s" "compose_array False us = Ok u"
  shows "reduces minify_loop s u"
proof -
  have "us \<noteq> []" using assms(1,2) by auto
  then have s: "s = [91] @ separated [44, 32] es @ [93]" "u = [91] @ separated [44] us @ [93]"
    using assms(2-4) by (simp_all add: compose_array_ok)
  show ?thesis unfolding s by (intro reduces_append reduces_separated assms(1) punctuation)
qed

definition same_member :: "u8 list \<times> u8 list \<Rightarrow> u8 list \<times> u8 list \<Rightarrow> bool" where
  "same_member = (\<lambda>(name, e) (name', u). name = name' \<and> reduces minify_loop name name \<and> reduces minify_loop e u)"

lemma reduces_member:
  assumes "same_member x y"
  shows "reduces minify_loop (member_line depth True x) (member_line depth False y)"
proof -
  obtain name e u where x: "x = (name, e)" "y = (name, u)" "reduces minify_loop name name" "reduces minify_loop e u"
    using assms by (auto simp: same_member_def)
  have "reduces minify_loop (replicate depth 9 @ name @ [58, 9] @ e) ([] @ name @ [58] @ u)"
    by (intro reduces_append punctuation x(3,4))
  then show ?thesis by (simp add: member_line_def x(1,2))
qed

lemma reduces_object:
  assumes "list_all2 same_member es us" "es \<noteq> []" "0 < depth"
    "compose_object depth True es = Ok s" "compose_object depth False us = Ok u"
  shows "reduces minify_loop s u"
proof -
  have "us \<noteq> []" using assms(1,2) by auto
  then have s: "s = [123] @ [10] @ separated [44, 10] (map (member_line depth True) es) @ [10] @ replicate (depth - 1) 9 @ [125]"
    "u = [123] @ [] @ separated [44] (map (member_line depth False) us) @ [] @ [] @ [125]"
    using assms(2-5) by (simp_all add: compose_object_ok)
  have "list_all2 (reduces minify_loop) (map (member_line depth True) es) (map (member_line depth False) us)"
    using assms(1) reduces_member by (auto simp: list_all2_map1 list_all2_map2 elim: list_all2_mono)
  then show ?thesis unfolding s by (intro reduces_append reduces_separated punctuation)
qed

lemma print_value_reduces:
  "print_value depth fmt j = Ok s \<Longrightarrow> fmt \<Longrightarrow> print_value depth False j = Ok u \<Longrightarrow> reduces minify_loop s u"
  "print_elements depth fmt js = Ok es \<Longrightarrow> fmt \<Longrightarrow> print_elements depth False js = Ok us \<Longrightarrow>
    list_all2 (reduces minify_loop) es us \<and> length es = length js"
  "print_members depth fmt js = Ok ms \<Longrightarrow> fmt \<Longrightarrow> print_members depth False js = Ok ns \<Longrightarrow>
    list_all2 same_member ms ns \<and> length ms = length js"
proof (induction depth fmt j and depth fmt js and depth fmt js arbitrary: s u and es us and ms ns
    rule: print_value_print_elements_print_members.induct)
  case (1 depth fmt t vs vi vd nm ch)
  consider (unknown) "\<not> t mod 256 \<le> 6" | (leaf) "t mod 256 \<in> {0, 1, 2, 3, 4}" | (array) "t mod 256 = 5" | (object) "t mod 256 = 6"
    using small_type [of "t mod 256"] by auto
  then show ?case
  proof cases
    case unknown
    then show ?thesis using 1(3) by (auto simp: print_value.simps(1) Let_def)
  next
    case leaf
    then show ?thesis
      using 1(3,5) small_texts reduces_string [of vs s] reduces_ascii [of s] number_char_other print_number_chars [of vi vd s]
      by (auto simp: print_value.simps(1) Let_def simp del: piece_ok.simps)
  next
    case array
    show ?thesis
    proof (cases "ch = []")
      case True
      then show ?thesis using array 1(3,5) reduces_append [OF punctuation(1,2)] by (auto simp: print_value.simps(1) Let_def)
    next
      case False
      then obtain es us where "print_elements (depth + 1) fmt ch = Ok es" "compose_array fmt es = Ok s"
        "print_elements (depth + 1) False ch = Ok us" "compose_array False us = Ok u"
        using array 1(3,5) by (auto simp: print_value.simps(1) Let_def)
      moreover from this have "list_all2 (reduces minify_loop) es us \<and> length es = length ch"
        using 1(1) [OF refl] array False 1(4) by simp
      ultimately show ?thesis using reduces_array [of es us s u] False 1(4) by fastforce
    qed
  next
    case object
    show ?thesis
    proof (cases "ch = []")
      case True
      have "reduces minify_loop ([123] @ [10] @ replicate (depth - 1) 9 @ [125]) ([123] @ [] @ [] @ [125])"
        by (intro reduces_append punctuation)
      then show ?thesis using True object 1(3-5) by (auto simp: print_value.simps(1) Let_def)
    next
      case False
      then obtain es us where "print_members (depth + 1) fmt ch = Ok es" "compose_object (depth + 1) fmt es = Ok s"
        "print_members (depth + 1) False ch = Ok us" "compose_object (depth + 1) False us = Ok u"
        using object 1(3,5) by (auto simp: print_value.simps(1) Let_def)
      moreover from this have "list_all2 same_member es us \<and> length es = length ch"
        using 1(2) [OF refl] object False 1(4) by simp
      ultimately show ?thesis using reduces_object [of es us "depth + 1" s u] False 1(4) by fastforce
    qed
  qed
next
  case (5 depth fmt j js)
  obtain name where name: "print_string_ptr (jstring j) = Ok name" using print_string_ptr_total by blast
  obtain e ms' where e: "print_value depth fmt j = Ok e" "print_members depth fmt js = Ok ms'" "ms = (name, e) # ms'"
    using 5(4) name by (cases "print_value depth fmt j") auto
  obtain e' ns' where e': "print_value depth False j = Ok e'" "print_members depth False js = Ok ns'" "ns = (name, e') # ns'"
    using 5(6) name by (cases "print_value depth False j") auto
  show ?case using 5(1) [OF name e(1) 5(5) e'(1)] 5(2) [OF name e(2) 5(5) e'(2)] e(3) e'(3) reduces_string [OF name]
    by (simp add: same_member_def)
qed auto

text \<open>C36: Minifying the formatted text of a tree gives its unformatted text: whatever \<open>cJSON_Print\<close> and
  \<open>cJSON_PrintUnformatted\<close> print, \<open>cJSON_Minify\<close> turns the one into the other, in place.\<close>

theorem cJSON_Minify_Print:
  assumes "cJSON_Print item = Ok s" "cJSON_PrintUnformatted item = Ok u"
  shows "\<exists>junk. length u + length junk = length s \<and> cJSON_Minify (s @ 0 # t) = Ok (u @ 0 # junk @ t)"
  by (rule minified, rule print_value_reduces(1) [OF _ TrueI])
    (use assms in \<open>simp_all add: cJSON_Print_def cJSON_PrintUnformatted_def\<close>)

theorem cJSON_Minify_Print_witness:
  "\<exists>junk. length (91 # null_text @ [44, 123, 125, 93]) + length junk =
      length (91 # null_text @ [44, 32, 123, 10, 125, 93]) \<and>
    cJSON_Minify ((91 # null_text @ [44, 32, 123, 10, 125, 93]) @ 0 # [5]) =
      Ok ((91 # null_text @ [44, 123, 125, 93]) @ 0 # junk @ [5])"
  by (rule cJSON_Minify_Print [of "Node 5 None 0 0 None [Node 2 None 0 0 None [], Node 6 None 0 0 None []]"])
    (simp_all add: cJSON_Print_def cJSON_PrintUnformatted_def print_value.simps(1) compose_array_ok)

end
