(* ===== verification/Ping_Common.thy ===== *)
theory Ping_Common
  imports Timer Json_Number
begin

text \<open>
  The shared part of the ping library, monitor/ping_common.h: options, the table of sequence
  numbers received, the window of unacknowledged probes, the subtraction of times; and its state,
  the global and static variables of monitor/ping_common.c and monitor/ping.c. \<open>int\<close> has 32 bits
  and \<open>long\<close> 64; the counters, which grow by one per packet, are not cut off. What is written
  to the terminal is left out.
\<close>

section \<open>Options\<close>

definition F_FLOOD :: u32 where "F_FLOOD = 0x001"
definition F_INTERVAL :: u32 where "F_INTERVAL = 0x002"
definition F_NUMERIC :: u32 where "F_NUMERIC = 0x004"
definition F_PINGFILLED :: u32 where "F_PINGFILLED = 0x008"
definition F_QUIET :: u32 where "F_QUIET = 0x010"
definition F_RROUTE :: u32 where "F_RROUTE = 0x020"
definition F_SO_DEBUG :: u32 where "F_SO_DEBUG = 0x040"
definition F_SO_DONTROUTE :: u32 where "F_SO_DONTROUTE = 0x080"
definition F_VERBOSE :: u32 where "F_VERBOSE = 0x100"
definition F_TIMESTAMP :: u32 where "F_TIMESTAMP = 0x200"
definition F_SOURCEROUTE :: u32 where "F_SOURCEROUTE = 0x400"
definition F_FLOOD_POLL :: u32 where "F_FLOOD_POLL = 0x800"
definition F_LATENCY :: u32 where "F_LATENCY = 0x1000"
definition F_AUDIBLE :: u32 where "F_AUDIBLE = 0x2000"
definition F_ADAPTIVE :: u32 where "F_ADAPTIVE = 0x4000"
definition F_STRICTSOURCE :: u32 where "F_STRICTSOURCE = 0x8000"
definition F_NOLOOP :: u32 where "F_NOLOOP = 0x10000"
definition F_TTL :: u32 where "F_TTL = 0x20000"
definition F_MARK :: u32 where "F_MARK = 0x40000"
definition F_PTIMEOFDAY :: u32 where "F_PTIMEOFDAY = 0x80000"
definition F_OUTSTANDING :: u32 where "F_OUTSTANDING = 0x100000"

lemmas F_defs = F_FLOOD_def F_INTERVAL_def F_NUMERIC_def F_PINGFILLED_def F_QUIET_def F_RROUTE_def
  F_SO_DEBUG_def F_SO_DONTROUTE_def F_VERBOSE_def F_TIMESTAMP_def F_SOURCEROUTE_def F_FLOOD_POLL_def
  F_LATENCY_def F_AUDIBLE_def F_ADAPTIVE_def F_STRICTSOURCE_def F_NOLOOP_def F_TTL_def F_MARK_def
  F_PTIMEOFDAY_def F_OUTSTANDING_def

definition MININTERVAL :: int where "MININTERVAL = 10"
definition MINUSERINTERVAL :: int where "MINUSERINTERVAL = 200"
definition MAX_DUP_CHK :: nat where "MAX_DUP_CHK = 0x10000"
definition INT_MAX :: int where "INT_MAX = 2147483647"
definition LONG_MAX :: int where "LONG_MAX = 9223372036854775807"

definition SCHINT :: "int \<Rightarrow> int" where
  "SCHINT a = (if a \<le> MININTERVAL then MININTERVAL else a)"

definition to_s64 :: "int \<Rightarrow> int" where
  "to_s64 x = signed_take_bit 63 x"

section \<open>State\<close>

text \<open>A bitmap of 64-bit words; the array has 1024.\<close>

type_synonym rcvd_table = "nat \<Rightarrow> u64"

text \<open>
  \<open>waittime\<close>, \<open>tokens\<close>, \<open>recverr_once\<close> and \<open>filter_once\<close> are the static variables of
  \<open>__schedule_exit\<close>, \<open>pinger\<close>, \<open>parse_reply\<close> and \<open>install_filter\<close>. \<open>ticks\<close> counts the answers of
  the system consumed, \<open>feedback_calls\<close> are the calls of \<open>Feedback\<close> and \<open>probes\<close> the packets sent.
\<close>

record ping =
  options :: u32
  npackets :: int
  nreceived :: int
  nrepeats :: int
  ntransmitted :: int
  nchecksum :: int
  nerrors :: int
  interval :: int
  preload :: int
  deadline :: int
  lingertime :: int
  rtt :: int
  rtt_addend :: int
  acked :: u16
  rcvd_tbl :: rcvd_table
  timing :: bool
  tmin :: int
  tmax :: int
  tsum :: int
  tsum2 :: int
  pipesize :: int
  datalen :: int
  uid :: int
  ident :: u16
  start_time :: timeval
  cur_time :: timeval
  exiting :: bool
  status_snapshot :: bool
  confirm :: int
  confirm_flag :: int
  working_recverr :: bool
  outpack :: "nat \<Rightarrow> u8"
  whereto :: u32
  screen_width :: int
  waittime :: int
  tokens :: int
  recverr_once :: int
  filter_once :: bool
  ticks :: nat
  feedback_calls :: "(int \<times> int \<times> u8 list option) list"
  probes :: "u8 list list"

definition flag :: "ping \<Rightarrow> u32 \<Rightarrow> bool" where
  "flag s F \<longleftrightarrow> options s AND F \<noteq> 0"

definition set_flag :: "u32 \<Rightarrow> ping \<Rightarrow> ping" where
  "set_flag F s = s\<lparr>options := options s OR F\<rparr>"

text \<open>
  What the system answers at each point: the time of day, the result of \<open>sendmsg\<close>, of
  \<open>setsockopt\<close>, the length \<open>write\<close> reports, the name \<open>gethostbyaddr\<close> knows for an address, the
  process id, the columns of the terminal or 0. \<open>undef\<close> is the value of a call that ended without one.
\<close>

record sys =
  gtod :: "nat \<Rightarrow> timeval"
  sendmsg :: "nat \<Rightarrow> int"
  sockopt_fails :: "nat \<Rightarrow> bool"
  written :: "nat \<Rightarrow> int"
  host_name :: "u32 \<Rightarrow> u8 list option"
  pid :: int
  ws_col :: int
  undef :: "nat \<Rightarrow> int"

definition gettimeofday :: "sys \<Rightarrow> ping \<Rightarrow> timeval \<times> ping" where
  "gettimeofday os s = (gtod os (ticks s), s\<lparr>ticks := Suc (ticks s)\<rparr>)"

text \<open>The variables as they are initialised.\<close>

definition ping_globals :: ping where
  "ping_globals = \<lparr>options = 0, npackets = 0, nreceived = 0, nrepeats = 0, ntransmitted = 0, nchecksum = 0,
     nerrors = 0, interval = 1000, preload = 0, deadline = 0, lingertime = 10000, rtt = 0, rtt_addend = 0,
     acked = 0, rcvd_tbl = (\<lambda>_. 0), timing = False, tmin = LONG_MAX, tmax = 0, tsum = 0, tsum2 = 0,
     pipesize = -1, datalen = 56, uid = 0, ident = 0, start_time = timerclear, cur_time = timerclear,
     exiting = False, status_snapshot = False, confirm = 0, confirm_flag = 0x800, working_recverr = False,
     outpack = (\<lambda>_. 0), whereto = 0, screen_width = INT_MAX, waittime = 0, tokens = 0, recverr_once = 0, filter_once = False,
     ticks = 0, feedback_calls = [], probes = []\<rparr>"

text \<open>A system whose clock runs by one second per reading and whose calls succeed.\<close>

definition lab_sys :: sys where
  "lab_sys = \<lparr>gtod = (\<lambda>n. \<lparr>tv_sec = 100 + int n, tv_usec = 0\<rparr>), sendmsg = (\<lambda>_. 64),
     sockopt_fails = (\<lambda>_. False), written = (\<lambda>_. 1), host_name = (\<lambda>_. None), pid = 0x1234, ws_col = 0, undef = (\<lambda>_. 1)\<rparr>"

section \<open>Sequence numbers received\<close>

definition rcvd_index :: "u16 \<Rightarrow> nat" where
  "rcvd_index seq = drop_bit 6 (unat seq mod MAX_DUP_CHK)"

definition rcvd_bit :: "u16 \<Rightarrow> u64" where
  "rcvd_bit seq = push_bit ((unat seq mod MAX_DUP_CHK) AND 63) 1"

definition rcvd_set :: "u16 \<Rightarrow> rcvd_table \<Rightarrow> rcvd_table" where
  "rcvd_set seq T = T(rcvd_index seq := T (rcvd_index seq) OR rcvd_bit seq)"

definition rcvd_clear :: "u16 \<Rightarrow> rcvd_table \<Rightarrow> rcvd_table" where
  "rcvd_clear seq T = T(rcvd_index seq := T (rcvd_index seq) AND NOT (rcvd_bit seq))"

definition rcvd_test :: "u16 \<Rightarrow> rcvd_table \<Rightarrow> u64" where
  "rcvd_test seq T = T (rcvd_index seq) AND rcvd_bit seq"

definition received :: "rcvd_table \<Rightarrow> u16 set" where
  "received T = {q. rcvd_test q T \<noteq> 0}"

lemma rcvd_index_bound: "rcvd_index seq < 1024"
proof -
  have "unat seq < 65536" using unsigned_less [of seq, where ?'a = nat] by simp
  then show ?thesis by (simp add: rcvd_index_def MAX_DUP_CHK_def drop_bit_eq_div)
qed

lemma rcvd_position: "rcvd_index seq = unat seq div 64" "rcvd_bit seq = push_bit (unat seq mod 64) 1"
proof -
  have "unat seq < 65536" using unsigned_less [of seq, where ?'a = nat] by simp
  moreover have "n AND 63 = n mod 64" for n :: nat
    using take_bit_eq_mask [of 6 n] by (simp add: take_bit_eq_mod mask_eq_exp_minus_1)
  ultimately show "rcvd_index seq = unat seq div 64" "rcvd_bit seq = push_bit (unat seq mod 64) 1"
    by (simp_all add: rcvd_index_def rcvd_bit_def MAX_DUP_CHK_def drop_bit_eq_div)
qed

lemma bit_rcvd_bit: "bit (rcvd_bit q) n \<longleftrightarrow> n = unat q mod 64"
proof -
  have "unat q mod 64 < 64" by simp
  then show ?thesis by (auto simp: rcvd_position bit_simps bit_1_iff)
qed

lemma rcvd_test_bit: "rcvd_test q T \<noteq> 0 \<longleftrightarrow> bit (T (unat q div 64)) (unat q mod 64)"
proof -
  have "unat q mod 64 < 64" by simp
  then show ?thesis
    by (auto simp: rcvd_test_def rcvd_position(1) bit_eq_iff [of "_ AND rcvd_bit q" 0] bit_simps bit_rcvd_bit)
qed

lemma same_position: "unat q div 64 = unat r div 64 \<Longrightarrow> unat q mod 64 = unat r mod 64 \<Longrightarrow> q = (r :: u16)"
  by (metis div_mult_mod_eq word_unat_eq_iff)

lemma received_simps [simp]:
  "received (\<lambda>_. 0) = {}" "received (rcvd_set seq T) = insert seq (received T)"
  "received (rcvd_clear seq T) = received T - {seq}" "rcvd_test seq T = 0 \<longleftrightarrow> seq \<notin> received T"
proof -
  have eq: "unat q div 64 = unat seq div 64 \<Longrightarrow> unat q mod 64 = unat seq mod 64 \<longleftrightarrow> q = seq" for q
    using same_position [of q seq] by auto
  have range: "unat q mod 64 < 64" for q :: u16 by simp
  show "received (\<lambda>_. 0) = {}" by (simp add: received_def rcvd_test_def)
  show "received (rcvd_set seq T) = insert seq (received T)"
    using eq range by (auto simp: received_def rcvd_test_bit rcvd_set_def rcvd_position(1) bit_simps bit_rcvd_bit)
  show "received (rcvd_clear seq T) = received T - {seq}"
    using eq range by (auto simp: received_def rcvd_test_bit rcvd_clear_def rcvd_position(1) bit_simps bit_rcvd_bit)
qed (simp add: received_def)

text \<open>C24: The table of received sequence numbers is a set of 16-bit numbers: setting, clearing and testing
  a bit are insertion, removal and membership, for all 65536 numbers, and stay within the 1024
  words of the array.\<close>

theorem rcvd_table_is_set:
  "received (\<lambda>_. 0) = {} \<and> received (rcvd_set seq T) = insert seq (received T) \<and>
   received (rcvd_clear seq T) = received T - {seq} \<and> (rcvd_test seq T \<noteq> 0) = (seq \<in> received T) \<and>
   rcvd_index seq < 1024"
  by (simp add: rcvd_index_bound)

section \<open>The window of probes in flight\<close>

definition in_flight :: "ping \<Rightarrow> int" where
  "in_flight s =
     (let diff = of_int (ntransmitted s) - acked s
      in if diff \<le> 0x7FFF then uint diff else to_s32 (ntransmitted s - nreceived s - nerrors s))"

text \<open>Here \<open>(__u16)ntransmitted - acked\<close> is compared as an \<open>int\<close>, which may be negative.\<close>

definition advance_ntransmitted :: "ping \<Rightarrow> ping" where
  "advance_ntransmitted s =
     (let s = s\<lparr>ntransmitted := ntransmitted s + 1\<rparr>;
          n = of_int (ntransmitted s) :: u16
      in if uint n - uint (acked s) > 0x7FFF then s\<lparr>acked := n + 1\<rparr> else s)"

definition acknowledge :: "u16 \<Rightarrow> ping \<Rightarrow> ping" where
  "acknowledge seq s =
     (let n = of_int (ntransmitted s) :: u16;
          diff = n - seq
      in if diff \<le> 0x7FFF then
           (let s = (if uint diff + 1 > pipesize s then s\<lparr>pipesize := uint diff + 1\<rparr> else s)
            in if seq - acked s > 0 \<or> uint n - uint (acked s) > 0x7FFF then s\<lparr>acked := seq\<rparr> else s)
         else s)"

section \<open>The end of the probes\<close>

text \<open>The wait for the last replies; the timer set by \<open>setitimer\<close> raises \<open>exiting\<close> after \<open>waittime\<close>.\<close>

definition schedule_exit' :: "int \<Rightarrow> ping \<Rightarrow> int \<times> ping" where
  "schedule_exit' next s =
     (if waittime s \<noteq> 0 then (next, s)
      else (let w = (if nreceived s \<noteq> 0 then
                       (let w = to_u64 (2 * tmax s); m = to_u64 (to_s32 (1000 * interval s))
                        in if w < m then m else w)
                     else to_u64 (to_s32 (lingertime s * 1000)))
            in (if next < 0 \<or> next < w div 1000 then to_s32 (w div 1000) else next, s\<lparr>waittime := w\<rparr>)))"

definition schedule_exit :: "int \<Rightarrow> ping \<Rightarrow> int \<times> ping" where
  "schedule_exit next s =
     (if npackets s \<noteq> 0 \<and> ntransmitted s \<ge> npackets s \<and> deadline s = 0 then schedule_exit' next s
      else (next, s))"

section \<open>Times\<close>

definition tvsub :: "timeval \<Rightarrow> timeval \<Rightarrow> timeval" where
  "tvsub out in_tv =
     (let us = to_s64 (tv_usec out - tv_usec in_tv);
          (s, us) = (if us < 0 then (tv_sec out - 1, us + 1000000) else (tv_sec out, us))
      in \<lparr>tv_sec = to_s64 (s - tv_sec in_tv), tv_usec = us\<rparr>)"

section \<open>Output in flood mode\<close>

text \<open>
  The loop of \<open>write_stdout\<close>, with the results of \<open>write\<close> from the \<open>n\<close>-th on; \<open>None\<close> when it does
  not end. Its condition is \<open>len > 0\<close> where the number of bytes written is meant to be tested.
\<close>

partial_function (option) write_loop :: "(nat \<Rightarrow> int) \<Rightarrow> nat \<Rightarrow> nat \<Rightarrow> int \<Rightarrow> nat option" where
  "write_loop w n len o' =
     (let cc = w n; o'' = to_u64 (o' + cc)
      in if len > 0 \<or> cc < 0 then write_loop w (Suc n) len o'' else Some (Suc n))"

definition write_stdout :: "sys \<Rightarrow> nat \<Rightarrow> ping \<Rightarrow> ping option" where
  "write_stdout os len s = map_option (\<lambda>n. s\<lparr>ticks := n\<rparr>) (write_loop (written os) (ticks s) len 0)"

lemma write_loop_ends: "write_loop w n len o' = Some r \<Longrightarrow> len = 0 \<and> (\<exists>m\<ge>n. w m \<ge> 0)"
proof (rule write_loop.raw_induct [where P = "\<lambda>w n len o' r. len = 0 \<and> (\<exists>m\<ge>n. w m \<ge> 0)"])
  fix loop :: "(nat \<Rightarrow> int) \<Rightarrow> nat \<Rightarrow> nat \<Rightarrow> int \<Rightarrow> nat option" and w n len o' r
  assume ih: "\<And>w n len o' r. loop w n len o' = Some r \<Longrightarrow> len = 0 \<and> (\<exists>m\<ge>n. w m \<ge> 0)"
    and body: "(let cc = w n; o'' = to_u64 (o' + cc)
      in if 0 < len \<or> cc < 0 then loop w (Suc n) len o'' else Some (Suc n)) = Some r"
  show "len = 0 \<and> (\<exists>m\<ge>n. w m \<ge> 0)"
  proof (cases "0 < len \<or> w n < 0")
    case True
    then have "loop w (Suc n) len (to_u64 (o' + w n)) = Some r" using body by (simp add: Let_def)
    from ih [OF this] show ?thesis using Suc_leD by blast
  next
    case False
    then have "len = 0" "w n \<ge> 0" by auto
    then show ?thesis by blast
  qed
qed (assumption)

lemma write_loop_empty: "w m \<ge> 0 \<Longrightarrow> n \<le> m \<Longrightarrow> write_loop w n 0 o' \<noteq> None"
proof (induction "m - n" arbitrary: n o')
  case 0
  then show ?case by (subst write_loop.simps) simp
next
  case (Suc k)
  then have "write_loop w (Suc n) 0 o'' \<noteq> None" for o'' by simp
  then show ?case by (subst write_loop.simps) (simp add: Let_def)
qed

text \<open>C27: \<open>write_stdout\<close> never returns when there is something to write, whatever \<open>write\<close> answers:
  the loop tests the length, which does not change. In flood mode the first probe or reply blocks
  the library for ever.\<close>

theorem write_stdout_never_returns:
  "(write_stdout os len s = None) = (len > 0 \<or> (\<forall>n\<ge>ticks s. written os n < 0))"
  using write_loop_ends [of "written os" "ticks s" len 0] write_loop_empty [of "written os" _ "ticks s" 0]
  by (cases "len = 0"; cases "write_loop (written os) (ticks s) len 0")
    (auto simp: write_stdout_def not_less [symmetric])

theorem write_stdout_never_returns_witness:
  "write_stdout lab_sys 1 ping_globals = None \<and> write_stdout lab_sys 0 ping_globals \<noteq> None"
  using write_stdout_never_returns [of lab_sys 1 ping_globals] write_stdout_never_returns [of lab_sys 0 ping_globals]
  by (auto simp: lab_sys_def)

end
