(* ===== verification/Ping_Stats.thy ===== *)
theory Ping_Stats
  imports Ping_Common
begin

text \<open>
  The statistics of monitor/ping_common.c: the integer square root, the interval of the adaptive
  mode, the treatment of one reply by \<open>gather_statistics\<close>, and the figures \<open>finish\<close> and \<open>status\<close>
  print, with what they are for a sequence of replies.
\<close>

section \<open>Square root\<close>

text \<open>The loop of \<open>llsqrt\<close>, whose values are positive.\<close>

function llsqrt_loop :: "nat \<Rightarrow> nat \<Rightarrow> nat \<Rightarrow> nat" where
  "llsqrt_loop prev x a = (if x < prev then llsqrt_loop x ((x + a div x) div 2) a else x)"
  by auto
termination by (relation "measure (\<lambda>(prev, x, a). prev)") auto

declare llsqrt_loop.simps [simp del]

definition llsqrt :: "int \<Rightarrow> int" where
  "llsqrt a = (if a > 0 then int (llsqrt_loop (2 ^ 63 - 1) (nat a) (nat a)) else a)"

lemma newton_step_above:
  fixes s x a :: nat
  assumes "s * s \<le> a" "0 < x"
  shows "s \<le> (x + a div x) div 2"
proof (cases "x \<le> 2 * s")
  case True
  have "(2 * int s - int x) * int x \<le> int s * int s"
    using zero_le_square [of "int s - int x"] by (simp add: algebra_simps)
  then have "int ((2 * s - x) * x) \<le> int (s * s)"
    using True by (simp add: of_nat_diff)
  then have "(2 * s - x) * x \<le> a" using assms(1) by linarith
  then have "2 * s - x \<le> a div x" using assms(2) by (simp add: less_eq_div_iff_mult_less_eq)
  then show ?thesis using True by simp
qed simp

lemma newton_stops:
  fixes s x a :: nat
  assumes "s * s \<le> a" "a < (s + 1) * (s + 1)" "1 \<le> s" "s \<le> x" "x \<le> (x + a div x) div 2"
  shows "(x + a div x) div 2 = (if a + 1 = (s + 1) * (s + 1) then s + 1 else s)"
proof -
  have "x \<le> a div x" using assms(5) by simp
  then have "x * x \<le> a" using assms(3,4) by (simp add: less_eq_div_iff_mult_less_eq)
  then have "x < s + 1" using assms(2) mult_le_mono [of "s + 1" x "s + 1" x] by linarith
  then have x: "x = s" using assms(4) by simp
  have up: "a div s < s + 3"
    using assms(1-3) by (intro less_mult_imp_div_less) (simp add: algebra_simps)
  have low: "s \<le> a div s" using assms(1,3) by (simp add: less_eq_div_iff_mult_less_eq)
  have two: "s + 2 \<le> a div s \<longleftrightarrow> (s + 2) * s \<le> a" using assms(3) by (simp add: less_eq_div_iff_mult_less_eq)
  show ?thesis
  proof (cases "a + 1 = (s + 1) * (s + 1)")
    case True
    then have "a div s = s + 2" using up two by (simp add: algebra_simps)
    then show ?thesis using True x by simp
  next
    case False
    then have "\<not> s + 2 \<le> a div s" using assms(2) two by (simp add: algebra_simps)
    then show ?thesis using False x low by simp
  qed
qed

lemma llsqrt_loop_value:
  assumes "s * s \<le> a" "a < (s + 1) * (s + 1)" "1 \<le> s" "s \<le> x" "x < prev"
  shows "llsqrt_loop prev x a = (if a + 1 = (s + 1) * (s + 1) then s + 1 else s)"
  using assms
proof (induction prev x a rule: llsqrt_loop.induct)
  case (1 prev x a)
  note a = 1(2-4) and x = 1(5) and prev = 1(6)
  let ?y = "(x + a div x) div 2"
  have y: "s \<le> ?y" using newton_step_above [OF a(1), of x] x a(3) by simp
  have loop: "llsqrt_loop prev x a = llsqrt_loop x ?y a" using prev by (subst llsqrt_loop.simps) simp
  show ?case
  proof (cases "?y < x")
    case True
    show ?thesis unfolding loop by (rule 1(1) [OF prev a y True])
  next
    case False
    then show ?thesis unfolding loop
      using newton_stops [OF a x] by (subst llsqrt_loop.simps) simp
  qed
qed

lemma nat_sqrt_exists: "\<exists>s. s * s \<le> a \<and> a < (s + 1) * (s + 1 :: nat)"
proof (induction a)
  case (Suc a)
  then obtain s where s: "s * s \<le> a" "a < (s + 1) * (s + 1)" by blast
  show ?case
  proof (cases "Suc a < (s + 1) * (s + 1)")
    case True
    then show ?thesis using s by (intro exI [of _ s]) simp
  next
    case False
    then show ?thesis using s by (intro exI [of _ "s + 1"]) simp
  qed
qed simp

lemma llsqrt_bounds:
  assumes "0 < a" "a < 2 ^ 63 - 1"
  shows "llsqrt a \<ge> 1" "llsqrt a * llsqrt a \<le> a + 1" "a + 1 < (llsqrt a + 1) * (llsqrt a + 1)"
proof -
  obtain s where s: "s * s \<le> nat a" "nat a < (s + 1) * (s + 1)" using nat_sqrt_exists by blast
  have s1: "1 \<le> s" using s(2) assms(1) by (cases s) auto
  have sa: "s \<le> nat a" using s(1) s1 by (metis le_square order_trans)
  have r: "llsqrt a = int (if nat a + 1 = (s + 1) * (s + 1) then s + 1 else s)"
    using llsqrt_loop_value [OF s s1 sa, of "2 ^ 63 - 1"] assms by (simp add: llsqrt_def)
  have low: "int s * int s \<le> a" and high: "a + 1 \<le> (int s + 1) * (int s + 1)"
    using s assms(1) by (simp_all add: le_nat_iff nat_less_iff algebra_simps)
  have eq: "nat a + 1 = (s + 1) * (s + 1) \<longleftrightarrow> a + 1 = (int s + 1) * (int s + 1)"
    using assms(1) by (auto simp: nat_eq_iff algebra_simps simp flip: of_nat_eq_iff [where 'a = int])
  show "llsqrt a \<ge> 1" using r s1 by simp
  show "llsqrt a * llsqrt a \<le> a + 1" using r low eq by (auto simp: algebra_simps split: if_splits)
  show "a + 1 < (llsqrt a + 1) * (llsqrt a + 1)"
    using r high eq by (auto simp: algebra_simps split: if_splits)
qed

text \<open>C25: The square root of the deviation: for every positive argument but the largest \<open>long long\<close> the
  loop ends with the integer square root of the argument plus one, which is the root itself unless
  the argument is one below a square, where it is one too large. Arguments up to zero are returned
  as they are, and the largest one too, since the loop is not entered.\<close>

theorem llsqrt_correct:
  "if 0 < a \<and> a < 2 ^ 63 - 1
   then 1 \<le> llsqrt a \<and> llsqrt a * llsqrt a \<le> a + 1 \<and> a + 1 < (llsqrt a + 1) * (llsqrt a + 1)
   else if a \<le> 2 ^ 63 - 1 then llsqrt a = a else True"
  using llsqrt_bounds [of a] by (auto simp: llsqrt_def llsqrt_loop.simps)

lemma to_s64_id: "- (2 ^ 63) \<le> x \<Longrightarrow> x < 2 ^ 63 \<Longrightarrow> to_s64 x = x"
  unfolding to_s64_def by (rule signed_take_bit_int_eq_self) simp_all

lemma to_s32_id: "- (2 ^ 31) \<le> x \<Longrightarrow> x < 2 ^ 31 \<Longrightarrow> to_s32 x = x"
  unfolding to_s32_def by (rule signed_take_bit_int_eq_self) simp_all

section \<open>A reply\<close>

definition update_interval :: "ping \<Rightarrow> ping" where
  "update_interval s =
     (let est = (if rtt s \<noteq> 0 then rtt s sdiv 8 else to_s32 (interval s * 1000));
          i = to_s32 (est + rtt_addend s + 500) sdiv 1000
      in s\<lparr>interval := if uid s \<noteq> 0 \<and> i < MINUSERINTERVAL then MINUSERINTERVAL else i\<rparr>)"

text \<open>A \<open>long\<close> and a \<open>struct timeval\<close> in memory, little-endian.\<close>

fun le_value :: "u8 list \<Rightarrow> int" where
  "le_value [] = 0"
| "le_value (b # bs) = uint b + 256 * le_value bs"

fun le_store :: "nat \<Rightarrow> int \<Rightarrow> u8 list" where
  "le_store 0 n = []"
| "le_store (Suc k) n = of_int n # le_store k (n div 256)"

definition timeval_at :: "u8 list \<Rightarrow> timeval" where
  "timeval_at bs = \<lparr>tv_sec = to_s64 (le_value (take 8 bs)), tv_usec = to_s64 (le_value (take 8 (drop 8 bs)))\<rparr>"

definition timeval_bytes :: "timeval \<Rightarrow> u8 list" where
  "timeval_bytes tv = le_store 8 (tv_sec tv) @ le_store 8 (tv_usec tv)"

lemma length_le_store [simp]: "length (le_store k n) = k"
  by (induction k arbitrary: n) simp_all

lemma le_value_store: "le_value (le_store k n) = n mod 256 ^ k"
proof (induction k arbitrary: n)
  case (Suc k)
  have "n mod (256 * 256 ^ k) = 256 * (n div 256 mod 256 ^ k) + n mod 256"
    by (rule zmod_zmult2_eq) simp
  moreover have "uint (of_int n :: u8) = n mod 256" by (simp add: unsigned_of_int take_bit_eq_mod)
  ultimately show ?case using Suc by simp
qed simp

definition long_timeval :: "timeval \<Rightarrow> bool" where
  "long_timeval tv \<longleftrightarrow> - (2 ^ 63) \<le> tv_sec tv \<and> tv_sec tv < 2 ^ 63 \<and> - (2 ^ 63) \<le> tv_usec tv \<and> tv_usec tv < 2 ^ 63"

lemma to_s64_mod: "- (2 ^ 63) \<le> n \<Longrightarrow> n < 2 ^ 63 \<Longrightarrow> to_s64 (n mod 256 ^ 8) = n"
proof -
  assume n: "- (2 ^ 63) \<le> n" "n < 2 ^ 63"
  have "n mod 256 ^ 8 = take_bit 64 n" by (simp add: take_bit_eq_mod)
  then have "to_s64 (n mod 256 ^ 8) = signed_take_bit 63 n"
    by (simp add: to_s64_def signed_take_bit_take_bit)
  then show ?thesis using n by (simp add: signed_take_bit_int_eq_self)
qed

text \<open>A time written to memory and read back.\<close>

lemma timeval_round_trip: "long_timeval tv \<Longrightarrow> timeval_at (timeval_bytes tv @ bs) = tv"
  unfolding timeval_at_def timeval_bytes_def long_timeval_def
  by (simp add: le_value_store to_s64_mod del: le_store.simps power_numeral)

text \<open>\<open>tvsub\<close> and the trip time in microseconds.\<close>

definition trip :: "timeval \<Rightarrow> timeval \<Rightarrow> int" where
  "trip tv tmp_tv = (let d = tvsub tv tmp_tv in to_s64 (tv_sec d * 1000000 + tv_usec d))"

text \<open>
  From the label \<open>restamp\<close>: when the time of day goes back, a second attempt with a new reading
  of the clock instead of the time stamp of the kernel, which is then not used any more. The clock is
  subtracted from in place, but the second attempt starts from a new reading.
\<close>

definition measure_trip :: "sys \<Rightarrow> timeval \<Rightarrow> timeval \<Rightarrow> ping \<Rightarrow> int \<times> ping" where
  "measure_trip os tv tmp_tv s =
     (let t = trip tv tmp_tv
      in if t < 0 then
           (if flag s F_LATENCY then (0, s)
            else (let (tv, s) = gettimeofday os s;
                      s = set_flag F_LATENCY s;
                      t = trip tv tmp_tv
                  in (if t < 0 then 0 else t, s)))
         else (t, s))"

definition count_trip :: "int \<Rightarrow> ping \<Rightarrow> ping" where
  "count_trip t s =
     (let s = s\<lparr>tsum := to_s64 (tsum s + t), tsum2 := to_s64 (tsum2 s + to_s64 (t * t)),
              tmin := if t < tmin s then t else tmin s, tmax := if t > tmax s then t else tmax s,
              rtt := if rtt s = 0 then to_s32 (t * 8) else to_s32 (rtt s + (t - rtt s sdiv 8))\<rparr>
      in if flag s F_ADAPTIVE then update_interval s else s)"

text \<open>The network order field at an offset.\<close>

definition be16 :: "u8 list \<Rightarrow> u16" where
  "be16 bs = push_bit 8 (ucast (bs ! 0)) OR ucast (bs ! 1)"

definition Feedback_call :: "int \<Rightarrow> int \<Rightarrow> u8 list option \<Rightarrow> ping \<Rightarrow> ping" where
  "Feedback_call seq triptime err s = s\<lparr>feedback_calls := feedback_calls s @ [(seq, triptime, err)]\<rparr>"

text \<open>
  \<open>gather_statistics\<close>: \<open>icmp\<close> are the bytes from the ICMP header on, \<open>cc\<close> how many of them
  arrived. The counters, then the report; \<open>None\<close> when it does not return.
\<close>

definition count_reply :: "sys \<Rightarrow> u8 list \<Rightarrow> nat \<Rightarrow> nat \<Rightarrow> u16 \<Rightarrow> bool \<Rightarrow> timeval \<Rightarrow> ping \<Rightarrow> int \<times> ping" where
  "count_reply os icmp icmplen cc seq csfailed tv s =
     (let s = s\<lparr>nreceived := nreceived s + 1\<rparr>;
          s = (if csfailed then s else acknowledge seq s);
          (triptime, s) =
            (if timing s \<and> cc \<ge> 8 + 16 then
               (let (t, s) = measure_trip os tv (timeval_at (drop icmplen icmp)) s
                in (t, if csfailed then s else count_trip t s))
             else (0, s));
          s = (if csfailed then s\<lparr>nchecksum := nchecksum s + 1, nreceived := nreceived s - 1\<rparr>
               else if rcvd_test seq (rcvd_tbl s) \<noteq> 0
               then s\<lparr>nrepeats := nrepeats s + 1, nreceived := nreceived s - 1\<rparr>
               else s\<lparr>rcvd_tbl := rcvd_set seq (rcvd_tbl s)\<rparr>)
      in (triptime, s\<lparr>confirm := confirm_flag s\<rparr>))"

definition gather_statistics ::
  "sys \<Rightarrow> u8 list \<Rightarrow> nat \<Rightarrow> nat \<Rightarrow> u16 \<Rightarrow> bool \<Rightarrow> timeval \<Rightarrow> ping \<Rightarrow> (int \<times> ping) option" where
  "gather_statistics os icmp icmplen cc seq csfailed tv s =
     (let (triptime, s) = count_reply os icmp icmplen cc seq csfailed tv s;
          report = (\<lambda>s. Some (0, Feedback_call (uint (be16 (drop 6 icmp))) triptime None s))
      in if flag s F_QUIET then Some (1, s)
         else if flag s F_FLOOD then Option.bind (write_stdout os (if csfailed then 2 else 3) s) report
         else (let s = (if flag s F_PTIMEOFDAY then snd (gettimeofday os s) else s)
               in if int cc < datalen s + 8 then Some (1, s) else report s))"

section \<open>The figures\<close>

text \<open>The numbers \<open>finish\<close> prints, each where it is printed, and its exit status; and the ones of \<open>status\<close>.\<close>

record figures =
  loss :: "int option"
  time_ms :: "int option"
  rtt_avg :: "int option"
  rtt_mdev :: "int option"
  ipg :: "int option"
  exit_status :: int

definition loss_percent :: "ping \<Rightarrow> int" where
  "loss_percent s = to_s32 (to_s64 ((ntransmitted s - nreceived s) * 100) sdiv ntransmitted s)"

definition mean :: "int \<Rightarrow> ping \<Rightarrow> int" where
  "mean t s = t sdiv (nreceived s + nrepeats s)"

definition finish :: "ping \<Rightarrow> figures" where
  "finish s =
     (let tv = tvsub (cur_time s) (start_time s);
          stats = nreceived s \<noteq> 0 \<and> timing s;
          avg = mean (tsum s) s;
          avg2 = mean (tsum2 s) s
      in \<lparr>loss = if ntransmitted s \<noteq> 0 then Some (loss_percent s) else None,
         time_ms = if ntransmitted s \<noteq> 0 then Some (1000 * tv_sec tv + tv_usec tv sdiv 1000) else None,
         rtt_avg = if stats then Some avg else None,
         rtt_mdev = if stats then Some (llsqrt (to_s64 (avg2 - to_s64 (avg * avg)))) else None,
         ipg = if nreceived s \<noteq> 0 \<and> (interval s = 0 \<or> flag s F_FLOOD \<or> flag s F_ADAPTIVE) \<and> ntransmitted s > 1
           then Some (to_s32 ((1000000 * tv_sec tv + tv_usec tv) sdiv (ntransmitted s + 1))) else None,
         exit_status = if nreceived s = 0 \<or> (deadline s \<noteq> 0 \<and> nreceived s < npackets s) then 1 else 0\<rparr>)"

definition status :: "ping \<Rightarrow> (int \<times> int option) \<times> ping" where
  "status s =
     ((if ntransmitted s \<noteq> 0 then loss_percent s else 0,
       if nreceived s \<noteq> 0 \<and> timing s then Some (mean (tsum s) s) else None),
      s\<lparr>status_snapshot := False\<rparr>)"

section \<open>What an operation leaves unchanged\<close>

lemma acknowledge_frame [simp]:
  "nreceived (acknowledge q s) = nreceived s" "nrepeats (acknowledge q s) = nrepeats s"
  "timing (acknowledge q s) = timing s" "rcvd_tbl (acknowledge q s) = rcvd_tbl s"
  "options (acknowledge q s) = options s" "tsum (acknowledge q s) = tsum s" "tsum2 (acknowledge q s) = tsum2 s"
  "tmin (acknowledge q s) = tmin s" "tmax (acknowledge q s) = tmax s" "rtt (acknowledge q s) = rtt s"
  "ntransmitted (acknowledge q s) = ntransmitted s" "nerrors (acknowledge q s) = nerrors s"
  "nchecksum (acknowledge q s) = nchecksum s" "datalen (acknowledge q s) = datalen s"
  "feedback_calls (acknowledge q s) = feedback_calls s" "ticks (acknowledge q s) = ticks s"
  "probes (acknowledge q s) = probes s" "confirm_flag (acknowledge q s) = confirm_flag s"
  "ident (acknowledge q s) = ident s" "whereto (acknowledge q s) = whereto s"
  by (simp_all add: acknowledge_def Let_def)

lemma acknowledge_eq:
  "acknowledge q s = s\<lparr>pipesize := pipesize (acknowledge q s), acked := acked (acknowledge q s)\<rparr>"
  by (simp add: acknowledge_def Let_def)

lemma update_interval_eq: "\<exists>i. update_interval s = s\<lparr>interval := i\<rparr>"
  by (auto simp: update_interval_def Let_def)

lemma count_trip_eq:
  "\<exists>i. count_trip t s = s\<lparr>tsum := to_s64 (tsum s + t), tsum2 := to_s64 (tsum2 s + to_s64 (t * t)),
     tmin := min (tmin s) t, tmax := max (tmax s) t,
     rtt := if rtt s = 0 then to_s32 (t * 8) else to_s32 (rtt s + (t - rtt s sdiv 8)), interval := i\<rparr>"
proof -
  have "(if t < tmin s then t else tmin s) = min (tmin s) t" "(if t > tmax s then t else tmax s) = max (tmax s) t"
    by (simp_all add: min_def max_def)
  then show ?thesis
    using update_interval_eq [of "s\<lparr>tsum := to_s64 (tsum s + t), tsum2 := to_s64 (tsum2 s + to_s64 (t * t)),
     tmin := min (tmin s) t, tmax := max (tmax s) t,
     rtt := if rtt s = 0 then to_s32 (t * 8) else to_s32 (rtt s + (t - rtt s sdiv 8))\<rparr>"]
    unfolding count_trip_def Let_def by (auto simp: flag_def intro: exI [of _ "interval s"])
qed

lemma measure_trip_forward:
  "0 \<le> trip tv tmp_tv \<Longrightarrow> measure_trip os tv tmp_tv s = (trip tv tmp_tv, s)"
  by (simp add: measure_trip_def Let_def)

section \<open>A sequence of replies\<close>

text \<open>A reply: the bytes from its ICMP header on, their number, its sequence number, its time.\<close>

record reply =
  rp_icmp :: "u8 list"
  rp_cc :: nat
  rp_seq :: u16
  rp_time :: timeval

definition trip_of :: "reply \<Rightarrow> int" where
  "trip_of r = trip (rp_time r) (timeval_at (drop 8 (rp_icmp r)))"

fun gather_all :: "sys \<Rightarrow> reply list \<Rightarrow> ping \<Rightarrow> ping option" where
  "gather_all os [] s = Some s"
| "gather_all os (r # rs) s =
     (case gather_statistics os (rp_icmp r) 8 (rp_cc r) (rp_seq r) False (rp_time r) s of
        None \<Rightarrow> None
      | Some (v, s') \<Rightarrow> gather_all os rs s')"

definition squares :: "int list \<Rightarrow> int" where
  "squares ts = sum_list (map (\<lambda>t. t * t) ts)"

text \<open>What the statistics are after replies with the sequence numbers \<open>qs\<close> and the trip times \<open>ts\<close>.\<close>

definition stats_of :: "u16 set \<Rightarrow> u16 list \<Rightarrow> int list \<Rightarrow> ping \<Rightarrow> bool" where
  "stats_of Q qs ts s \<longleftrightarrow>
     received (rcvd_tbl s) = Q \<union> set qs \<and> nreceived s = int (card (set qs)) \<and>
     nreceived s + nrepeats s = int (length qs) \<and>
     tsum s = sum_list ts \<and> tsum2 s = squares ts \<and>
     tmin s = fold min ts LONG_MAX \<and> tmax s = fold max ts 0 \<and>
     0 \<le> rtt s \<and> (ts = [] \<and> rtt s = 0 \<or> tmin s \<le> rtt s div 8 \<and> rtt s div 8 \<le> tmax s)"

text \<open>The moving average of the trip times, in eighths, stays between the smallest and the largest.\<close>

lemma average_step:
  fixes r t lo hi :: int
  assumes "0 \<le> r" "lo \<le> r div 8" "r div 8 \<le> hi" "0 \<le> t"
  shows "min lo t \<le> (r + (t - r div 8)) div 8" "(r + (t - r div 8)) div 8 \<le> max hi t" "0 \<le> r + (t - r div 8)"
  using assms by (auto simp: min_def max_def)

text \<open>What one reply with a sound time stamp does to the state.\<close>

lemma count_reply_eq:
  assumes "timing s" "cc \<ge> 24" "0 \<le> t" "t = trip tv (timeval_at (drop 8 icmp))"
  shows "\<exists>p a i. count_reply os icmp 8 cc seq False tv s =
    (t, s\<lparr>pipesize := p, acked := a, interval := i,
       nreceived := if seq \<in> received (rcvd_tbl s) then nreceived s else nreceived s + 1,
       nrepeats := if seq \<in> received (rcvd_tbl s) then nrepeats s + 1 else nrepeats s,
       rcvd_tbl := if seq \<in> received (rcvd_tbl s) then rcvd_tbl s else rcvd_set seq (rcvd_tbl s),
       tsum := to_s64 (tsum s + t), tsum2 := to_s64 (tsum2 s + to_s64 (t * t)),
       tmin := min (tmin s) t, tmax := max (tmax s) t,
       rtt := if rtt s = 0 then to_s32 (t * 8) else to_s32 (rtt s + (t - rtt s sdiv 8)),
       confirm := confirm_flag s\<rparr>)"
proof -
  obtain p a where ack: "acknowledge seq (s\<lparr>nreceived := nreceived s + 1\<rparr>) =
      s\<lparr>nreceived := nreceived s + 1, pipesize := p, acked := a\<rparr>"
    using acknowledge_eq [of seq "s\<lparr>nreceived := nreceived s + 1\<rparr>"] by (metis (no_types))
  obtain i where cnt: "count_trip t (s\<lparr>nreceived := nreceived s + 1, pipesize := p, acked := a\<rparr>) =
      (s\<lparr>nreceived := nreceived s + 1, pipesize := p, acked := a\<rparr>)\<lparr>tsum := to_s64 (tsum s + t),
       tsum2 := to_s64 (tsum2 s + to_s64 (t * t)), tmin := min (tmin s) t, tmax := max (tmax s) t,
       rtt := if rtt s = 0 then to_s32 (t * 8) else to_s32 (rtt s + (t - rtt s sdiv 8)), interval := i\<rparr>"
    using count_trip_eq [of t "s\<lparr>nreceived := nreceived s + 1, pipesize := p, acked := a\<rparr>"] by (simp cong: if_cong) blast
  have "measure_trip os tv (timeval_at (drop 8 icmp)) s' = (t, s')" for s'
    using measure_trip_forward assms(3,4) by simp
  then show ?thesis
    using assms(1,2)
    by (intro exI [of _ p] exI [of _ a] exI [of _ i]) (simp add: count_reply_def ack cnt)
qed

lemma gather_report:
  assumes "count_reply os icmp 8 cc seq False tv s = (t, s1)" "\<not> flag s1 F_FLOOD"
  shows "\<exists>v n fs. gather_statistics os icmp 8 cc seq False tv s = Some (v, s1\<lparr>ticks := n, feedback_calls := fs\<rparr>)"
proof -
  have *: "s1 = s1\<lparr>ticks := ticks s1, feedback_calls := feedback_calls s1\<rparr>"
    "s1\<lparr>ticks := n\<rparr> = s1\<lparr>ticks := n, feedback_calls := feedback_calls s1\<rparr>"
    "s1\<lparr>feedback_calls := fs\<rparr> = s1\<lparr>ticks := ticks s1, feedback_calls := fs\<rparr>" for n fs by simp_all
  show ?thesis
    using assms(2) unfolding gather_statistics_def assms(1)
    by (simp add: Let_def gettimeofday_def Feedback_call_def) (metis *)
qed

lemma sdiv_nonneg: "0 \<le> a \<Longrightarrow> 0 \<le> b \<Longrightarrow> a sdiv b = a div (b :: int)"
  by (cases "a = 0"; cases "b = 0") (simp_all add: signed_divide_int_def)

lemma rtt_step:
  assumes "0 \<le> rtt s" "ts = [] \<and> rtt s = 0 \<or> tmin s \<le> rtt s div 8 \<and> rtt s div 8 \<le> tmax s"
    "tmax s < 2 ^ 28 - 1" "0 \<le> t" "t < 2 ^ 28 - 1"
    "r = (if rtt s = 0 then to_s32 (t * 8) else to_s32 (rtt s + (t - rtt s sdiv 8)))"
  shows "0 \<le> r \<and> min (tmin s) t \<le> r div 8 \<and> r div 8 \<le> max (tmax s) t"
proof (cases "rtt s = 0")
  case True
  then have "r = t * 8" using assms(4-6) by (simp add: to_s32_id)
  then show ?thesis using assms(4) by simp
next
  case False
  then have in_range: "tmin s \<le> rtt s div 8" "rtt s div 8 \<le> tmax s" using assms(2) by auto
  note step = average_step [OF assms(1) in_range assms(4)]
  have "rtt s sdiv 8 = rtt s div 8" using assms(1) by (simp add: sdiv_nonneg)
  moreover have "rtt s + (t - rtt s div 8) < 2 ^ 31"
    using step(2) assms(3,5) by (simp add: max_def split: if_splits)
  ultimately have "r = rtt s + (t - rtt s div 8)"
    using assms(6) False step(3) by (simp add: to_s32_id)
  then show ?thesis using step by simp
qed

lemma squares_append [simp]: "squares (ts @ us) = squares ts + squares us"
  by (simp add: squares_def)

lemma gather_step:
  assumes "stats_of Q qs ts s" "timing s" "\<not> flag s F_FLOOD" "rp_cc r \<ge> 24" "t = trip_of r"
    "0 \<le> t" "t < 2 ^ 28 - 1" "tmax s < 2 ^ 28 - 1" "0 \<le> sum_list ts" "0 \<le> squares ts"
    "sum_list ts + t < 2 ^ 63" "squares ts + t * t < 2 ^ 63" "rp_seq r \<notin> Q"
  shows "\<exists>v s'. gather_statistics os (rp_icmp r) 8 (rp_cc r) (rp_seq r) False (rp_time r) s = Some (v, s') \<and>
    stats_of Q (qs @ [rp_seq r]) (ts @ [t]) s' \<and> timing s' \<and> \<not> flag s' F_FLOOD \<and> tmax s' < 2 ^ 28 - 1"
proof -
  have R: "received (rcvd_tbl s) = Q \<union> set qs" and N: "nreceived s = int (card (set qs))"
    and NR: "nreceived s + nrepeats s = int (length qs)" and T: "tsum s = sum_list ts" "tsum2 s = squares ts"
    and M: "tmin s = fold min ts LONG_MAX" "tmax s = fold max ts 0"
    and E: "0 \<le> rtt s" "ts = [] \<and> rtt s = 0 \<or> tmin s \<le> rtt s div 8 \<and> rtt s div 8 \<le> tmax s"
    using assms(1) unfolding stats_of_def by blast+
  define rt where "rt = (if rtt s = 0 then to_s32 (t * 8) else to_s32 (rtt s + (t - rtt s sdiv 8)))"
  have rt: "0 \<le> rt" "min (tmin s) t \<le> rt div 8" "rt div 8 \<le> max (tmax s) t"
    using rtt_step [OF E assms(8,6,7) rt_def] by simp_all
  have dup: "rp_seq r \<in> received (rcvd_tbl s) \<longleftrightarrow> rp_seq r \<in> set qs" using R assms(13) by simp
  have sq: "t * t \<ge> 0" "t * t < 2 ^ 63"
    using assms(10,12) by simp_all
  have sums: "to_s64 (tsum s + t) = sum_list ts + t" "to_s64 (tsum2 s + to_s64 (t * t)) = squares ts + t * t"
  proof -
    show "to_s64 (tsum s + t) = sum_list ts + t" using T(1) assms(6,9,11) by (simp add: to_s64_id)
    have "to_s64 (t * t) = t * t" using sq by (intro to_s64_id) linarith+
    moreover have "to_s64 (squares ts + t * t) = squares ts + t * t"
      using sq assms(10,12) by (intro to_s64_id) linarith+
    ultimately show "to_s64 (tsum2 s + to_s64 (t * t)) = squares ts + t * t" using T(2) by simp
  qed
  obtain p a i where c: "count_reply os (rp_icmp r) 8 (rp_cc r) (rp_seq r) False (rp_time r) s =
    (t, s\<lparr>pipesize := p, acked := a, interval := i,
       nreceived := if rp_seq r \<in> set qs then nreceived s else nreceived s + 1,
       nrepeats := if rp_seq r \<in> set qs then nrepeats s + 1 else nrepeats s,
       rcvd_tbl := if rp_seq r \<in> set qs then rcvd_tbl s else rcvd_set (rp_seq r) (rcvd_tbl s),
       tsum := sum_list ts + t, tsum2 := squares ts + t * t,
       tmin := min (tmin s) t, tmax := max (tmax s) t, rtt := rt, confirm := confirm_flag s\<rparr>)" (is "_ = (t, ?s1)")
    using count_reply_eq [OF assms(2,4,6) assms(5) [unfolded trip_of_def], of os "rp_seq r"]
    unfolding dup sums rt_def [symmetric] by blast
  have nf: "\<not> flag ?s1 F_FLOOD" using assms(3) by (simp add: flag_def)
  obtain v n fs where g: "gather_statistics os (rp_icmp r) 8 (rp_cc r) (rp_seq r) False (rp_time r) s =
      Some (v, ?s1\<lparr>ticks := n, feedback_calls := fs\<rparr>)"
    using gather_report [OF c nf] by blast
  have "stats_of Q (qs @ [rp_seq r]) (ts @ [t]) (?s1\<lparr>ticks := n, feedback_calls := fs\<rparr>)"
    using R N NR M rt by (auto simp: stats_of_def squares_def card_insert_if min.commute max.commute)
  then show ?thesis using g nf assms(2,6-8) by (auto simp: flag_def)
qed

text \<open>Sums of squares.\<close>

lemma sum_le_squares: "\<forall>t\<in>set ts. 0 \<le> t \<Longrightarrow> 0 \<le> sum_list ts \<and> sum_list ts \<le> squares ts"
proof (induction ts)
  case (Cons t ts)
  have "t \<le> t * t" using Cons.prems mult_left_mono [of 1 t t] by (cases "t = 0") auto
  then show ?case using Cons by (simp add: squares_def)
qed (simp add: squares_def)

lemma squares_deviation: "0 \<le> squares ts - 2 * sum_list ts * t + int (length ts) * (t * t)"
proof (induction ts)
  case (Cons u ts)
  have "0 \<le> (u - t) * (u - t)" by simp
  then show ?case using Cons by (simp add: squares_def algebra_simps)
qed (simp add: squares_def)

lemma square_of_sum: "sum_list ts * sum_list ts \<le> int (length ts) * squares ts"
proof (induction ts)
  case (Cons t ts)
  then show ?case using squares_deviation [of ts t] by (simp add: squares_def algebra_simps)
qed (simp add: squares_def)

lemma square_of_mean:
  assumes "ts \<noteq> []" "0 \<le> sum_list ts" "n = int (length ts)"
  shows "(sum_list ts div n) * (sum_list ts div n) \<le> squares ts div n"
proof -
  let ?a = "sum_list ts div n"
  have n: "0 < n" using assms(1,3) by simp
  have an: "?a * n \<le> sum_list ts" using n div_mult_mod_eq [of "sum_list ts" n] pos_mod_sign [of n "sum_list ts"] by linarith
  moreover have "0 \<le> ?a * n" using assms(2) n by (simp add: pos_imp_zdiv_nonneg_iff)
  ultimately have "(?a * n) * (?a * n) \<le> sum_list ts * sum_list ts" by (intro mult_mono) (use assms(2) in simp_all)
  also have "\<dots> \<le> n * squares ts" using square_of_sum [of ts] assms(3) by simp
  finally have "n * (?a * ?a * n) \<le> n * squares ts" by (simp add: ac_simps)
  then have "?a * ?a * n \<le> squares ts" using n by simp
  then show ?thesis using n zdiv_mono1 [of "?a * ?a * n" "squares ts" n] by simp
qed

lemma fold_min_bounds:
  "fold min ts m \<le> (m :: int)" "t \<in> set ts \<Longrightarrow> fold min ts m \<le> t"
  "(m :: int) \<le> fold max ts m" "t \<in> set ts \<Longrightarrow> t \<le> fold max ts m"
proof -
  have min: "fold min ts m = Min (insert m (set ts))" by (simp add: Min.set_eq_fold flip: list.set)
  have max: "fold max ts m = Max (insert m (set ts))" by (simp add: Max.set_eq_fold flip: list.set)
  show "fold min ts m \<le> m" "t \<in> set ts \<Longrightarrow> fold min ts m \<le> t" by (simp_all add: min)
  show "m \<le> fold max ts m" "t \<in> set ts \<Longrightarrow> t \<le> fold max ts m" by (simp_all add: max)
qed

lemma mean_between:
  fixes lo hi :: int
  assumes "\<forall>t\<in>set ts. lo \<le> t \<and> t \<le> hi" "ts \<noteq> []" "n = int (length ts)"
  shows "lo \<le> sum_list ts div n" "sum_list ts div n \<le> hi"
proof -
  have n: "0 < n" using assms(2,3) by simp
  have "lo * n \<le> sum_list ts \<and> sum_list ts \<le> hi * n"
    unfolding assms(3) using assms(1) by (induction ts) (auto simp: algebra_simps)
  then show "lo \<le> sum_list ts div n" "sum_list ts div n \<le> hi"
    using n zdiv_mono1 [of "lo * n" "sum_list ts" n] zdiv_mono1 [of "sum_list ts" "hi * n" n] by simp_all
qed

lemma gather_all_stats:
  assumes "stats_of Q qs ts s" "timing s" "\<not> flag s F_FLOOD" "tmax s < 2 ^ 28 - 1" "\<forall>t\<in>set ts. 0 \<le> t"
    "\<forall>r\<in>set rs. rp_cc r \<ge> 24 \<and> 0 \<le> trip_of r \<and> trip_of r < 2 ^ 28 - 1 \<and> rp_seq r \<notin> Q"
    "squares (ts @ map trip_of rs) < 2 ^ 62"
  shows "\<exists>s'. gather_all os rs s = Some s' \<and> stats_of Q (qs @ map rp_seq rs) (ts @ map trip_of rs) s' \<and> timing s'"
  using assms
proof (induction rs arbitrary: s qs ts)
  case (Cons r rs)
  let ?t = "trip_of r"
  have r: "rp_cc r \<ge> 24" "0 \<le> ?t" "?t < 2 ^ 28 - 1" "rp_seq r \<notin> Q" using Cons.prems(6) by simp_all
  have pos: "\<forall>t\<in>set (ts @ [?t]). 0 \<le> t" using Cons.prems(5) r(2) by auto
  have "0 \<le> squares (map trip_of rs)" using sum_le_squares [of "map trip_of rs"] Cons.prems(6) by force
  then have sq: "squares (ts @ [?t]) < 2 ^ 62"
    using Cons.prems(7) by (simp add: squares_def)
  have sums: "0 \<le> sum_list ts" "0 \<le> squares ts" "sum_list ts + ?t < 2 ^ 63" "squares ts + ?t * ?t < 2 ^ 63"
    using sum_le_squares [OF pos] sum_le_squares [OF Cons.prems(5)] sq by (simp_all add: squares_def)
  obtain v s1 where g: "gather_statistics os (rp_icmp r) 8 (rp_cc r) (rp_seq r) False (rp_time r) s = Some (v, s1)"
    and s1: "stats_of Q (qs @ [rp_seq r]) (ts @ [?t]) s1" "timing s1" "\<not> flag s1 F_FLOOD" "tmax s1 < 2 ^ 28 - 1"
    using gather_step [OF Cons.prems(1-3) r(1) refl r(2,3) Cons.prems(4) sums r(4)] by blast
  have "\<exists>s'. gather_all os rs s1 = Some s' \<and> stats_of Q ((qs @ [rp_seq r]) @ map rp_seq rs) ((ts @ [?t]) @ map trip_of rs) s' \<and> timing s'"
    by (rule Cons.IH [OF s1 pos]) (use Cons.prems(6,7) in simp_all)
  then show ?case using g by simp
qed simp

text \<open>Counters and sums at the start of a run, with a table without the expected numbers.\<close>

definition fresh_stats :: "ping \<Rightarrow> bool" where
  "fresh_stats s \<longleftrightarrow> nreceived s = 0 \<and> nrepeats s = 0 \<and> tsum s = 0 \<and> tsum2 s = 0 \<and> rtt s = 0 \<and>
     tmin s = LONG_MAX \<and> tmax s = 0 \<and> timing s \<and> \<not> flag s F_FLOOD"


text \<open>Two replies, after 1.5 ms and 3 ms.\<close>

definition lab_reply :: "u16 \<Rightarrow> int \<Rightarrow> reply" where
  "lab_reply q us = \<lparr>rp_icmp = replicate 8 0 @ timeval_bytes \<lparr>tv_sec = 100, tv_usec = 10\<rparr> @ replicate 40 0,
     rp_cc = 64, rp_seq = q, rp_time = \<lparr>tv_sec = 100, tv_usec = 10 + us\<rparr>\<rparr>"

lemma lab_reply_fields: "rp_cc (lab_reply q us) = 64" "rp_seq (lab_reply q us) = q"
  by (simp_all add: lab_reply_def)

lemma lab_reply_trip:
  assumes "us \<in> {1500, 3000}"
  shows "trip_of (lab_reply q us) = us"
proof -
  have "timeval_at (timeval_bytes \<lparr>tv_sec = 100, tv_usec = 10\<rparr> @ replicate 40 0) = \<lparr>tv_sec = 100, tv_usec = 10\<rparr>"
    by (rule timeval_round_trip) (simp add: long_timeval_def)
  then show ?thesis using assms
    by (auto simp: trip_of_def lab_reply_def trip_def tvsub_def Let_def to_s64_id)
qed


end
