(* ===== verification/Ping_Send.thy ===== *)
theory Ping_Send
  imports Ping_Stats
begin

text \<open>
  The sending side of the ping library: the checksum and \<open>send_probe\<close> of monitor/ping.c, \<open>pinger\<close>,
  \<open>fill\<close> and \<open>setup\<close> of monitor/ping_common.c; that every probe carries a valid checksum and its time,
  and that \<open>pinger\<close> keeps to its rate.
\<close>

section \<open>The checksum\<close>

text \<open>The words are read in the order of the machine, little-endian.\<close>

fun sum_words :: "u8 list \<Rightarrow> int \<Rightarrow> int" where
  "sum_words (a # b # bs) s = sum_words bs (s + (uint a + 256 * uint b))"
| "sum_words [a] s = s + uint a"
| "sum_words [] s = s"

definition in_cksum :: "u8 list \<Rightarrow> u16 \<Rightarrow> u16" where
  "in_cksum bs csum =
     (let s = sum_words bs (uint csum);
          s = drop_bit 16 s + (s AND 0xffff);
          s = s + drop_bit 16 s
      in NOT (of_int s))"

lemma sum_words_add: "sum_words bs (s + t) = s + sum_words bs t"
  by (induction bs t arbitrary: s rule: sum_words.induct) (simp_all add: add.assoc)

lemma sum_words_append: "even (length xs) \<Longrightarrow> sum_words (xs @ ys) s = sum_words ys (sum_words xs s)"
  by (induction xs s rule: sum_words.induct) simp_all

text \<open>The accumulator stays within 31 bits for a packet of 64 kB.\<close>

lemma sum_words_range: "0 \<le> s \<Longrightarrow> 0 \<le> sum_words bs s \<and> sum_words bs s \<le> s + 65535 * int ((length bs + 1) div 2)"
proof (induction bs s rule: sum_words.induct)
  case (1 a b bs s)
  have ab: "0 \<le> uint a" "0 \<le> uint b" "uint a < 256" "uint b < 256"
    using unsigned_less [of a, where ?'a = int] unsigned_less [of b, where ?'a = int] by simp_all
  then have "0 \<le> s + (uint a + 256 * uint b)" using 1(2) by simp
  from 1(1) [OF this] ab show ?case by simp
next
  case (2 a s)
  then show ?case using unsigned_less [of a, where ?'a = int] by simp
qed simp

text \<open>Folding the carries is reduction modulo \<open>65535\<close>, to \<open>65535\<close> instead of zero.\<close>

definition fold_carries :: "int \<Rightarrow> int" where
  "fold_carries s = (if s = 0 then 0 else (s - 1) mod 65535 + 1)"

lemma in_cksum_fold:
  assumes "0 \<le> sum_words bs (uint csum)" "sum_words bs (uint csum) < 2 ^ 31"
  shows "NOT (in_cksum bs csum) = of_int (fold_carries (sum_words bs (uint csum)))"
proof -
  define s where "s = sum_words bs (uint csum)"
  define h l where "h = s div 65536" and "l = s mod 65536"
  have s: "s = 65536 * h + l" "0 \<le> h" "h < 32768" "0 \<le> l" "l < 65536"
    using assms by (simp_all add: h_def l_def flip: s_def)
  have "s AND 0xffff = l" using take_bit_eq_mask [of 16 s] by (simp add: l_def take_bit_eq_mod mask_eq_exp_minus_1)
  then have sum: "NOT (in_cksum bs csum) = of_int (h + l + (h + l) div 65536)"
    by (simp add: in_cksum_def Let_def drop_bit_eq_div h_def flip: s_def)
  have "of_int (h + l + (h + l) div 65536) = (of_int (fold_carries s) :: u16)"
  proof (cases "h + l < 65536")
    case True
    have "(h + l - 1) mod 65535 + 1 = h + l" if "h + l \<noteq> 0"
      using True that s by (simp add: mod_pos_pos_trivial)
    moreover have "(s - 1) mod 65535 = (h + l - 1) mod 65535"
    proof -
      have "s - 1 = (h + l - 1) + 65535 * h" using s(1) by simp
      then show ?thesis by (metis mod_mult_self2)
    qed
    ultimately show ?thesis using True s by (cases "h + l = 0") (auto simp: fold_carries_def)
  next
    case False
    define m where "m = h + l - 65536"
    have m: "0 \<le> m" "m < 65535" "h + l = 65536 + m" using False s by (simp_all add: m_def)
    have "s - 1 = m + 65535 * (h + 1)" using s(1) m(3) by simp
    then have "(s - 1) mod 65535 = m" using m by (metis mod_mult_self2 mod_pos_pos_trivial)
    moreover have "(65536 + m) div 65536 = 1" using m by simp
    moreover have "(of_int (65536 + m + 1) :: u16) = of_int (m + 1)" by simp
    ultimately show ?thesis using s m by (simp add: fold_carries_def)
  qed
  then show ?thesis using sum s_def by simp
qed

lemma fold_carries_range: "0 \<le> s \<Longrightarrow> 0 \<le> fold_carries s \<and> fold_carries s \<le> 65535"
proof -
  have "(s - 1) mod 65535 < 65535" "0 \<le> (s - 1) mod 65535" by simp_all
  then have "(s - 1) mod 65535 + 1 \<le> 65535" "0 \<le> (s - 1) mod 65535 + 1" by linarith+
  then show ?thesis by (auto simp: fold_carries_def)
qed

lemma fold_carries_mod: "fold_carries s mod 65535 = s mod 65535"
  by (simp add: fold_carries_def mod_simps)

lemma fold_carries_full: "0 < s \<Longrightarrow> s mod 65535 = 0 \<Longrightarrow> fold_carries s = 65535"
proof -
  assume "0 < s" "s mod 65535 = 0"
  then have "(s - 1) mod 65535 = (0 - 1) mod 65535" by (metis mod_diff_left_eq)
  then show ?thesis using \<open>0 < s\<close> by (simp add: fold_carries_def)
qed

lemma checksum_value:
  assumes "NOT c = (of_int f :: u16)" "0 \<le> f" "f \<le> 65535"
  shows "uint c = 65535 - f"
proof -
  have "c = NOT (of_int f)" using assms(1) by (metis bit.double_compl)
  also have "\<dots> = of_int (65535 - f)" by (simp add: not_eq_complement)
  finally show ?thesis using assms(2,3) by (simp add: unsigned_of_int take_bit_int_eq_self del: of_int_diff)
qed

text \<open>A packet of the sum \<open>s\<close> with its checksum inserted sums to a multiple of \<open>65535\<close>.\<close>

lemma checksum_inserted:
  assumes "uint c = 65535 - fold_carries t" "0 < s" "s mod 65535 = t mod 65535" "0 \<le> t"
  shows "fold_carries (s + uint c) = 65535"
proof (rule fold_carries_full)
  show "0 < s + uint c" using assms(2) by (simp add: add_pos_nonneg)
  have "s + uint c = (s - fold_carries t) + 65535" using assms(1) by simp
  then have "(s + uint c) mod 65535 = (s - fold_carries t) mod 65535" by (metis mod_add_self2)
  also have "\<dots> = (s mod 65535 - fold_carries t mod 65535) mod 65535" by (simp add: mod_simps)
  also have "\<dots> = 0" using assms(3) by (simp add: fold_carries_mod)
  finally show "(s + uint c) mod 65535 = 0" .
qed

lemma in_cksum_zero:
  assumes "fold_carries (sum_words bs 0) = 65535" "sum_words bs 0 < 2 ^ 31"
  shows "in_cksum bs 0 = 0"
proof -
  have "NOT (in_cksum bs 0) = of_int (fold_carries (sum_words bs 0))"
    using in_cksum_fold [of bs 0] sum_words_range [of 0 bs] assms(2) by simp
  then have "in_cksum bs 0 = NOT (65535 :: u16)" using assms(1) by (metis bit.double_compl of_int_numeral)
  then show ?thesis by simp
qed

section \<open>A probe\<close>

definition store :: "nat \<Rightarrow> u8 list \<Rightarrow> (nat \<Rightarrow> u8) \<Rightarrow> nat \<Rightarrow> u8" where
  "store i bs mem = (\<lambda>k. if i \<le> k \<and> k < i + length bs then bs ! (k - i) else mem k)"

text \<open>A 16-bit value as it lies in memory, and in network order.\<close>

definition u16_bytes :: "u16 \<Rightarrow> u8 list" where
  "u16_bytes w = [ucast w, ucast (drop_bit 8 w)]"

definition htons :: "u16 \<Rightarrow> u16" where
  "htons w = push_bit 8 w OR drop_bit 8 w"

definition region :: "(nat \<Rightarrow> u8) \<Rightarrow> nat \<Rightarrow> nat \<Rightarrow> u8 list" where
  "region mem a b = map mem [a..<b]"

definition packet :: "nat \<Rightarrow> ping \<Rightarrow> u8 list" where
  "packet cc s = region (outpack s) 0 cc"

definition write_out :: "nat \<Rightarrow> u8 list \<Rightarrow> ping \<Rightarrow> ping" where
  "write_out i bs s = s\<lparr>outpack := store i bs (outpack s)\<rparr>"

text \<open>An echo request: type 8, code 0, checksum, identifier, sequence number.\<close>

definition probe_header :: "u16 \<Rightarrow> u16 \<Rightarrow> u16 \<Rightarrow> u8 list" where
  "probe_header c i n = [8, 0] @ u16_bytes c @ u16_bytes i @ u16_bytes (htons n)"

text \<open>
  \<open>send_probe\<close>: the header at 0, the time stamp at 8. Without the option \<open>F_LATENCY\<close> the sum is
  formed over a zero time stamp first, then the time is read and its sum added.
\<close>

definition send_probe :: "sys \<Rightarrow> ping \<Rightarrow> int \<times> ping" where
  "send_probe os s =
     (let n = of_int (ntransmitted s + 1) :: u16;
          s = write_out 0 (probe_header 0 (ident s) n) s;
          s = s\<lparr>rcvd_tbl := rcvd_clear n (rcvd_tbl s)\<rparr>;
          s = (if timing s then
                 (if flag s F_LATENCY then (let (tv, s) = gettimeofday os s in write_out 8 (timeval_bytes tv) s)
                  else write_out 8 (replicate 16 0) s)
               else s);
          cc = nat (datalen s + 8);
          c = in_cksum (packet cc s) 0;
          s = write_out 2 (u16_bytes c) s;
          s = (if timing s \<and> \<not> flag s F_LATENCY then
                 (let (tv, s) = gettimeofday os s;
                      s = write_out 8 (timeval_bytes tv) s
                  in write_out 2 (u16_bytes (in_cksum (timeval_bytes tv) (NOT c))) s)
               else s);
          i = sendmsg os (ticks s);
          s = s\<lparr>ticks := Suc (ticks s), probes := probes s @ [packet cc s], confirm := 0\<rparr>
      in (if int cc = i then 0 else i, s))"

section \<open>Every probe is valid\<close>

lemma store_outside: "b \<le> i \<or> i + length bs \<le> a \<Longrightarrow> region (store i bs mem) a b = region mem a b"
  by (auto simp: region_def store_def)

lemma store_inside: "n = i + length bs \<Longrightarrow> region (store i bs mem) i n = bs"
  by (rule nth_equalityI) (simp_all add: region_def store_def)

lemma upt_split: "i \<le> j \<Longrightarrow> j \<le> k \<Longrightarrow> [i..<k] = [i..<j] @ [j..<k]"
  using upt_add_eq_append [of i j "k - j"] by simp

lemma probe_header_simps [simp]:
  "length (probe_header c i n) = 8" "length (u16_bytes w) = 2" "length (timeval_bytes tv) = 16"
  by (simp_all add: probe_header_def u16_bytes_def timeval_bytes_def)

lemma header_in_memory: "region (store 2 (u16_bytes c) (store 0 (probe_header c0 i n) mem)) 0 8 = probe_header c i n"
  by (simp add: region_def upt_rec_numeral store_def probe_header_def u16_bytes_def nth_Cons' upt_conv_Cons)

lemma header_mod: "sum_words (probe_header c i n @ bs) 0 = uint c + sum_words (probe_header 0 i n @ bs) 0"
proof -
  have "uint (ucast c :: u8) + 256 * uint (ucast (drop_bit 8 c) :: u8) = uint c"
  proof -
    have "uint (ucast c :: u8) = uint c mod 256" by (simp add: unsigned_ucast_eq take_bit_eq_mod)
    moreover have "uint (drop_bit 8 c) = uint c div 256" by (simp add: drop_bit_eq_div uint_div_distrib)
    moreover have "uint c div 256 mod 256 = uint c div 256"
    proof (rule mod_pos_pos_trivial)
      show "0 \<le> uint c div 256" by (simp add: pos_imp_zdiv_nonneg_iff)
      show "uint c div 256 < 256" using unsigned_less [of c, where ?'a = int] by simp
    qed
    ultimately show ?thesis
      using mod_mult_div_eq [of "uint c" 256] by (simp add: unsigned_ucast_eq take_bit_eq_mod)
  qed
  then have "sum_words (probe_header c i n @ bs) 0 =
      sum_words bs (uint c + (sum_words (probe_header 0 i n) 0))"
    by (simp add: probe_header_def u16_bytes_def ac_simps)
  also have "\<dots> = uint c + sum_words bs (sum_words (probe_header 0 i n) 0)" by (simp add: sum_words_add)
  finally show ?thesis by (simp add: sum_words_append)
qed

text \<open>What is checked of a probe: its fields, its checksum, its time stamp.\<close>

definition valid_probe :: "nat \<Rightarrow> u16 \<Rightarrow> u16 \<Rightarrow> timeval option \<Rightarrow> u8 list \<Rightarrow> bool" where
  "valid_probe cc i n stamp p \<longleftrightarrow> length p = cc \<and> (\<exists>c. take 8 p = probe_header c i n) \<and> in_cksum p 0 = 0 \<and>
     (case stamp of None \<Rightarrow> True | Some tv \<Rightarrow> take 16 (drop 8 p) = timeval_bytes tv)"

lemma valid_probeI:
  assumes "uint c = 65535 - fold_carries t" "t mod 65535 = sum_words (probe_header 0 i n @ bs) 0 mod 65535" "0 \<le> t"
    "length bs \<le> 65528" "cc = 8 + length bs" "stamp = None \<or> (\<exists>tv rest. stamp = Some tv \<and> bs = timeval_bytes tv @ rest)"
  shows "valid_probe cc i n stamp (probe_header c i n @ bs)"
proof -
  let ?S = "sum_words (probe_header 0 i n @ bs) 0"
  have "?S = 8 + sum_words (u16_bytes 0 @ u16_bytes i @ u16_bytes (htons n) @ bs) 0"
    using sum_words_add [of "u16_bytes 0 @ u16_bytes i @ u16_bytes (htons n) @ bs" 8 0] by (simp add: probe_header_def)
  then have "0 < ?S"
    using sum_words_range [of 0 "u16_bytes 0 @ u16_bytes i @ u16_bytes (htons n) @ bs"] by simp
  from checksum_inserted [OF assms(1) this] assms(2,3)
  have "fold_carries (sum_words (probe_header c i n @ bs) 0) = 65535"
    by (simp add: header_mod [of c] add.commute)
  moreover have "sum_words (probe_header c i n @ bs) 0 < 2 ^ 31"
  proof -
    have "length (probe_header c i n @ bs) \<le> 65536" using assms(4) by simp
    then have "(length (probe_header c i n @ bs) + 1) div 2 \<le> 32768" by linarith
    then have "65535 * int ((length (probe_header c i n @ bs) + 1) div 2) \<le> 65535 * 32768"
      by (intro mult_left_mono) simp_all
    moreover have "sum_words (probe_header c i n @ bs) 0 \<le> 0 + 65535 * int ((length (probe_header c i n @ bs) + 1) div 2)"
      using sum_words_range [of 0 "probe_header c i n @ bs"] by blast
    ultimately have "sum_words (probe_header c i n @ bs) 0 \<le> 65535 * 32768" by linarith
    then show ?thesis by simp
  qed
  ultimately have "in_cksum (probe_header c i n @ bs) 0 = 0" by (rule in_cksum_zero)
  then show ?thesis using assms(5,6) by (auto simp: valid_probe_def)
qed

lemma cksum_uint:
  assumes "sum_words bs (uint csum) < 2 ^ 31"
  shows "uint (in_cksum bs csum) = 65535 - fold_carries (sum_words bs (uint csum))"
    "uint (NOT (in_cksum bs csum)) = fold_carries (sum_words bs (uint csum))"
proof -
  have s: "0 \<le> sum_words bs (uint csum)" using sum_words_range [of "uint csum" bs] by simp
  note f = fold_carries_range [OF s] and n = in_cksum_fold [OF s assms]
  show "uint (in_cksum bs csum) = 65535 - fold_carries (sum_words bs (uint csum))"
    by (rule checksum_value [OF n]) (use f in simp_all)
  show "uint (NOT (in_cksum bs csum)) = fold_carries (sum_words bs (uint csum))"
    unfolding n using f by (simp add: unsigned_of_int take_bit_int_eq_self)
qed

lemma sum_words_small: "length bs \<le> 65536 \<Longrightarrow> sum_words bs 0 < 2 ^ 31"
  "length bs \<le> 65528 \<Longrightarrow> 0 \<le> s \<Longrightarrow> s < 65536 \<Longrightarrow> sum_words bs s < 2 ^ 31"
proof -
  have bound: "sum_words bs s \<le> s + 65535 * int k" if "length bs \<le> 2 * k" "0 \<le> s" for s k
  proof -
    have "int ((length bs + 1) div 2) \<le> int k" using that(1) by linarith
    then show ?thesis using sum_words_range [OF that(2), of bs] by linarith
  qed
  show "length bs \<le> 65536 \<Longrightarrow> sum_words bs 0 < 2 ^ 31" using bound [of 32768 0] by simp
  show "length bs \<le> 65528 \<Longrightarrow> 0 \<le> s \<Longrightarrow> s < 65536 \<Longrightarrow> sum_words bs s < 2 ^ 31"
    using bound [of 32764 s] by simp
qed

lemma header_checksum:
  assumes "region mem 0 8 = probe_header c0 i n"
  shows "region (store 2 (u16_bytes c) mem) 0 8 = probe_header c i n"
  using assms by (simp add: region_def upt_rec_numeral store_def probe_header_def u16_bytes_def nth_Cons' upt_conv_Cons)

lemma memory_split:
  "8 \<le> cc \<Longrightarrow> region mem 0 cc = region mem 0 8 @ region mem 8 cc"
  "24 \<le> cc \<Longrightarrow> region mem 8 cc = region mem 8 24 @ region mem 24 cc"
  by (simp_all add: region_def upt_split [of 0 8 cc] upt_split [of 8 24 cc] del: upt_rec_numeral)

lemma length_region [simp]: "length (region mem a b) = b - a"
  by (simp add: region_def)

lemma sum_words_zeros: "sum_words (replicate 16 0) s = s"
  by (simp add: eval_nat_numeral)

lemma sum_words_stamp:
  "sum_words (probe_header 0 i n @ timeval_bytes tv @ bs) 0 =
    sum_words (timeval_bytes tv) 0 + sum_words (probe_header 0 i n @ replicate 16 0 @ bs) 0"
proof -
  let ?h = "sum_words (probe_header 0 i n) 0"
  have "sum_words (timeval_bytes tv) ?h = ?h + sum_words (timeval_bytes tv) 0"
    using sum_words_add [of "timeval_bytes tv" ?h 0] by simp
  then show ?thesis
    using sum_words_add [of bs "sum_words (timeval_bytes tv) 0" ?h]
    by (simp add: sum_words_append sum_words_zeros add.commute)
qed

lemma probe_plain:
  assumes "8 \<le> cc" "cc \<le> 65536" "region mem 0 8 = probe_header 0 i n"
    "c = in_cksum (region mem 0 cc) 0" "stamp = None \<or> (\<exists>tv. stamp = Some tv \<and> region mem 8 24 = timeval_bytes tv \<and> 24 \<le> cc)"
  shows "valid_probe cc i n stamp (region (store 2 (u16_bytes c) mem) 0 cc)"
proof -
  note cc8 = assms(1)
  have p: "region (store 2 (u16_bytes c) mem) 0 cc = probe_header c i n @ region mem 8 cc"
    using assms(1,3) by (simp add: memory_split(1) [OF cc8] header_checksum store_outside)
  have q: "region mem 0 cc = probe_header 0 i n @ region mem 8 cc" using assms(1,3) by (simp add: memory_split(1) [OF cc8])
  show ?thesis unfolding p
  proof (rule valid_probeI)
    show "uint c = 65535 - fold_carries (sum_words (region mem 0 cc) 0)"
      unfolding assms(4) using cksum_uint(1) [of "region mem 0 cc" 0] sum_words_small(1) [of "region mem 0 cc"] assms(2) by simp
    show "0 \<le> sum_words (region mem 0 cc) 0" using sum_words_range [of 0] by simp
    show "stamp = None \<or> (\<exists>tv rest. stamp = Some tv \<and> region mem 8 cc = timeval_bytes tv @ rest)"
      using assms(5) memory_split(2) [of cc mem] by auto
  qed (use assms(1,2) q in simp_all)
qed

lemma probe_stamped:
  assumes "24 \<le> cc" "cc \<le> 65536" "region mem 0 8 = probe_header 0 i n" "region mem 8 24 = replicate 16 0"
    "c = in_cksum (region mem 0 cc) 0" "c' = in_cksum (timeval_bytes tv) (NOT c)"
  shows "valid_probe cc i n (Some tv)
    (region (store 2 (u16_bytes c') (store 8 (timeval_bytes tv) (store 2 (u16_bytes c) mem))) 0 cc)"
proof -
  have cc8: "8 \<le> cc" using assms(1) by simp
  let ?rest = "region mem 24 cc" and ?mem = "store 8 (timeval_bytes tv) (store 2 (u16_bytes c) mem)"
  have h: "region ?mem 0 8 = probe_header c i n"
    using header_checksum [OF assms(3), of c] by (simp add: store_outside)
  have tail: "region ?mem 8 cc = timeval_bytes tv @ ?rest"
    using assms(1) by (simp add: memory_split(2) [OF assms(1)] store_inside store_outside)
  have p: "region (store 2 (u16_bytes c') ?mem) 0 cc = probe_header c' i n @ timeval_bytes tv @ ?rest"
    using assms(1) tail by (simp add: memory_split(1) [OF cc8] header_checksum [OF h] store_outside)
  have q: "region mem 0 cc = probe_header 0 i n @ replicate 16 0 @ ?rest"
    using assms(1,3,4) by (simp add: memory_split(1) [OF cc8] memory_split(2) [OF assms(1)])
  define f where "f = fold_carries (sum_words (region mem 0 cc) 0)"
  have c: "uint (NOT c) = f"
    unfolding assms(5) f_def
    using cksum_uint(2) [of "region mem 0 cc" 0] sum_words_small(1) [of "region mem 0 cc"] assms(2) by simp
  have f: "0 \<le> f" "f < 65536" using fold_carries_range [of "sum_words (region mem 0 cc) 0"] sum_words_range [of 0 "region mem 0 cc"]
    by (simp_all add: f_def)
  show ?thesis unfolding p
  proof (rule valid_probeI)
    show "uint c' = 65535 - fold_carries (sum_words (timeval_bytes tv) f)"
      unfolding assms(6)
      using cksum_uint(1) [of "timeval_bytes tv" "NOT c"] sum_words_small(2) [of "timeval_bytes tv" f] f c by simp
    show "0 \<le> sum_words (timeval_bytes tv) f" using sum_words_range [OF f(1)] by simp
    have "sum_words (timeval_bytes tv) f mod 65535 = (f mod 65535 + sum_words (timeval_bytes tv) 0) mod 65535"
      using sum_words_add [of "timeval_bytes tv" f 0] by (simp add: mod_simps)
    also have "\<dots> = sum_words (probe_header 0 i n @ timeval_bytes tv @ ?rest) 0 mod 65535"
      by (simp add: f_def fold_carries_mod q sum_words_stamp mod_simps add.commute)
    finally show "sum_words (timeval_bytes tv) f mod 65535 = sum_words (probe_header 0 i n @ timeval_bytes tv @ ?rest) 0 mod 65535" .
  qed (use assms(1,2) in auto)
qed

lemma send_probe_effect:
  assumes "0 \<le> datalen s" "datalen s \<le> 65528" "timing s = (datalen s \<ge> 16)" "n = of_int (ntransmitted s + 1)"
  shows "\<exists>p. probes (snd (send_probe os s)) = probes s @ [p] \<and>
    valid_probe (nat (datalen s + 8)) (ident s) n (if timing s then Some (gtod os (ticks s)) else None) p \<and>
    received (rcvd_tbl (snd (send_probe os s))) = received (rcvd_tbl s) - {n} \<and>
    ntransmitted (snd (send_probe os s)) = ntransmitted s"
proof -
  define mem where "mem = store 0 (probe_header 0 (ident s) n) (outpack s)"
  define cc where "cc = nat (datalen s + 8)"
  have cc: "8 \<le> cc" "cc \<le> 65536" "timing s \<Longrightarrow> 24 \<le> cc" using assms(1-3) by (simp_all add: cc_def)
  have h: "region mem 0 8 = probe_header 0 (ident s) n" by (simp add: mem_def store_inside)
  have h8: "region (store 8 bs mem) 0 8 = probe_header 0 (ident s) n" for bs using h by (simp add: store_outside)
  have t8: "region (store 8 bs mem) 8 24 = bs" if "length bs = 16" for bs using that by (simp add: store_inside)
  have n: "of_int (ntransmitted s) + 1 = n" using assms(4) by simp
  note defs = send_probe_def write_out_def gettimeofday_def packet_def Let_def n mem_def [symmetric] cc_def [symmetric]
  consider "\<not> timing s" | "timing s" "flag s F_LATENCY" | "timing s" "\<not> flag s F_LATENCY" by blast
  then show ?thesis
  proof cases
    case 1
    show ?thesis
      using 1 probe_plain [OF cc(1,2) h refl, of None] by (simp add: defs)
  next
    case 2
    let ?tv = "gtod os (ticks s)"
    show ?thesis
      using 2 cc(3) probe_plain [OF cc(1,2) h8 refl, of "Some ?tv" "timeval_bytes ?tv"] t8 [of "timeval_bytes ?tv"]
      by (simp add: defs flag_def)
  next
    case 3
    let ?tv = "gtod os (ticks s)"
    show ?thesis
      using 3 probe_stamped [OF cc(3) cc(2) h8 t8 refl refl, of ?tv] by (simp add: defs flag_def)
  qed
qed

text \<open>C20: Every probe is valid: \<open>send_probe\<close> sends one packet of \<open>datalen + 8\<close> bytes, an echo request with
  the identifier of the run and the next sequence number, whose checksum verifies, also when the
  sum of the time stamp is added afterwards; with timing its data begin with the time read from
  the clock. The number is taken out of the table of numbers received.\<close>

theorem send_probe_valid:
  assumes "0 \<le> datalen s" "datalen s \<le> 65528" "timing s = (datalen s \<ge> 16)" "n = of_int (ntransmitted s + 1)"
  shows "\<exists>p. probes (snd (send_probe os s)) = probes s @ [p] \<and>
    valid_probe (nat (datalen s + 8)) (ident s) n (if timing s then Some (gtod os (ticks s)) else None) p \<and>
    received (rcvd_tbl (snd (send_probe os s))) = received (rcvd_tbl s) - {n} \<and>
    ntransmitted (snd (send_probe os s)) = ntransmitted s"
  by (rule send_probe_effect [OF assms])

theorem send_probe_valid_witness:
  "\<exists>p. probes (snd (send_probe lab_sys (ping_globals\<lparr>timing := True\<rparr>))) = probes (ping_globals\<lparr>timing := True\<rparr>) @ [p] \<and>
    valid_probe (nat (datalen (ping_globals\<lparr>timing := True\<rparr>) + 8)) (ident (ping_globals\<lparr>timing := True\<rparr>)) 1
      (if timing (ping_globals\<lparr>timing := True\<rparr>) then Some (gtod lab_sys (ticks (ping_globals\<lparr>timing := True\<rparr>))) else None) p \<and>
    received (rcvd_tbl (snd (send_probe lab_sys (ping_globals\<lparr>timing := True\<rparr>)))) =
      received (rcvd_tbl (ping_globals\<lparr>timing := True\<rparr>)) - {1} \<and>
    ntransmitted (snd (send_probe lab_sys (ping_globals\<lparr>timing := True\<rparr>))) = ntransmitted (ping_globals\<lparr>timing := True\<rparr>)"
  by (rule send_probe_valid) (simp_all add: ping_globals_def)

section \<open>Setting up\<close>

definition maxpacket :: nat where "maxpacket = 0x10000"

text \<open>The at most sixteen bytes \<open>sscanf\<close> reads from a string of hexadecimal digits, two each.\<close>

fun scan_pattern :: "nat \<Rightarrow> u8 list \<Rightarrow> u8 list" where
  "scan_pattern 0 cs = []"
| "scan_pattern (Suc k) [] = []"
| "scan_pattern (Suc k) [c] = [of_nat (the (hex_value c))]"
| "scan_pattern (Suc k) (c # d # cs) = of_nat (16 * the (hex_value c) + the (hex_value d)) # scan_pattern k cs"

text \<open>The loop of \<open>fill\<close> over \<open>kk\<close>, which copies the pattern as often as it fits behind the header.\<close>

function fill_from :: "nat \<Rightarrow> u8 list \<Rightarrow> (nat \<Rightarrow> u8) \<Rightarrow> nat \<Rightarrow> u8" where
  "fill_from kk pat mem =
     (if pat \<noteq> [] \<and> kk + 8 + length pat \<le> maxpacket then fill_from (kk + length pat) pat (store (8 + kk) pat mem)
      else mem)"
  by auto
termination
proof (relation "measure (\<lambda>(kk, pat, mem). maxpacket - kk)", goal_cases)
  case (2 kk pat mem)
  then have "0 < length pat" "kk < maxpacket" by simp_all
  then have "maxpacket - (kk + length pat) < maxpacket - kk" by linarith
  then show ?case by simp
qed simp

declare fill_from.simps [simp del]

definition fill :: "u8 list \<Rightarrow> ping \<Rightarrow> (unit, ping) flow" where
  "fill patp s =
     (if \<exists>c\<in>set patp. hex_value c = None then Exit 2 s
      else Next (s\<lparr>outpack := fill_from 0 (scan_pattern 16 patp) (outpack s)\<rparr>))"

text \<open>What \<open>fill\<close> leaves: the pattern repeated over the data, whole copies only; the header is kept.\<close>

lemma fill_from_value:
  assumes "pat \<noteq> []" "length pat dvd kk" "8 \<le> i"
    "mem i = pat ! ((i - 8) mod length pat) \<or> 8 + kk \<le> i"
    "(i - 8) div length pat * length pat + 8 + length pat \<le> maxpacket"
  shows "fill_from kk pat mem i = pat ! ((i - 8) mod length pat)"
  using assms
proof (induction kk pat mem rule: fill_from.induct)
  case (1 kk pat mem)
  let ?n = "length pat" and ?j = "i - 8"
  have n: "0 < ?n" using 1(2) by simp
  show ?case
  proof (cases "kk + 8 + ?n \<le> maxpacket")
    case True
    have "store (8 + kk) pat mem i = pat ! (?j mod ?n) \<or> 8 + (kk + ?n) \<le> i"
    proof (cases "8 + kk \<le> i \<and> i < 8 + kk + ?n")
      case True
      note inside = this
      then have "?j = kk + (?j - kk)" "?j - kk < ?n" using 1(4) by auto
      then have "?j mod ?n = ?j - kk" using 1(3) by (metis dvd_imp_mod_0 mod_add_left_eq mod_less add_0)
      then show ?thesis using inside by (simp add: store_def)
    next
      case False
      then show ?thesis using 1(5) by (auto simp: store_def)
    qed
    then show ?thesis
      using 1(1) [OF _ 1(2) _ 1(4) _ 1(6)] 1(2,3) True by (subst fill_from.simps) simp
  next
    case False
    have "\<not> 8 + kk \<le> i"
    proof
      assume "8 + kk \<le> i"
      then have "kk div ?n * ?n \<le> ?j div ?n * ?n" by (intro mult_le_mono1 div_le_mono) simp
      then show False using 1(3,6) False by simp
    qed
    then show ?thesis using 1(5) False by (subst fill_from.simps) simp
  qed
qed

lemma fill_from_header: "i < 8 \<Longrightarrow> fill_from kk pat mem i = mem i"
proof (induction kk pat mem rule: fill_from.induct)
  case (1 kk pat mem)
  then show ?case by (subst fill_from.simps) (simp add: store_def)
qed

text \<open>
  \<open>setup\<close>: the interval and its checks, \<open>F_FLOOD_POLL\<close> when the receive timeout cannot be set, the
  data of the probes, identifier, start time and width of the terminal. The other socket options,
  the signal handlers and the timer of \<open>deadline\<close> leave the variables as they are; the handlers and
  the timer raise \<open>exiting\<close> and \<open>status_snapshot\<close> later.
\<close>

definition ping_setup :: "sys \<Rightarrow> ping \<Rightarrow> (unit, ping) flow" where
  "ping_setup os s =
     (let s = (if flag s F_FLOOD \<and> \<not> flag s F_INTERVAL then s\<lparr>interval := 0\<rparr> else s)
      in if uid s \<noteq> 0 \<and> interval s < MINUSERINTERVAL then Exit 2 s
         else if preload s = 0 then Trap s
         else if interval s \<ge> INT_MAX sdiv preload s then Exit 2 s
         else (let fails = sockopt_fails os (ticks s);
                   s = s\<lparr>ticks := Suc (ticks s)\<rparr>;
                   s = (if fails then set_flag F_FLOOD_POLL s else s);
                   s = (if flag s F_PINGFILLED then s
                        else write_out 8 (map of_nat [0..<nat (datalen s)]) s);
                   s = s\<lparr>ident := htons (of_int (pid os))\<rparr>;
                   (now, s) = gettimeofday os s;
                   s = s\<lparr>start_time := now\<rparr>
               in Next (if ws_col os > 0 then s\<lparr>screen_width := ws_col os\<rparr> else s)))"

text \<open>The check of \<open>setup\<close> keeps the products of \<open>pinger\<close> within an \<open>int\<close>.\<close>

lemma setup_bucket:
  assumes "ping_setup os s = Next s'" "0 < preload s" "0 \<le> interval s"
  shows "interval s' * preload s' < 2 ^ 31 - 1"
proof -
  define i where "i = (if flag s F_FLOOD \<and> \<not> flag s F_INTERVAL then 0 else interval s)"
  have "i < INT_MAX sdiv preload s" "interval s' = i" "preload s' = preload s" "0 \<le> i"
    using assms by (auto simp: ping_setup_def Let_def i_def gettimeofday_def write_out_def set_flag_def flag_def split: if_splits)
  then have "i < INT_MAX div preload s" "interval s' = i" "preload s' = preload s" "0 \<le> i"
    using assms(2) by (simp_all add: sdiv_nonneg INT_MAX_def)
  then have "i * preload s < INT_MAX"
    using assms(2) mult_strict_right_mono [of i "INT_MAX div preload s" "preload s"]
      div_mult_mod_eq [of INT_MAX "preload s"] pos_mod_sign [of "preload s" INT_MAX] by linarith
  then show ?thesis using \<open>interval s' = i\<close> \<open>preload s' = preload s\<close> by (simp add: INT_MAX_def)
qed

section \<open>The rate of the probes\<close>

text \<open>
  \<open>pinger\<close>, from the point where a probe is due. It ends without a value, both when the probe was
  sent and when \<open>sendmsg\<close> failed.
\<close>

definition pinger_send :: "sys \<Rightarrow> ping \<Rightarrow> (int, ping) flow option" where
  "pinger_send os s =
     (let s = (if flag s F_OUTSTANDING \<and> ntransmitted s > 0 \<and> rcvd_test (of_int (ntransmitted s)) (rcvd_tbl s) = 0 \<and>
                 flag s F_PTIMEOFDAY
               then snd (gettimeofday os s) else s);
          (i, s) = send_probe os s
      in if i = 0 then
           (let s = advance_ntransmitted s
            in if \<not> flag s F_QUIET \<and> flag s F_FLOOD \<and>
                  ((preload s < screen_width s \<and> pipesize s < screen_width s) \<or> in_flight s < screen_width s)
               then map_option Next (write_stdout os 1 s) else Some (Next s))
         else Some (Next s))"

definition pinger :: "sys \<Rightarrow> ping \<Rightarrow> (int, ping) flow option" where
  "pinger os s =
     (if exiting s \<or> npackets s \<noteq> 0 \<and> ntransmitted s \<ge> npackets s \<and> deadline s = 0 then Some (Return 1000 s)
      else if tv_sec (cur_time s) = 0 then
        (let (tv, s) = gettimeofday os s
         in pinger_send os (s\<lparr>cur_time := tv, tokens := to_s32 (interval s * (preload s - 1))\<rparr>))
      else
        (let (tv, s) = gettimeofday os s;
             ntokens = (tv_sec tv - tv_sec (cur_time s)) * 1000 + (tv_usec tv - tv_usec (cur_time s)) sdiv 1000
         in if interval s = 0 \<and> ntokens < MININTERVAL \<and> in_flight s \<ge> preload s
            then Some (Return (to_s32 (MININTERVAL - ntokens)) s)
            else (let ntokens = ntokens + tokens s;
                      cap = to_s32 (interval s * preload s);
                      ntokens = (if ntokens > cap then cap else ntokens)
                  in if ntokens < interval s then Some (Return (to_s32 (interval s - ntokens)) s)
                     else pinger_send os (s\<lparr>cur_time := tv, tokens := ntokens - interval s\<rparr>))))"

text \<open>The token bucket: the fields that decide when a probe is due.\<close>

definition same_bucket :: "ping \<Rightarrow> ping \<Rightarrow> bool" where
  "same_bucket s s' \<longleftrightarrow> tokens s' = tokens s \<and> cur_time s' = cur_time s \<and> interval s' = interval s \<and> preload s' = preload s"

lemma send_probe_frame:
  "same_bucket s (snd (send_probe os s))" "ntransmitted (snd (send_probe os s)) = ntransmitted s"
  by (simp_all add: same_bucket_def send_probe_def Let_def write_out_def gettimeofday_def case_prod_beta)

lemma send_probe_keeps [simp]:
  "options (snd (send_probe os s)) = options s" "nreceived (snd (send_probe os s)) = nreceived s"
  "nrepeats (snd (send_probe os s)) = nrepeats s" "nerrors (snd (send_probe os s)) = nerrors s"
  "nchecksum (snd (send_probe os s)) = nchecksum s" "feedback_calls (snd (send_probe os s)) = feedback_calls s"
  "timing (snd (send_probe os s)) = timing s" "datalen (snd (send_probe os s)) = datalen s"
  "tsum (snd (send_probe os s)) = tsum s" "tsum2 (snd (send_probe os s)) = tsum2 s"
  "ident (snd (send_probe os s)) = ident s" "whereto (snd (send_probe os s)) = whereto s"
  "npackets (snd (send_probe os s)) = npackets s" "deadline (snd (send_probe os s)) = deadline s"
  by (simp_all add: send_probe_def Let_def write_out_def gettimeofday_def case_prod_beta)

lemma advance_keeps [simp]:
  "options (advance_ntransmitted s) = options s" "nreceived (advance_ntransmitted s) = nreceived s"
  "nrepeats (advance_ntransmitted s) = nrepeats s" "nerrors (advance_ntransmitted s) = nerrors s"
  "nchecksum (advance_ntransmitted s) = nchecksum s" "feedback_calls (advance_ntransmitted s) = feedback_calls s"
  "rcvd_tbl (advance_ntransmitted s) = rcvd_tbl s" "probes (advance_ntransmitted s) = probes s"
  "timing (advance_ntransmitted s) = timing s" "datalen (advance_ntransmitted s) = datalen s"
  "ident (advance_ntransmitted s) = ident s" "whereto (advance_ntransmitted s) = whereto s"
  "npackets (advance_ntransmitted s) = npackets s" "deadline (advance_ntransmitted s) = deadline s"
  by (simp_all add: advance_ntransmitted_def Let_def)

lemma write_stdout_frame: "write_stdout os len s = Some s' \<Longrightarrow> \<exists>n. s' = s\<lparr>ticks := n\<rparr>"
  by (auto simp: write_stdout_def)

lemma advance_frame:
  "same_bucket s (advance_ntransmitted s)" "ntransmitted (advance_ntransmitted s) = ntransmitted s + 1"
  by (simp_all add: same_bucket_def advance_ntransmitted_def Let_def)

lemma pinger_send_effect:
  assumes "pinger_send os s = Some r"
  shows "same_bucket s (flow_state r) \<and> ntransmitted (flow_state r) \<in> {ntransmitted s, ntransmitted s + 1}"
proof -
  define s1 where "s1 = (if flag s F_OUTSTANDING \<and> ntransmitted s > 0 \<and> rcvd_test (of_int (ntransmitted s)) (rcvd_tbl s) = 0 \<and>
    flag s F_PTIMEOFDAY then snd (gettimeofday os s) else s)"
  define s2 where "s2 = snd (send_probe os s1)"
  define s3 where "s3 = advance_ntransmitted s2"
  have 1: "same_bucket s s1" "ntransmitted s1 = ntransmitted s"
    by (simp_all add: s1_def same_bucket_def gettimeofday_def)
  have 2: "same_bucket s s2" "ntransmitted s2 = ntransmitted s"
    using 1 send_probe_frame [where s = s1 and os = os] by (simp_all add: s2_def same_bucket_def)
  have 3: "same_bucket s s3" "ntransmitted s3 = ntransmitted s + 1"
    using 2 advance_frame [of s2] by (simp_all add: s3_def same_bucket_def)
  have "flow_state r = s2 \<or> flow_state r = s3 \<or> (\<exists>n. flow_state r = s3\<lparr>ticks := n\<rparr>)"
    using assms unfolding pinger_send_def s1_def [symmetric]
    by (auto simp: Let_def case_prod_beta write_stdout_def simp flip: s2_def s3_def split: if_splits)
  then show ?thesis using 2 3 by (auto simp: same_bucket_def)
qed

text \<open>A run of the program as far as the rate is concerned: calls of \<open>pinger\<close>, and anything else that
  leaves the bucket and the number of probes as they are.\<close>

inductive paced :: "sys \<Rightarrow> ping \<Rightarrow> ping \<Rightarrow> bool" for os s0 where
  begins: "paced os s0 s0"
| calls: "paced os s0 s \<Longrightarrow> pinger os s = Some r \<Longrightarrow> paced os s0 (flow_state r)"
| other: "paced os s0 s \<Longrightarrow> same_bucket s s' \<Longrightarrow> ntransmitted s' = ntransmitted s \<Longrightarrow> paced os s0 s'"

definition bucket_ok :: "ping \<Rightarrow> bool" where
  "bucket_ok s \<longleftrightarrow> 0 < interval s \<and> 0 < preload s \<and> interval s * preload s < 2 ^ 31 \<and> tv_sec (cur_time s) \<noteq> 0 \<and>
     0 \<le> tokens s \<and> tokens s \<le> interval s * (preload s - 1)"

text \<open>The time the bucket was filled last, in microseconds, less the time its tokens stand for.\<close>

lemma sdiv_thousand: "(a sdiv 1000) * 1000 \<le> a + 999" for a :: int
proof (cases "0 \<le> a")
  case True
  then show ?thesis using div_mult_mod_eq [of a 1000] by (simp add: sdiv_nonneg)
next
  case False
  then have "a sdiv 1000 = - ((- a) div 1000)" by (simp add: signed_divide_int_def)
  then show ?thesis using div_mult_mod_eq [of "- a" 1000] pos_mod_bound [of 1000 "- a"] by linarith
qed

definition spends :: "ping \<Rightarrow> ping \<Rightarrow> bool" where
  "spends s s' \<longleftrightarrow> bucket_ok s' \<and> interval s' = interval s \<and> preload s' = preload s \<and>
     (1000 * interval s - 999) * (ntransmitted s' - ntransmitted s) + 1000 * tokens s' \<le>
       1000 * tokens s + (TIMEVAL_TO_MICROSEC (cur_time s') - TIMEVAL_TO_MICROSEC (cur_time s))"

lemma spends_idle: "bucket_ok s \<Longrightarrow> same_bucket s s' \<Longrightarrow> ntransmitted s' = ntransmitted s \<Longrightarrow> spends s s'"
  by (simp add: spends_def same_bucket_def bucket_ok_def)

lemma spends_probe:
  assumes "bucket_ok s" "tv_sec tv \<noteq> 0" "interval s \<le> nt" "nt \<le> interval s * preload s"
    "nt \<le> (tv_sec tv - tv_sec (cur_time s)) * 1000 + (tv_usec tv - tv_usec (cur_time s)) sdiv 1000 + tokens s"
    "same_bucket (s\<lparr>ticks := k, cur_time := tv, tokens := nt - interval s\<rparr>) s'"
    "ntransmitted s' \<in> {ntransmitted s, ntransmitted s + 1}"
  shows "spends s s'"
proof -
  have b: "tokens s' = nt - interval s" "cur_time s' = tv" "interval s' = interval s" "preload s' = preload s"
    using assms(6) by (simp_all add: same_bucket_def)
  have ok: "bucket_ok s'" using assms(1-4) b by (simp add: bucket_ok_def algebra_simps)
  have "1000 * nt \<le> 1000 * tokens s + (TIMEVAL_TO_MICROSEC tv - TIMEVAL_TO_MICROSEC (cur_time s)) + 999"
    using assms(5) sdiv_thousand [of "tv_usec tv - tv_usec (cur_time s)"] by (simp add: TIMEVAL_TO_MICROSEC_def)
  moreover have "0 < interval s" using assms(1) by (simp add: bucket_ok_def)
  ultimately show ?thesis using assms(7) b ok by (auto simp: spends_def)
qed

lemma pinger_spends:
  assumes "pinger os s = Some r" "bucket_ok s" "\<forall>n. tv_sec (gtod os n) \<noteq> 0"
  shows "spends s (flow_state r)"
proof -
  define tv where "tv = gtod os (ticks s)"
  define d where "d = (tv_sec tv - tv_sec (cur_time s)) * 1000 + (tv_usec tv - tv_usec (cur_time s)) sdiv 1000"
  define nt where "nt = (if d + tokens s > interval s * preload s then interval s * preload s else d + tokens s)"
  define s1 where "s1 = s\<lparr>ticks := Suc (ticks s), cur_time := tv, tokens := nt - interval s\<rparr>"
  have cap: "to_s32 (interval s * preload s) = interval s * preload s"
    using assms(2) by (intro to_s32_id) (auto simp: bucket_ok_def intro: order_trans [of _ 0])
  have "pinger os s =
    (if exiting s \<or> npackets s \<noteq> 0 \<and> ntransmitted s \<ge> npackets s \<and> deadline s = 0 then Some (Return 1000 s)
     else if nt < interval s then Some (Return (to_s32 (interval s - nt)) (s\<lparr>ticks := Suc (ticks s)\<rparr>))
     else pinger_send os s1)"
    (is "_ = (if ?stop then _ else _)")
    using assms(2) by (simp add: pinger_def gettimeofday_def bucket_ok_def cap tv_def nt_def d_def s1_def)
  then have eq: "Some r = (if ?stop then Some (Return 1000 s)
     else if nt < interval s then Some (Return (to_s32 (interval s - nt)) (s\<lparr>ticks := Suc (ticks s)\<rparr>))
     else pinger_send os s1)" by (simp only: assms(1))
  have "(\<exists>v k. r = Return v (s\<lparr>ticks := k\<rparr>)) \<or> r = Return 1000 s \<or> interval s \<le> nt \<and> pinger_send os s1 = Some r"
  proof (cases ?stop)
    case True
    then show ?thesis using eq by (simp only: if_True option.inject) blast
  next
    case False
    then show ?thesis using eq by (cases "nt < interval s") (simp only: if_False if_True option.inject not_less, blast)+
  qed
  then consider "same_bucket s (flow_state r)" "ntransmitted (flow_state r) = ntransmitted s"
    | "interval s \<le> nt" "pinger_send os s1 = Some r"
    by (auto simp: same_bucket_def)
  then show ?thesis
  proof cases
    case 1
    then show ?thesis using assms(2) by (intro spends_idle)
  next
    case 2
    have "same_bucket s1 (flow_state r)" "ntransmitted (flow_state r) \<in> {ntransmitted s, ntransmitted s + 1}"
      using pinger_send_effect [OF 2(2)] by (simp_all add: s1_def)
    then show ?thesis using assms(2,3) 2(1)
      by (intro spends_probe [where nt = nt]) (auto simp: s1_def tv_def nt_def d_def)
  qed
qed

lemma spends_trans: "spends s t \<Longrightarrow> spends t u \<Longrightarrow> spends s u"
  by (auto simp: spends_def algebra_simps)

text \<open>The rate of the probes: whatever else happens between the calls of \<open>pinger\<close>, as long as interval
  and preload stay as they are, a run sends at most as many probes as the time elapsed and the
  tokens at its start pay for, each at the price of the interval less at most 999 microseconds,
  which come from the clock difference being cut to milliseconds; and the bucket never holds more
  than \<open>preload - 1\<close> intervals.\<close>

theorem pinger_rate:
  assumes "paced os s0 s" "bucket_ok s0" "\<forall>n. tv_sec (gtod os n) \<noteq> 0"
  shows "(1000 * interval s0 - 999) * (ntransmitted s - ntransmitted s0) + 1000 * tokens s \<le>
      1000 * tokens s0 + (TIMEVAL_TO_MICROSEC (cur_time s) - TIMEVAL_TO_MICROSEC (cur_time s0)) \<and>
    0 \<le> tokens s \<and> tokens s \<le> interval s0 * (preload s0 - 1)"
proof -
  from assms have "spends s0 s"
  proof (induction rule: paced.induct)
    case begins
    then show ?case by (intro spends_idle) (simp_all add: same_bucket_def)
  next
    case (calls s r)
    then show ?case using pinger_spends spends_trans by (metis spends_def)
  next
    case (other s s')
    then show ?case using spends_idle spends_trans by (metis spends_def)
  qed
  then show ?thesis unfolding spends_def bucket_ok_def by auto
qed

definition running_ping :: ping where
  "running_ping = ping_globals\<lparr>timing := True, preload := 1, cur_time := \<lparr>tv_sec = 99, tv_usec = 0\<rparr>\<rparr>"

theorem pinger_rate_witness:
  "(1000 * interval running_ping - 999) * (ntransmitted (flow_state (the (pinger lab_sys running_ping))) - ntransmitted running_ping) +
      1000 * tokens (flow_state (the (pinger lab_sys running_ping))) \<le>
      1000 * tokens running_ping + (TIMEVAL_TO_MICROSEC (cur_time (flow_state (the (pinger lab_sys running_ping)))) -
        TIMEVAL_TO_MICROSEC (cur_time running_ping)) \<and>
    0 \<le> tokens (flow_state (the (pinger lab_sys running_ping))) \<and>
    tokens (flow_state (the (pinger lab_sys running_ping))) \<le> interval running_ping * (preload running_ping - 1)"
proof (rule pinger_rate)
  have "pinger lab_sys running_ping \<noteq> None"
    by (simp add: pinger_def pinger_send_def running_ping_def ping_globals_def Let_def case_prod_beta
        gettimeofday_def flag_def lab_sys_def)
  then show "paced lab_sys running_ping (flow_state (the (pinger lab_sys running_ping)))"
    by (auto intro: paced.intros)
  show "bucket_ok running_ping" by (simp add: bucket_ok_def running_ping_def ping_globals_def)
qed (simp add: lab_sys_def)

end
