(* ===== verification/Bpf.thy ===== *)
theory Bpf
  imports Prelude
begin

text \<open>
  The packet filter machine of network/libpcap/bpf/net/bpf_filter.c as it is compiled outside a kernel,
  whose programs the ping library hands to its socket: \<open>bpf_filter\<close>, one instruction per step, and the
  check \<open>bpf_validate\<close>; what the check guarantees and what it does not. Instructions are the numbers
  they are in the program; registers have 32 bits, \<open>int\<close> 32 and \<open>size_t\<close> 64.
\<close>

record bpf_insn =
  code :: u16
  jt :: u8
  jf :: u8
  k :: u32

definition BPF_CLASS :: "u16 \<Rightarrow> u16" where "BPF_CLASS c = c AND 0x07"
definition BPF_MODE :: "u16 \<Rightarrow> u16" where "BPF_MODE c = c AND 0xe0"
definition BPF_OP :: "u16 \<Rightarrow> u16" where "BPF_OP c = c AND 0xf0"
definition BPF_SRC :: "u16 \<Rightarrow> u16" where "BPF_SRC c = c AND 0x08"
definition BPF_MEMWORDS :: u32 where "BPF_MEMWORDS = 16"

definition BPF_STMT :: "u16 \<Rightarrow> u32 \<Rightarrow> bpf_insn" where
  "BPF_STMT c n = \<lparr>code = c, jt = 0, jf = 0, k = n\<rparr>"

definition BPF_JUMP :: "u16 \<Rightarrow> u32 \<Rightarrow> u8 \<Rightarrow> u8 \<Rightarrow> bpf_insn" where
  "BPF_JUMP c n t f = \<lparr>code = c, jt = t, jf = f, k = n\<rparr>"

lemmas bpf_fields = BPF_CLASS_def BPF_MODE_def BPF_OP_def BPF_SRC_def BPF_MEMWORDS_def

section \<open>The machine\<close>

record bpf =
  acc :: u32
  idx :: u32
  mem :: "nat \<Rightarrow> u32"
  pc :: int

text \<open>
  One step goes on, stops with the value of the filter, calls \<open>abort\<close>, or does what C does not
  define: it reads outside the packet (\<open>Outside\<close>), or jumps out of the program, uses a word of
  memory there is not or divides by zero (\<open>Wild\<close>).
\<close>

datatype bpf_outcome = Goes bpf | Stops u32 | Aborts | Outside | Wild

definition big_endian :: "u8 list \<Rightarrow> u32" where
  "big_endian bs = fold (\<lambda>b w. push_bit 8 w OR ucast b) bs 0"

text \<open>
  The load of \<open>n\<close> bytes at an offset, \<open>int k\<close>. For two and four bytes \<open>k + sizeof\<close> is a \<open>size_t\<close>, so a
  negative \<open>k\<close> counts from \<open>2 ^ 64\<close>, and the sum may wrap; for one byte \<open>k\<close> is compared as
  unsigned.
\<close>

datatype fetched = Short | Beyond | Fetched u32

definition too_short :: "nat \<Rightarrow> u32 \<Rightarrow> nat \<Rightarrow> bool" where
  "too_short n off buflen \<longleftrightarrow>
     (if n = 1 then uint off \<ge> int buflen else (sint off + int n) mod 2 ^ 64 > int buflen)"

definition fetch :: "u8 list \<Rightarrow> nat \<Rightarrow> u32 \<Rightarrow> fetched" where
  "fetch p n off =
     (if too_short n off (length p) then Short
      else if sint off < 0 \<or> sint off + int n > int (length p) then Beyond
      else Fetched (big_endian (take n (drop (nat (sint off)) p))))"

fun after_fetch :: "fetched \<Rightarrow> (u32 \<Rightarrow> bpf) \<Rightarrow> bpf_outcome" where
  "after_fetch Short f = Stops 0"
| "after_fetch Beyond f = Outside"
| "after_fetch (Fetched v) f = Goes (f v)"

definition exec_ld :: "u8 list \<Rightarrow> u32 \<Rightarrow> bpf_insn \<Rightarrow> bpf \<Rightarrow> bpf_outcome" where
  "exec_ld p wirelen i s =
     (let load = (\<lambda>n off. after_fetch (fetch p n off) (\<lambda>v. s\<lparr>acc := v\<rparr>))
      in if code i = 0x20 then load 4 (k i)
         else if code i = 0x28 then load 2 (k i)
         else if code i = 0x30 then load 1 (k i)
         else if code i = 0x80 then Goes (s\<lparr>acc := wirelen\<rparr>)
         else if code i = 0x40 then load 4 (idx s + k i)
         else if code i = 0x48 then load 2 (idx s + k i)
         else if code i = 0x50 then load 1 (idx s + k i)
         else if code i = 0x00 then Goes (s\<lparr>acc := k i\<rparr>)
         else if code i = 0x60 then (if k i < BPF_MEMWORDS then Goes (s\<lparr>acc := mem s (unat (k i))\<rparr>) else Wild)
         else Aborts)"

definition exec_ldx :: "u8 list \<Rightarrow> u32 \<Rightarrow> bpf_insn \<Rightarrow> bpf \<Rightarrow> bpf_outcome" where
  "exec_ldx p wirelen i s =
     (if code i = 0x81 then Goes (s\<lparr>idx := wirelen\<rparr>)
      else if code i = 0xb1 then after_fetch (fetch p 1 (k i)) (\<lambda>v. s\<lparr>idx := push_bit 2 (v AND 0xf)\<rparr>)
      else if code i = 0x01 then Goes (s\<lparr>idx := k i\<rparr>)
      else if code i = 0x61 then (if k i < BPF_MEMWORDS then Goes (s\<lparr>idx := mem s (unat (k i))\<rparr>) else Wild)
      else Aborts)"

definition exec_st :: "bpf_insn \<Rightarrow> bpf \<Rightarrow> bpf_outcome" where
  "exec_st i s =
     (let store = (\<lambda>v. if k i < BPF_MEMWORDS then Goes (s\<lparr>mem := (mem s)(unat (k i) := v)\<rparr>) else Wild)
      in if code i = 0x02 then store (acc s) else if code i = 0x03 then store (idx s) else Aborts)"

text \<open>A jump relative to the next instruction; \<open>JA\<close> takes its offset as signed.\<close>

definition exec_jmp :: "bpf_insn \<Rightarrow> bpf \<Rightarrow> bpf_outcome" where
  "exec_jmp i s =
     (let jump = (\<lambda>c. Goes (s\<lparr>pc := pc s + (if c then uint (jt i) else uint (jf i))\<rparr>))
      in if code i = 0x05 then Goes (s\<lparr>pc := pc s + sint (k i)\<rparr>)
         else if code i = 0x25 then jump (acc s > k i)
         else if code i = 0x35 then jump (acc s \<ge> k i)
         else if code i = 0x15 then jump (acc s = k i)
         else if code i = 0x45 then jump (acc s AND k i \<noteq> 0)
         else if code i = 0x2d then jump (acc s > idx s)
         else if code i = 0x3d then jump (acc s \<ge> idx s)
         else if code i = 0x1d then jump (acc s = idx s)
         else if code i = 0x4d then jump (acc s AND idx s \<noteq> 0)
         else Aborts)"

text \<open>Shifting by 32 and more is not defined in C; \<open>u\<close> is what the machine makes of it.\<close>

definition exec_alu :: "(u32 \<Rightarrow> u32 \<Rightarrow> u32) \<Rightarrow> bpf_insn \<Rightarrow> bpf \<Rightarrow> bpf_outcome" where
  "exec_alu u i s =
     (let A = acc s; X = idx s; put = (\<lambda>v. Goes (s\<lparr>acc := v\<rparr>));
          left = (\<lambda>n. if n < 32 then push_bit (unat n) A else u A n);
          right = (\<lambda>n. if n < 32 then drop_bit (unat n) A else u A n)
      in if code i = 0x0c then put (A + X)
         else if code i = 0x1c then put (A - X)
         else if code i = 0x2c then put (A * X)
         else if code i = 0x3c then (if X = 0 then Stops 0 else put (A div X))
         else if code i = 0x5c then put (A AND X)
         else if code i = 0x4c then put (A OR X)
         else if code i = 0x6c then put (left X)
         else if code i = 0x7c then put (right X)
         else if code i = 0x04 then put (A + k i)
         else if code i = 0x14 then put (A - k i)
         else if code i = 0x24 then put (A * k i)
         else if code i = 0x34 then (if k i = 0 then Wild else put (A div k i))
         else if code i = 0x54 then put (A AND k i)
         else if code i = 0x44 then put (A OR k i)
         else if code i = 0x64 then put (left (k i))
         else if code i = 0x74 then put (right (k i))
         else if code i = 0x84 then put (- A)
         else Aborts)"

definition exec_misc :: "bpf_insn \<Rightarrow> bpf \<Rightarrow> bpf_outcome" where
  "exec_misc i s =
     (if code i = 0x07 then Goes (s\<lparr>idx := acc s\<rparr>)
      else if code i = 0x87 then Goes (s\<lparr>acc := idx s\<rparr>)
      else Aborts)"

definition exec_ret :: "bpf_insn \<Rightarrow> bpf \<Rightarrow> bpf_outcome" where
  "exec_ret i s = (if code i = 0x06 then Stops (k i) else if code i = 0x16 then Stops (acc s) else Aborts)"

text \<open>The body of the loop, at the instruction \<open>pc\<close> has been advanced to.\<close>

definition bpf_exec :: "(u32 \<Rightarrow> u32 \<Rightarrow> u32) \<Rightarrow> u8 list \<Rightarrow> u32 \<Rightarrow> bpf_insn \<Rightarrow> bpf \<Rightarrow> bpf_outcome" where
  "bpf_exec u p wirelen i s =
     (let c = BPF_CLASS (code i)
      in if c = 0 then exec_ld p wirelen i s
         else if c = 1 then exec_ldx p wirelen i s
         else if c = 2 \<or> c = 3 then exec_st i s
         else if c = 4 then exec_alu u i s
         else if c = 5 then exec_jmp i s
         else if c = 6 then exec_ret i s
         else exec_misc i s)"

fun bpf_loop :: "nat \<Rightarrow> (u32 \<Rightarrow> u32 \<Rightarrow> u32) \<Rightarrow> bpf_insn list \<Rightarrow> u8 list \<Rightarrow> u32 \<Rightarrow> bpf \<Rightarrow> bpf_outcome" where
  "bpf_loop 0 u prog p wirelen s = Goes s"
| "bpf_loop (Suc fuel) u prog p wirelen s =
     (if pc s < 0 \<or> pc s \<ge> int (length prog) then Wild
      else case bpf_exec u p wirelen (prog ! nat (pc s)) (s\<lparr>pc := pc s + 1\<rparr>) of
        Goes s' \<Rightarrow> bpf_loop fuel u prog p wirelen s'
      | r \<Rightarrow> r)"

text \<open>A null program accepts; \<open>junk\<close> is what the uninitialised memory holds. \<open>Goes\<close> is running out of
  fuel.\<close>

definition bpf_filter ::
  "nat \<Rightarrow> (u32 \<Rightarrow> u32 \<Rightarrow> u32) \<Rightarrow> (nat \<Rightarrow> u32) \<Rightarrow> bpf_insn list option \<Rightarrow> u8 list \<Rightarrow> u32 \<Rightarrow> bpf_outcome" where
  "bpf_filter fuel u junk prog p wirelen =
     (case prog of
        None \<Rightarrow> Stops (- 1)
      | Some f \<Rightarrow> bpf_loop fuel u f p wirelen \<lparr>acc = 0, idx = 0, mem = junk, pc = 0\<rparr>)"

section \<open>The check\<close>

definition valid_insn :: "int \<Rightarrow> int \<Rightarrow> bpf_insn \<Rightarrow> bool" where
  "valid_insn len i p =
     (let c = BPF_CLASS (code p); from = to_u32 (i + 1)
      in if c = 0 \<or> c = 1 then
           (let m = BPF_MODE (code p)
            in if m = 0x00 then True
               else if m = 0x20 \<or> m = 0x40 \<or> m = 0xa0 then True
               else if m = 0x60 then k p < BPF_MEMWORDS
               else m = 0x80)
         else if c = 2 \<or> c = 3 then k p < BPF_MEMWORDS
         else if c = 4 then
           (let op = BPF_OP (code p)
            in if op \<in> {0x00, 0x10, 0x20, 0x40, 0x50, 0x60, 0x70, 0x80} then True
               else if op = 0x30 then \<not> (BPF_SRC (code p) = 0 \<and> k p = 0)
               else False)
         else if c = 5 then
           (let op = BPF_OP (code p)
            in if op = 0x00 then to_u32 (from + uint (k p)) < len
               else if op \<in> {0x10, 0x20, 0x30, 0x40} then
                 to_u32 (from + uint (jt p)) < len \<and> to_u32 (from + uint (jf p)) < len
               else False)
         else True)"

fun valid_from :: "int \<Rightarrow> int \<Rightarrow> bpf_insn list \<Rightarrow> bool" where
  "valid_from len i [] = True"
| "valid_from len i (p # ps) = (valid_insn len i p \<and> valid_from len (i + 1) ps)"

definition bpf_validate :: "bpf_insn list \<Rightarrow> bool" where
  "bpf_validate f \<longleftrightarrow>
     f \<noteq> [] \<and> valid_from (int (length f)) 0 f \<and> BPF_CLASS (code (last f)) = 6"

section \<open>What the check guarantees\<close>

lemma valid_from_nth: "valid_from len i f \<Longrightarrow> n < length f \<Longrightarrow> valid_insn len (i + int n) (f ! n)"
proof (induction f arbitrary: i n)
  case (Cons p ps)
  then show ?case using Cons.IH [of "i + 1" "n - 1"] by (cases n) (auto simp: ac_simps)
qed simp

lemma after_fetch_cases:
  "after_fetch r f = Goes s' \<Longrightarrow> \<exists>v. s' = f v" "after_fetch r f = Outside \<longleftrightarrow> r = Beyond" "after_fetch r f \<noteq> Wild"
  by (cases r; auto)+

text \<open>Only loads of two and four bytes at the offsets \<open>-4\<close> to \<open>-1\<close> leave the packet.\<close>

lemma fetch_beyond:
  assumes "fetch p n off = Beyond" "length p < 2 ^ 31" "n \<in> {1, 2, 4}"
  shows "n \<noteq> 1 \<and> - int n \<le> sint off \<and> sint off < 0"
proof -
  have off: "- (2 ^ 31) \<le> sint off" "sint off < 2 ^ 31"
    using sint_greater_eq [of off] sint_less [of off] by simp_all
  have "\<not> too_short n off (length p)" and b: "sint off < 0 \<or> sint off + int n > int (length p)"
    using assms(1) by (auto simp: fetch_def split: if_splits)
  show ?thesis
  proof (cases "n = 1")
    case True
    then have u: "uint off < int (length p)" using \<open>\<not> too_short n off (length p)\<close> by (simp add: too_short_def)
    then have "uint off < 2 ^ 31" using assms(2) by simp
    moreover have "- (2 ^ 31) \<le> uint off" by (rule order_trans [of _ 0]) simp_all
    ultimately have "signed_take_bit 31 (uint off) = uint off" by (intro signed_take_bit_int_eq_self)
    then have "sint off = uint off" by (simp add: sint_uint)
    then show ?thesis using b u True by simp
  next
    case False
    then have s: "(sint off + int n) mod 2 ^ 64 \<le> int (length p)"
      using \<open>\<not> too_short n off (length p)\<close> by (simp add: too_short_def)
    show ?thesis
    proof (cases "0 \<le> sint off + int n")
      case True
      then have "(sint off + int n) mod 2 ^ 64 = sint off + int n" using off assms(3) by (intro mod_pos_pos_trivial) auto
      then show ?thesis using s b True False by linarith
    next
      case neg: False
      have "(sint off + int n) mod 2 ^ 64 = sint off + int n + 2 ^ 64"
        using neg off mod_add_self2 [of "sint off + int n" "2 ^ 64"] mod_pos_pos_trivial [of "sint off + int n + 2 ^ 64" "2 ^ 64"] by simp
      then show ?thesis using s off assms(2) by simp
    qed
  qed
qed

lemma exec_ld_cases:
  "exec_ld p w i s = Goes s' \<Longrightarrow> pc s' = pc s"
  "exec_ld p w i s = Wild \<Longrightarrow> code i = 0x60 \<and> \<not> k i < BPF_MEMWORDS"
  "exec_ld p w i s = Outside \<Longrightarrow> length p < 2 ^ 31 \<Longrightarrow>
    code i \<in> {0x20, 0x28} \<and> - 4 \<le> sint (k i) \<and> sint (k i) < 0 \<or> code i \<in> {0x40, 0x48}"
proof -
  show "exec_ld p w i s = Goes s' \<Longrightarrow> pc s' = pc s"
    by (auto simp: exec_ld_def Let_def split: if_splits dest!: after_fetch_cases(1))
  show "exec_ld p w i s = Wild \<Longrightarrow> code i = 0x60 \<and> \<not> k i < BPF_MEMWORDS"
    by (auto simp: exec_ld_def Let_def after_fetch_cases(3) split: if_splits)
  show "exec_ld p w i s = Outside \<Longrightarrow> length p < 2 ^ 31 \<Longrightarrow>
    code i \<in> {0x20, 0x28} \<and> - 4 \<le> sint (k i) \<and> sint (k i) < 0 \<or> code i \<in> {0x40, 0x48}"
    by (auto simp: exec_ld_def Let_def after_fetch_cases(2) split: if_splits dest!: fetch_beyond)
qed

lemma exec_ldx_cases:
  "exec_ldx p w i s = Goes s' \<Longrightarrow> pc s' = pc s"
  "exec_ldx p w i s = Wild \<Longrightarrow> code i = 0x61 \<and> \<not> k i < BPF_MEMWORDS"
  "length p < 2 ^ 31 \<Longrightarrow> exec_ldx p w i s \<noteq> Outside"
proof -
  show "exec_ldx p w i s = Goes s' \<Longrightarrow> pc s' = pc s"
    by (auto simp: exec_ldx_def split: if_splits dest!: after_fetch_cases(1))
  show "exec_ldx p w i s = Wild \<Longrightarrow> code i = 0x61 \<and> \<not> k i < BPF_MEMWORDS"
    by (auto simp: exec_ldx_def after_fetch_cases(3) split: if_splits)
  show "length p < 2 ^ 31 \<Longrightarrow> exec_ldx p w i s \<noteq> Outside"
    by (auto simp: exec_ldx_def after_fetch_cases(2) split: if_splits dest!: fetch_beyond)
qed

lemma exec_st_cases:
  "exec_st i s = Goes s' \<Longrightarrow> pc s' = pc s" "exec_st i s = Wild \<Longrightarrow> \<not> k i < BPF_MEMWORDS" "exec_st i s \<noteq> Outside"
  by (auto simp: exec_st_def Let_def split: if_splits)

lemma exec_alu_cases:
  "exec_alu u i s = Goes s' \<Longrightarrow> pc s' = pc s" "exec_alu u i s = Wild \<Longrightarrow> code i = 0x34 \<and> k i = 0"
  "exec_alu u i s \<noteq> Outside"
  unfolding exec_alu_def Let_def by (auto split: if_split_asm)

lemma exec_misc_cases:
  "exec_misc i s = Goes s' \<Longrightarrow> pc s' = pc s" "exec_misc i s \<noteq> Wild" "exec_misc i s \<noteq> Outside"
  by (auto simp: exec_misc_def split: if_splits)

lemma exec_ret_cases: "exec_ret i s \<noteq> Goes s'" "exec_ret i s \<noteq> Wild" "exec_ret i s \<noteq> Outside"
  by (auto simp: exec_ret_def split: if_splits)

lemma exec_jmp_cases:
  "exec_jmp i s = Goes s' \<Longrightarrow> code i = 0x05 \<and> pc s' = pc s + sint (k i) \<or>
     BPF_OP (code i) \<in> {0x10, 0x20, 0x30, 0x40} \<and> pc s' \<in> {pc s + uint (jt i), pc s + uint (jf i)}"
  "exec_jmp i s \<noteq> Wild" "exec_jmp i s \<noteq> Outside"
  unfolding exec_jmp_def Let_def by (auto simp: BPF_OP_def split: if_split_asm)

text \<open>Offsets that the check has compared with the length as unsigned numbers lead into the program.\<close>

lemma jump_in_range:
  assumes "to_u32 (to_u32 (n + 1) + uint w) < len" "0 \<le> n" "n < len" "len < 2 ^ 31"
  shows "0 \<le> n + 1 + sint (w :: u32) \<and> n + 1 + sint w < len"
proof -
  have w: "- (2 ^ 31) \<le> sint w" "sint w < 2 ^ 31"
    using sint_greater_eq [of w] sint_less [of w] by simp_all
  have "to_u32 (n + 1) = n + 1" using assms(2-4) by simp
  moreover have "(n + 1 + uint w) mod 2 ^ 32 = (n + 1 + sint w) mod 2 ^ 32"
  proof -
    have "uint w = sint w mod 2 ^ 32" using uint_sint [of w] by (simp add: take_bit_eq_mod)
    then have "uint w mod 2 ^ 32 = sint w mod 2 ^ 32" by simp
    then show ?thesis by (metis mod_add_right_eq)
  qed
  ultimately have v: "(n + 1 + sint w) mod 2 ^ 32 < len" using assms(1) by (simp add: to_u32_def)
  show ?thesis
  proof (cases "0 \<le> n + 1 + sint w")
    case True
    then have "(n + 1 + sint w) mod 2 ^ 32 = n + 1 + sint w" using w assms(3,4) by (intro mod_pos_pos_trivial) simp_all
    then show ?thesis using v True by simp
  next
    case False
    have "(n + 1 + sint w) mod 2 ^ 32 = n + 1 + sint w + 2 ^ 32"
      using False w assms(2) mod_add_self2 [of "n + 1 + sint w" "2 ^ 32"] mod_pos_pos_trivial [of "n + 1 + sint w + 2 ^ 32" "2 ^ 32"]
      by simp
    then show ?thesis using v w assms(2,4) by simp
  qed
qed

lemma short_jump_in_range:
  assumes "to_u32 (to_u32 (n + 1) + uint b) < len" "0 \<le> n" "n < len" "len < 2 ^ 31"
  shows "n + 1 + uint (b :: u8) < len"
proof -
  have "uint b < 256" using unsigned_less [of b, where ?'a = int] by simp
  then show ?thesis using assms by simp
qed

text \<open>One step of a checked program stays in it.\<close>

definition underreads :: "bpf_insn \<Rightarrow> bool" where
  "underreads i \<longleftrightarrow> code i \<in> {0x20, 0x28} \<and> - 4 \<le> sint (k i) \<and> sint (k i) < 0 \<or> code i \<in> {0x40, 0x48}"

lemma checked_step:
  assumes "bpf_validate f" "int (length f) < 2 ^ 31" "length p < 2 ^ 31" "n < length f" "pc s = int n + 1"
  shows "bpf_exec u p w (f ! n) s \<noteq> Wild \<and> (bpf_exec u p w (f ! n) s = Outside \<longrightarrow> underreads (f ! n)) \<and>
    (\<forall>s'. bpf_exec u p w (f ! n) s = Goes s' \<longrightarrow> 0 \<le> pc s' \<and> pc s' < int (length f) \<and>
       (pc s' = int n + 1 \<or> code (f ! n) = 0x05 \<and> pc s' = int n + 1 + sint (k (f ! n)) \<or> int n < pc s'))"
proof -
  let ?i = "f ! n" and ?len = "int (length f)"
  have v: "valid_insn ?len (int n) ?i"
    using assms(1,4) valid_from_nth [of ?len 0 f n] by (simp add: bpf_validate_def)
  have n: "0 \<le> int n" "int n < ?len" using assms(4) by simp_all
  have succ: "0 \<le> int n + 1 \<and> int n + 1 < ?len" if "BPF_CLASS (code ?i) \<noteq> 6"
  proof -
    have "n \<noteq> length f - 1"
      using that assms(1) by (auto simp: bpf_validate_def last_conv_nth)
    then show ?thesis using assms(4) by simp
  qed
  consider "BPF_CLASS (code ?i) = 0" | "BPF_CLASS (code ?i) = 1" | "BPF_CLASS (code ?i) \<in> {2, 3}"
    | "BPF_CLASS (code ?i) = 4" | "BPF_CLASS (code ?i) = 5" | "BPF_CLASS (code ?i) = 6"
    | "BPF_CLASS (code ?i) \<notin> {0, 1, 2, 3, 4, 5, 6}" by blast
  then show ?thesis
  proof cases
    case 1
    have "code ?i \<noteq> 0x60 \<or> k ?i < BPF_MEMWORDS" using v 1 by (auto simp: valid_insn_def BPF_MODE_def Let_def)
    then show ?thesis
      using 1 succ assms(3,5) exec_ld_cases [of p w ?i s] by (auto simp: bpf_exec_def underreads_def)
  next
    case 2
    have "code ?i \<noteq> 0x61 \<or> k ?i < BPF_MEMWORDS" using v 2 by (auto simp: valid_insn_def BPF_MODE_def Let_def)
    then show ?thesis
      using 2 succ assms(3,5) exec_ldx_cases [of p w ?i s] by (auto simp: bpf_exec_def)
  next
    case 3
    then have "k ?i < BPF_MEMWORDS" using v by (auto simp: valid_insn_def Let_def)
    then show ?thesis
      using 3 succ assms(5) exec_st_cases [of ?i s] by (auto simp: bpf_exec_def)
  next
    case 4
    have "code ?i \<noteq> 0x34 \<or> k ?i \<noteq> 0" using v 4 by (auto simp: valid_insn_def BPF_OP_def BPF_SRC_def Let_def)
    then show ?thesis
      using 4 succ assms(5) exec_alu_cases [of u ?i s] by (auto simp: bpf_exec_def)
  next
    case 5
    have ja: "to_u32 (to_u32 (int n + 1) + uint (k ?i)) < ?len" if "code ?i = 0x05"
      using v 5 that by (simp add: valid_insn_def BPF_OP_def Let_def)
    have jc: "to_u32 (to_u32 (int n + 1) + uint (jt ?i)) < ?len" "to_u32 (to_u32 (int n + 1) + uint (jf ?i)) < ?len"
      if "BPF_OP (code ?i) \<in> {0x10, 0x20, 0x30, 0x40}"
      using v 5 that by (auto simp: valid_insn_def Let_def)
    have pos: "0 \<le> uint (jt ?i)" "0 \<le> uint (jf ?i)" by simp_all
    show ?thesis
      using 5 exec_jmp_cases [of ?i s] assms(5) jump_in_range [OF ja n assms(2)]
        short_jump_in_range [OF jc(1) n assms(2)] short_jump_in_range [OF jc(2) n assms(2)] pos
      by (fastforce simp: bpf_exec_def)
  next
    case 6
    then show ?thesis using exec_ret_cases [of ?i s] by (simp add: bpf_exec_def)
  next
    case 7
    then show ?thesis
      using succ assms(5) exec_misc_cases [of ?i s] by (auto simp: bpf_exec_def)
  qed
qed

lemma checked_loop:
  assumes "bpf_validate f" "int (length f) < 2 ^ 31" "length p < 2 ^ 31" "0 \<le> pc s" "pc s < int (length f)"
  shows "bpf_loop fuel u f p w s \<noteq> Wild \<and> (bpf_loop fuel u f p w s = Outside \<longrightarrow> (\<exists>i\<in>set f. underreads i))"
  using assms(4,5)
proof (induction fuel arbitrary: s)
  case (Suc fuel)
  let ?n = "nat (pc s)"
  have n: "?n < length f" using Suc.prems by simp
  note step = checked_step [OF assms(1-3) n, where u = u and w = w and s = "s\<lparr>pc := pc s + 1\<rparr>"]
  have i: "f ! ?n \<in> set f" using n by simp
  show ?case
  proof (cases "bpf_exec u p w (f ! ?n) (s\<lparr>pc := pc s + 1\<rparr>)")
    case (Goes s')
    then show ?thesis using step Suc.prems Suc.IH [of s'] by simp
  qed (use step Suc.prems i in auto)
qed simp



text \<open>Without backward jumps the instruction number grows with every step.\<close>

lemma checked_loop_ends:
  assumes "bpf_validate f" "int (length f) < 2 ^ 31" "length p < 2 ^ 31" "0 \<le> pc s" "pc s < int (length f)"
    "\<forall>i\<in>set f. code i = 0x05 \<longrightarrow> k i < 2 ^ 31" "int (length f) \<le> pc s + int m"
  shows "(\<forall>s'. bpf_loop m u f p w s \<noteq> Goes s') \<and> (\<forall>fuel\<ge>m. bpf_loop fuel u f p w s = bpf_loop m u f p w s)"
  using assms(4,5,7)
proof (induction m arbitrary: s)
  case (Suc m)
  let ?n = "nat (pc s)" and ?r = "bpf_exec u p w (f ! nat (pc s)) (s\<lparr>pc := pc s + 1\<rparr>)"
  have n: "?n < length f" using Suc.prems by simp
  note step = checked_step [OF assms(1-3) n, where u = u and w = w and s = "s\<lparr>pc := pc s + 1\<rparr>"]
  have forward: "0 \<le> sint (k (f ! ?n))" if "code (f ! ?n) = 0x05"
  proof -
    have "k (f ! ?n) < 2 ^ 31" using assms(6) n that by simp
    then have "uint (k (f ! ?n)) < 2 ^ 31" by (simp add: word_less_def)
    moreover have "- (2 ^ 31) \<le> uint (k (f ! ?n))" by (rule order_trans [of _ 0]) simp_all
    ultimately have "signed_take_bit 31 (uint (k (f ! ?n))) = uint (k (f ! ?n))" by (intro signed_take_bit_int_eq_self)
    then show ?thesis by (simp add: sint_uint)
  qed
  have ih: "(\<forall>s''. bpf_loop m u f p w s' \<noteq> Goes s'') \<and> (\<forall>fuel\<ge>m. bpf_loop fuel u f p w s' = bpf_loop m u f p w s')"
    if "?r = Goes s'" for s'
    using step forward Suc.prems that by (intro Suc.IH) auto
  have unfold: "bpf_loop (Suc k) u f p w s = (case ?r of Goes s' \<Rightarrow> bpf_loop k u f p w s' | r \<Rightarrow> r)" for k
    using Suc.prems by simp
  have "(\<forall>s'. bpf_loop (Suc m) u f p w s \<noteq> Goes s') \<and> (\<forall>k\<ge>m. bpf_loop (Suc k) u f p w s = bpf_loop (Suc m) u f p w s)"
  proof (cases ?r)
    case (Goes s')
    show ?thesis unfolding unfold Goes bpf_outcome.case using ih [OF Goes] by blast
  qed (simp_all add: unfold)
  then show ?case using Suc_le_D Suc_le_mono by blast
qed simp

text \<open>C22: A program that passes \<open>bpf_validate\<close> and has no backward jump ends on every packet, after at most
  as many steps as it has instructions, with a value or by \<open>abort\<close>, or by an underread.\<close>

theorem bpf_filter_ends:
  assumes "bpf_validate f" "int (length f) < 2 ^ 31" "length p < 2 ^ 31"
    "\<forall>i\<in>set f. code i = 0x05 \<longrightarrow> k i < 2 ^ 31"
  shows "\<exists>r. (\<forall>fuel\<ge>length f. bpf_filter fuel u junk (Some f) p w = r) \<and>
    (r = Aborts \<or> (\<exists>v. r = Stops v) \<or> r = Outside \<and> (\<exists>i\<in>set f. underreads i))"
proof -
  let ?s = "\<lparr>acc = 0, idx = 0, mem = junk, pc = 0\<rparr>"
  let ?r = "bpf_loop (length f) u f p w ?s"
  have pos: "0 \<le> pc ?s" "pc ?s < int (length f)" using assms(1) by (simp_all add: bpf_validate_def)
  have "(\<forall>s'. ?r \<noteq> Goes s') \<and> (\<forall>fuel\<ge>length f. bpf_loop fuel u f p w ?s = ?r)"
    by (rule checked_loop_ends [OF assms(1-3) pos assms(4)]) simp
  moreover have "?r \<noteq> Wild \<and> (?r = Outside \<longrightarrow> (\<exists>i\<in>set f. underreads i))"
    by (rule checked_loop [OF assms(1-3) pos])
  ultimately show ?thesis
    by (intro exI [of _ ?r]) (cases ?r, auto simp: bpf_filter_def)
qed

theorem bpf_filter_ends_witness:
  "\<exists>r. (\<forall>fuel\<ge>length [BPF_STMT 0x20 12, BPF_STMT 0x16 0].
      bpf_filter fuel (\<lambda>a n. 0) (\<lambda>n. 0) (Some [BPF_STMT 0x20 12, BPF_STMT 0x16 0]) [1, 2, 3] 3 = r) \<and>
    (r = Aborts \<or> (\<exists>v. r = Stops v) \<or>
      r = Outside \<and> (\<exists>i\<in>set [BPF_STMT 0x20 12, BPF_STMT 0x16 0]. underreads i))"
  by (rule bpf_filter_ends)
    (simp_all add: bpf_validate_def valid_insn_def bpf_fields BPF_STMT_def)

text \<open>C23: What \<open>bpf_validate\<close> lets through outside a kernel: a load of four bytes at \<open>-4\<close>, whose length
  check wraps and which reads before every packet; an unconditional jump to itself, on which the
  filter never ends; and an instruction that the filter does not know, which ends the process.\<close>

theorem bpf_validate_misses:
  "bpf_validate [BPF_STMT 0x20 (- 4), BPF_STMT 0x16 0] \<and>
   bpf_filter (Suc fuel) u junk (Some [BPF_STMT 0x20 (- 4), BPF_STMT 0x16 0]) p w = Outside \<and>
   bpf_validate [BPF_STMT 0x05 (- 1), BPF_STMT 0x16 0] \<and>
   (\<exists>s. bpf_filter fuel u junk (Some [BPF_STMT 0x05 (- 1), BPF_STMT 0x16 0]) p w = Goes s) \<and>
   bpf_validate [BPF_STMT 0x0e 0] \<and>
   bpf_filter (Suc fuel) u junk (Some [BPF_STMT 0x0e 0]) p w = Aborts"
proof (intro conjI)
  have all_ones: "uint (- 1 :: u32) = 4294967295" by (simp add: unsigned_minus_1_eq_mask mask_eq_exp_minus_1)
  have loop: "\<exists>s'. bpf_loop fuel u [BPF_STMT 0x05 (- 1), BPF_STMT 0x16 0] p w s = Goes s'" if "pc s = 0" for s
    using that
  proof (induction fuel arbitrary: s)
    case (Suc fuel)
    then show ?case by (simp add: bpf_exec_def bpf_fields exec_jmp_def BPF_STMT_def)
  qed simp
  show "\<exists>s. bpf_filter fuel u junk (Some [BPF_STMT 0x05 (- 1), BPF_STMT 0x16 0]) p w = Goes s"
    using loop by (simp add: bpf_filter_def)
  show "bpf_validate [BPF_STMT 0x05 (- 1), BPF_STMT 0x16 0]"
    by (simp add: bpf_validate_def valid_insn_def bpf_fields BPF_STMT_def all_ones to_u32_def)
qed (simp_all add: bpf_validate_def valid_insn_def bpf_fields BPF_STMT_def bpf_filter_def bpf_exec_def
    exec_ld_def exec_ret_def fetch_def too_short_def to_u32_def)

end
