(* ===== verification/Ping_Recv.thy ===== *)
theory Ping_Recv
  imports Ping_Send Bpf Ui
begin

text \<open>
  The receiving side of the ping library, monitor/ping.c: the text of an ICMP error, the treatment of
  a packet by \<open>parse_reply\<close> and of the error queue of the socket by \<open>receive_error_msg\<close>. What is only printed, the IP options among it, is left out.
\<close>

section \<open>The text of an ICMP message\<close>

definition le16 :: "u8 list \<Rightarrow> u16" where
  "le16 bs = ucast (bs ! 0) OR push_bit 8 (ucast (bs ! 1))"

definition le32 :: "u8 list \<Rightarrow> u32" where
  "le32 bs = ucast (bs ! 0) OR push_bit 8 (ucast (bs ! 1)) OR push_bit 16 (ucast (bs ! 2)) OR push_bit 24 (ucast (bs ! 3))"

text \<open>\<open>inet_ntoa\<close> of an address as it lies in memory; \<open>pr_addr\<close>, with the name in front if there is one.\<close>

definition inet_ntoa :: "u32 \<Rightarrow> u8 list" where
  "inet_ntoa a =
     (let byte = (\<lambda>i. decimal (unat (drop_bit (8 * i) a AND 0xff)))
      in byte 0 @ 46 # byte 1 @ 46 # byte 2 @ 46 # byte 3)"

definition pr_addr :: "sys \<Rightarrow> u32 \<Rightarrow> ping \<Rightarrow> u8 list" where
  "pr_addr os a s =
     (if exiting s \<or> flag s F_NUMERIC then inet_ntoa a
      else case host_name os a of
        None \<Rightarrow> inet_ntoa a
      | Some name \<Rightarrow> take 4095 (name @ ascii '' ('' @ inet_ntoa a @ ascii '')''))"

definition line :: "string \<Rightarrow> u8 list" where
  "line t = ascii t @ [10]"

definition unreach_text :: "u8 \<Rightarrow> u32 \<Rightarrow> u8 list" where
  "unreach_text c info =
     (if c = 0 then line ''Destination Net Unreachable''
      else if c = 1 then line ''Destination Host Unreachable''
      else if c = 2 then line ''Destination Protocol Unreachable''
      else if c = 3 then line ''Destination Port Unreachable''
      else if c = 4 then ascii ''Frag needed and DF set (mtu = '' @ decimal (unat info) @ line '')''
      else if c = 5 then line ''Source Route Failed''
      else if c = 6 then line ''Destination Net Unknown''
      else if c = 7 then line ''Destination Host Unknown''
      else if c = 8 then line ''Source Host Isolated''
      else if c = 9 then line ''Destination Net Prohibited''
      else if c = 10 then line ''Destination Host Prohibited''
      else if c = 11 then line ''Destination Net Unreachable for Type of Service''
      else if c = 12 then line ''Destination Host Unreachable for Type of Service''
      else if c = 13 then line ''Packet filtered''
      else if c = 14 then line ''Precedence Violation''
      else if c = 15 then line ''Precedence Cutoff''
      else ascii ''Dest Unreachable, Bad Code: '' @ decimal (unat c) @ [10])"

text \<open>The text of a redirect by its code is overwritten by the one of the next hop, since a header is
  always given.\<close>

definition icmp_text :: "(u32 \<Rightarrow> u8 list) \<Rightarrow> u8 \<Rightarrow> u8 \<Rightarrow> u32 \<Rightarrow> u32 \<Rightarrow> u8 list" where
  "icmp_text addr type c info gateway =
     (if type = 0 then line ''Echo Reply''
      else if type = 3 then unreach_text c info
      else if type = 4 then line ''Source Quench''
      else if type = 5 then ascii ''(New nexthop: '' @ addr gateway @ line '')''
      else if type = 8 then line ''Echo Request''
      else if type = 11 then
        (if c = 0 then line ''Time to live exceeded''
         else if c = 1 then line ''Frag reassembly time exceeded''
         else ascii ''Time exceeded, Bad Code: '' @ decimal (unat c) @ [10])
      else if type = 12 then ascii ''Parameter problem: pointer = '' @ decimal (unat gateway mod 256) @ [10]
      else if type = 13 then line ''Timestamp''
      else if type = 14 then line ''Timestamp Reply''
      else if type = 15 then line ''Information Request''
      else if type = 16 then line ''Information Reply''
      else ascii ''Bad ICMP type: '' @ decimal (unat type) @ [10])"

text \<open>
  \<open>pr_icmph\<close>: the text goes into an array of 64 bytes, and to \<open>Feedback\<close> with the field at the place
  of the sequence number in the header it is given. \<open>icp\<close> are the bytes from that header on.
\<close>

definition pr_icmph :: "sys \<Rightarrow> u8 \<Rightarrow> u8 \<Rightarrow> u32 \<Rightarrow> u8 list \<Rightarrow> ping \<Rightarrow> (int, ping) flow" where
  "pr_icmph os type c info icp s =
     (let output = icmp_text (\<lambda>a. pr_addr os a s) type c info (le32 (drop 4 icp))
      in if length output \<ge> 64 then Trap s
         else Next (Feedback_call (uint (be16 (drop 6 icp))) 0 (Some output) s))"

section \<open>A packet\<close>

definition print_timestamp :: "sys \<Rightarrow> ping \<Rightarrow> ping" where
  "print_timestamp os s = (if flag s F_PTIMEOFDAY then snd (gettimeofday os s) else s)"

definition ntohl :: "u32 \<Rightarrow> u32" where
  "ntohl w = push_bit 24 (w AND 0xFF) OR push_bit 8 (w AND 0xFF00) OR
     drop_bit 8 (w AND 0xFF0000) OR drop_bit 24 w"

text \<open>A call whose result may be that it does not return.\<close>

fun call_opt :: "('a, 's) flow option \<Rightarrow> ('a option \<Rightarrow> 's \<Rightarrow> ('b, 's) flow option) \<Rightarrow> ('b, 's) flow option" where
  "call_opt None f = None"
| "call_opt (Some (Next s)) f = f None s"
| "call_opt (Some (Return v s)) f = f (Some v) s"
| "call_opt (Some (Exit c s)) f = Some (Exit c s)"
| "call_opt (Some (Trap s)) f = Some (Trap s)"

text \<open>An ICMP error about one of our probes: \<open>icmp\<close> are its \<open>n\<close> bytes, \<open>icmp1\<close> those of the probe inside.\<close>

definition reply_error :: "sys \<Rightarrow> u8 list \<Rightarrow> u8 list \<Rightarrow> ping \<Rightarrow> (int, ping) flow option" where
  "reply_error os icmp icmp1 s =
     (let type = icmp ! 0;
          error_pkt = (type \<noteq> 5 \<and> type \<noteq> 4);
          s = (if error_pkt then acknowledge (be16 (drop 6 icmp1)) s else s)
      in if error_pkt \<and> working_recverr s then Some (Return 0 s)
         else (let first = (error_pkt \<and> recverr_once s = 0);
                   s = (if error_pkt then s\<lparr>recverr_once := recverr_once s + 1\<rparr> else s)
               in if first then Some (Return 0 s)
                  else (let s = s\<lparr>nerrors := nerrors s + (if error_pkt then 1 else 0)\<rparr>;
                            done_value = (if error_pkt then 0 else 1)
                        in if flag s F_QUIET then Some (Return done_value s)
                           else if flag s F_FLOOD then
                             (if error_pkt then map_option (Return done_value) (write_stdout os 2 s)
                              else Some (Return done_value s))
                           else call_opt (Some (pr_icmph os type (icmp ! 1) (ntohl (le32 (drop 4 icmp))) icmp (print_timestamp os s)))
                                  (\<lambda>_ s. Some (Return done_value s)))))"

text \<open>A packet of another type; \<open>csfailed\<close> is whether its checksum fails.\<close>

definition reply_other :: "sys \<Rightarrow> u8 list \<Rightarrow> bool \<Rightarrow> ping \<Rightarrow> (int, ping) flow option" where
  "reply_other os icmp csfailed s =
     (if flag s F_FLOOD \<and> \<not> flag s (F_VERBOSE OR F_QUIET) then
        map_option (Return 0) (write_stdout os (if csfailed then 3 else 2) s)
      else if \<not> flag s F_VERBOSE \<or> uid s \<noteq> 0 then Some (Return 0 s)
      else (let s = print_timestamp os s
            in if csfailed then Some (Return 0 s)
               else call_opt (Some (pr_icmph os (icmp ! 0) (icmp ! 1) (ntohl (le32 (drop 4 icmp))) icmp s))
                      (\<lambda>_ s. Some (Return 0 s))))"

text \<open>
  \<open>parse_reply\<close>: \<open>buf\<close> is the receive buffer, \<open>cc\<close> the number of bytes received. The value is
  whether the packet is not for this run. The checksum is computed but not passed on for an
  echo reply.
\<close>

definition parse_reply :: "sys \<Rightarrow> u8 list \<Rightarrow> nat \<Rightarrow> timeval \<Rightarrow> ping \<Rightarrow> (int, ping) flow option" where
  "parse_reply os buf cc tv s =
     (let ihl = unat (buf ! 0 AND 0xf); hlen = ihl * 4
      in if cc < hlen + 8 \<or> ihl < 5 then Some (Return 1 s)
         else (let icmp = drop hlen buf; n = cc - hlen; type = icmp ! 0;
                   csfailed = (in_cksum (take n icmp) 0 \<noteq> 0)
               in if type = 0 then
                    (if le16 (drop 4 icmp) \<noteq> ident s then Some (Return 1 s)
                     else map_option (\<lambda>(v, s). Return 0 s)
                            (gather_statistics os icmp 8 n (be16 (drop 6 icmp)) False tv s))
                  else if type = 8 then Some (Return 1 s)
                  else if type \<in> {4, 5, 3, 11, 12} then
                    (let iph = drop 8 icmp; ihl1 = unat (iph ! 0 AND 0xf); icmp1 = drop (ihl1 * 4) iph
                     in if n < 8 + 20 + 8 \<or> n < 8 + ihl1 * 4 + 8 then Some (Return 1 s)
                        else if icmp1 ! 0 \<noteq> 8 \<or> le32 (drop 16 iph) \<noteq> whereto s \<or> le16 (drop 4 icmp1) \<noteq> ident s
                        then Some (Return 1 s)
                        else reply_error os icmp icmp1 s)
                  else reply_other os icmp csfailed s))"

section \<open>The error queue of the socket\<close>

record ext_err =
  ee_errno :: int
  ee_origin :: int
  ee_type :: u8
  ee_code :: u8
  ee_info :: u32

text \<open>What \<open>recvmsg\<close> leaves: its result, the control messages with level and type, the ICMP header sent
  and where to.\<close>

record errmsg =
  em_res :: int
  em_cmsgs :: "(int \<times> int \<times> ext_err) list"
  em_icmph :: "u8 list"
  em_target :: u32

definition SOL_IP :: int where "SOL_IP = 0"
definition IP_RECVERR :: int where "IP_RECVERR = 11"

fun find_err :: "(int \<times> int \<times> ext_err) list \<Rightarrow> ext_err option \<Rightarrow> ext_err option" where
  "find_err [] e = e"
| "find_err ((level, type, x) # cs) e = find_err cs (if level = SOL_IP \<and> type = IP_RECVERR then Some x else e)"

text \<open>
  \<open>receive_error_msg\<close> returns its value and \<open>errno\<close>. An extended error must be among the control
  messages, or it calls \<open>abort\<close>.
\<close>

definition receive_error_msg :: "sys \<Rightarrow> errmsg \<Rightarrow> int \<Rightarrow> ping \<Rightarrow> (int \<times> int, ping) flow option" where
  "receive_error_msg os m saved_errno s =
     (if em_res m < 0 then Some (Return (0, saved_errno) s)
      else case find_err (em_cmsgs m) None of
        None \<Rightarrow> Some (Trap s)
      | Some e \<Rightarrow>
          if ee_origin e = 1 then
            (if flag s F_QUIET then Some (Return (-1, saved_errno) s)
             else if flag s F_FLOOD then map_option (\<lambda>s. Return (-1, saved_errno) (s\<lparr>nerrors := nerrors s + 1\<rparr>)) (write_stdout os 1 s)
             else Some (Return (-1, saved_errno) (s\<lparr>nerrors := nerrors s + 1\<rparr>)))
          else if ee_origin e = 2 then
            (if em_res m < 8 \<or> em_target m \<noteq> whereto s \<or> em_icmph m ! 0 \<noteq> 8 \<or> le16 (drop 4 (em_icmph m)) \<noteq> ident s
             then Some (Return (0, 0) s)
             else (let s = acknowledge (be16 (drop 6 (em_icmph m))) s;
                       s = s\<lparr>working_recverr := True, nerrors := nerrors s + 1\<rparr>
                   in if flag s F_QUIET then Some (Return (1, saved_errno) s)
                      else if flag s F_FLOOD then map_option (Return (1, saved_errno)) (write_stdout os 2 s)
                      else call_opt (Some (pr_icmph os (ee_type e) (ee_code e) (ee_info e) (em_icmph m) (print_timestamp os s)))
                             (\<lambda>_ s. Some (Return (1, saved_errno) s))))
          else Some (Return (0, saved_errno) s))"

section \<open>The texts fit\<close>

lemma length_ascii [simp]: "length (ascii t) = length t"
  by (simp add: ascii_def)

lemma length_line [simp]: "length (line t) = Suc (length t)"
  by (simp add: line_def)

lemma length_decimal_u8 [simp]: "length (decimal (unat (w :: u8))) \<le> 3"
proof -
  have "unat w < 10 ^ 3" using unsigned_less [of w, where ?'a = nat] by simp
  then show ?thesis by (rule length_decimal) simp
qed

lemma length_decimal_u32 [simp]: "length (decimal (unat (w :: u32))) \<le> 10"
proof -
  have "unat w < 10 ^ 10" using unsigned_less [of w, where ?'a = nat] by simp
  then show ?thesis by (rule length_decimal) simp
qed

lemma length_unreach_text: "length (unreach_text c info) < 64"
  using length_decimal_u8 [of c] length_decimal_u32 [of info]
  by (simp add: unreach_text_def del: length_decimal_u8 length_decimal_u32)

lemma length_icmp_text:
  "type \<noteq> 5 \<Longrightarrow> length (icmp_text addr type c info gw) < 64"
  "length (icmp_text addr 5 c info gw) = length (addr gw) + 16"
proof -
  have "length (decimal (unat gw mod 256)) \<le> 3" by (rule length_decimal) simp_all
  then show "type \<noteq> 5 \<Longrightarrow> length (icmp_text addr type c info gw) < 64"
    using length_unreach_text [of c info] length_decimal_u8 [of c] length_decimal_u8 [of type]
    by (simp add: icmp_text_def del: length_decimal_u8)
  show "length (icmp_text addr 5 c info gw) = length (addr gw) + 16"
    by (simp add: icmp_text_def)
qed

lemma length_inet_ntoa: "length (inet_ntoa a) \<le> 15"
proof -
  have "length (decimal (unat (w AND 0xff))) \<le> 3" for w :: u32
  proof (rule length_decimal)
    have "w AND 0xff \<le> 0xff" by (rule word_and_le1)
    then show "unat (w AND 0xff) < 10 ^ 3" by (simp add: word_le_nat_alt)
  qed simp
  note this [of a] this [of "drop_bit 8 a"] this [of "drop_bit 16 a"] this [of "drop_bit 24 a"]
  then show ?thesis by (simp add: inet_ntoa_def Let_def)
qed

lemma flag_set_flag: "F \<noteq> 0 \<Longrightarrow> flag (set_flag F s) F"
  by (simp add: flag_def set_flag_def bit.conj_disj_distrib2)

lemma pr_icmph_cases:
  "type = 5 \<and> length (pr_addr os (le32 (drop 4 icp)) s) \<ge> 48 \<Longrightarrow> pr_icmph os type c info icp s = Trap s"
  "\<not> (type = 5 \<and> length (pr_addr os (le32 (drop 4 icp)) s) \<ge> 48) \<Longrightarrow>
    \<exists>t. length t < 64 \<and> pr_icmph os type c info icp s = Next (Feedback_call (uint (be16 (drop 6 icp))) 0 (Some t) s)"
proof -
  let ?t = "icmp_text (\<lambda>a. pr_addr os a s) type c info (le32 (drop 4 icp))"
  show "type = 5 \<and> length (pr_addr os (le32 (drop 4 icp)) s) \<ge> 48 \<Longrightarrow> pr_icmph os type c info icp s = Trap s"
    by (auto simp: pr_icmph_def Let_def length_icmp_text(2))
  assume "\<not> (type = 5 \<and> length (pr_addr os (le32 (drop 4 icp)) s) \<ge> 48)"
  then have "length ?t < 64" using length_icmp_text(1) [of type] by (cases "type = 5") (auto simp: length_icmp_text(2))
  then show "\<exists>t. length t < 64 \<and> pr_icmph os type c info icp s = Next (Feedback_call (uint (be16 (drop 6 icp))) 0 (Some t) s)"
    by (intro exI [of _ ?t]) (simp add: pr_icmph_def Let_def)
qed

text \<open>C26: The text of an ICMP error fits the 64 bytes of \<open>pr_icmph\<close> and of a feedback for every type,
  code and header, with one exception: a redirect whose next hop has a name that makes its
  address text 48 bytes or longer overflows the array. With numeric addresses every text fits.\<close>

theorem pr_icmph_fits:
  "(if type = 5 \<and> length (pr_addr os (le32 (drop 4 icp)) s) \<ge> 48 then pr_icmph os type c info icp s = Trap s
    else \<exists>t. length t < 64 \<and>
      pr_icmph os type c info icp s = Next (s\<lparr>feedback_calls := feedback_calls s @ [(uint (be16 (drop 6 icp)), 0, Some t)]\<rparr>)) \<and>
   length (pr_addr os a (set_flag F_NUMERIC s)) \<le> 15"
  using pr_icmph_cases [of type os icp s c info] length_inet_ntoa [of a] flag_set_flag [of F_NUMERIC s]
  by (simp add: Feedback_call_def pr_addr_def F_NUMERIC_def)

section \<open>A probe and its reply\<close>

lemma byte_of_word:
  "bit (ucast w :: u8) j \<longleftrightarrow> j < 8 \<and> bit (w :: u16) j"
  by (auto simp: bit_simps)

lemma le16_bytes [simp]: "le16 (u16_bytes w @ bs) = w"
proof (rule bit_word_eqI)
  fix j assume "j < LENGTH(16)"
  then show "bit (le16 (u16_bytes w @ bs)) j = bit w j"
    by (cases "j < 8") (auto simp: le16_def u16_bytes_def bit_simps)
qed

lemma be16_bytes [simp]: "be16 (u16_bytes (htons w) @ bs) = w"
proof (rule bit_word_eqI)
  fix j assume "j < LENGTH(16)"
  then show "bit (be16 (u16_bytes (htons w) @ bs)) j = bit w j"
    by (cases "j < 8") (auto simp: be16_def u16_bytes_def htons_def bit_simps)
qed

definition clock_time :: "timeval \<Rightarrow> bool" where
  "clock_time tv \<longleftrightarrow> 0 \<le> tv_sec tv \<and> tv_sec tv < 2 ^ 40 \<and> 0 \<le> tv_usec tv \<and> tv_usec tv < 1000000"

lemma trip_difference:
  assumes "clock_time tv" "clock_time tv'"
  shows "trip tv tv' = TIMEVAL_TO_MICROSEC tv - TIMEVAL_TO_MICROSEC tv'"
proof -
  let ?us = "tv_usec tv - tv_usec tv'" and ?s = "tv_sec tv - tv_sec tv'"
  have b: "- (2 ^ 40) \<le> ?s" "?s \<le> 2 ^ 40" "- 1000000 < ?us" "?us < 1000000"
    using assms by (simp_all add: clock_time_def)
  have id: "to_s64 x = x" if "- (2 ^ 62) \<le> x" "x \<le> 2 ^ 62" for x using that by (simp add: to_s64_id)
  have ids: "to_s64 ?us = ?us" "to_s64 ?s = ?s" "to_s64 (?s - 1) = ?s - 1" using b by (simp_all add: id)
  have "tvsub tv tv' = (if ?us < 0 then \<lparr>tv_sec = ?s - 1, tv_usec = ?us + 1000000\<rparr> else \<lparr>tv_sec = ?s, tv_usec = ?us\<rparr>)"
  proof -
    have "to_s64 (tv_sec tv - 1 - tv_sec tv') = ?s - 1" using b by (simp add: id)
    then show ?thesis unfolding tvsub_def Let_def by (simp add: ids)
  qed
  then have "trip tv tv' = to_s64 (if ?us < 0 then (?s - 1) * 1000000 + (?us + 1000000) else ?s * 1000000 + ?us)"
    by (cases "?us < 0") (simp_all only: trip_def Let_def if_True if_False timeval.simps)
  also have "\<dots> = to_s64 (?s * 1000000 + ?us)" by (rule arg_cong [where f = to_s64]) simp
  also have "\<dots> = ?s * 1000000 + ?us" using b by (intro id; simp; linarith)
  finally show ?thesis by (simp add: TIMEVAL_TO_MICROSEC_def algebra_simps)
qed

lemma gather_counted:
  assumes "count_reply os icmp 8 cc seq False tv s = (t, s2)" "\<not> flag s2 F_QUIET" "\<not> flag s2 F_FLOOD"
    "\<not> flag s2 F_PTIMEOFDAY" "datalen s2 + 8 \<le> int cc" "be16 (drop 6 icmp) = n"
  shows "gather_statistics os icmp 8 cc seq False tv s = Some (0, Feedback_call (uint n) t None s2)"
  using assms by (simp add: gather_statistics_def)

text \<open>The echo of a packet: type 0, any checksum, the rest as it was, behind an IP header of 20 bytes.\<close>

definition echo_of :: "u8 list \<Rightarrow> u8 list \<Rightarrow> u8 \<Rightarrow> u8 \<Rightarrow> u8 list \<Rightarrow> u8 list" where
  "echo_of hdr p c1 c2 rest = hdr @ [0, 0, c1, c2] @ drop 4 p @ rest"

lemma parse_echo:
  assumes "valid_probe m (ident s) n (Some T) p" "24 \<le> m" "length hdr = 20" "hdr ! 0 AND 0xf = 5" "long_timeval T"
  shows "parse_reply os (echo_of hdr p c1 c2 rest) (20 + m) tv s =
    map_option (\<lambda>(v, s). Return 0 s)
      (gather_statistics os ([0, 0, c1, c2] @ drop 4 p @ rest) 8 m n False tv s) \<and>
    timeval_at (drop 8 ([0, 0, c1, c2] @ drop 4 p @ rest)) = T \<and> be16 (drop 6 ([0, 0, c1, c2] @ drop 4 p @ rest)) = n"
proof -
  obtain c where h: "take 8 p = probe_header c (ident s) n" and t: "take 16 (drop 8 p) = timeval_bytes T" and l: "length p = m"
    using assms(1) by (auto simp: valid_probe_def)
  have p: "p = probe_header c (ident s) n @ timeval_bytes T @ drop 24 p"
    using append_take_drop_id [of 8 p] append_take_drop_id [of 16 "drop 8 p"] h t by simp
  let ?icmp = "[0, 0, c1, c2] @ drop 4 p @ rest"
  have d4: "drop 4 p = u16_bytes (ident s) @ u16_bytes (htons n) @ timeval_bytes T @ drop 24 p"
    by (subst p) (simp add: probe_header_def u16_bytes_def)
  have f: "le16 (drop 4 ?icmp) = ident s" "be16 (drop 6 ?icmp) = n" "timeval_at (drop 8 ?icmp) = T"
    using assms(5) by (simp_all add: d4 timeval_round_trip)
  have buf: "echo_of hdr p c1 c2 rest ! 0 = hdr ! 0" "drop 20 (echo_of hdr p c1 c2 rest) = ?icmp"
    using assms(3) by (simp_all add: echo_of_def nth_append)
  have ihl: "unat (hdr ! 0 AND 15) = 5" using assms(4) by simp
  have zero: "?icmp ! 0 = 0" by simp
  show ?thesis
    using f assms(2) unfolding parse_reply_def Let_def buf ihl by (simp add: buf zero del: append.simps)
qed

text \<open>C17: A probe and its reply: the echo of a probe, with whatever checksum, that arrives complete behind
  an IP header of 20 bytes is counted as received, once, is marked, and is reported to \<open>Feedback\<close>
  with its sequence number and the difference of the two readings of the clock, in microseconds.\<close>

theorem probe_reply_feedback:
  assumes "timing s" "16 \<le> datalen s" "datalen s \<le> 65528" "\<not> flag s F_QUIET" "\<not> flag s F_FLOOD"
    "\<not> flag s F_PTIMEOFDAY" "length hdr = 20" "hdr ! 0 AND 0xf = 5"
    "T = gtod os (ticks s)" "clock_time T" "clock_time tv" "TIMEVAL_TO_MICROSEC T \<le> TIMEVAL_TO_MICROSEC tv"
    "n = of_int (ntransmitted s + 1)" "s1 = advance_ntransmitted (snd (send_probe os s))"
  shows "\<exists>p s2. probes s1 = probes s @ [p] \<and>
    parse_reply os (echo_of hdr p c1 c2 rest) (20 + length p) tv s1 = Some (Return 0 s2) \<and>
    feedback_calls s2 = feedback_calls s @ [(uint n, TIMEVAL_TO_MICROSEC tv - TIMEVAL_TO_MICROSEC T, None)] \<and>
    nreceived s2 = nreceived s + 1 \<and> nrepeats s2 = nrepeats s \<and> n \<in> received (rcvd_tbl s2)"
proof -
  obtain p where p: "probes (snd (send_probe os s)) = probes s @ [p]"
      "valid_probe (nat (datalen s + 8)) (ident s) n (Some T) p"
      "received (rcvd_tbl (snd (send_probe os s))) = received (rcvd_tbl s) - {n}"
    using send_probe_effect [of s n os] assms(1-3,9,13) by auto
  define m where "m = nat (datalen s + 8)"
  have m: "24 \<le> m" "int m = datalen s + 8" "length p = m" using assms(2) p(2) by (auto simp: m_def valid_probe_def)
  have s1: "probes s1 = probes s @ [p]" "ident s1 = ident s" "timing s1" "n \<notin> received (rcvd_tbl s1)"
    "feedback_calls s1 = feedback_calls s" "nreceived s1 = nreceived s" "nrepeats s1 = nrepeats s"
    "datalen s1 = datalen s" "options s1 = options s"
    using p assms(1,14) by simp_all
  let ?icmp = "[0, 0, c1, c2] @ drop 4 p @ rest"
  have "long_timeval T" using assms(10) by (simp add: clock_time_def long_timeval_def)
  from parse_echo [OF _ m(1) assms(7,8) this, of s1 n p os c1 c2 rest tv] p(2)
  have parse: "parse_reply os (echo_of hdr p c1 c2 rest) (20 + m) tv s1 =
      map_option (\<lambda>(v, s). Return 0 s) (gather_statistics os ?icmp 8 m n False tv s1)"
    and at: "timeval_at (drop 8 ?icmp) = T" "be16 (drop 6 ?icmp) = n"
    using s1(2) by (simp_all add: m_def)
  have t: "trip tv T = TIMEVAL_TO_MICROSEC tv - TIMEVAL_TO_MICROSEC T" by (rule trip_difference [OF assms(11,10)])
  obtain p' a i where c: "count_reply os ?icmp 8 m n False tv s1 =
    (trip tv T, s1\<lparr>pipesize := p', acked := a, interval := i, nreceived := nreceived s1 + 1, nrepeats := nrepeats s1,
       rcvd_tbl := rcvd_set n (rcvd_tbl s1),
       tsum := to_s64 (tsum s1 + trip tv T), tsum2 := to_s64 (tsum2 s1 + to_s64 (trip tv T * trip tv T)),
       tmin := min (tmin s1) (trip tv T), tmax := max (tmax s1) (trip tv T),
       rtt := if rtt s1 = 0 then to_s32 (trip tv T * 8) else to_s32 (rtt s1 + (trip tv T - rtt s1 sdiv 8)),
       confirm := confirm_flag s1\<rparr>)" (is "_ = (_, ?s2)")
    using count_reply_eq [of s1 m "trip tv T" tv ?icmp os n] s1(3,4) m(1) t assms(12) at(1) by auto
  have "gather_statistics os ?icmp 8 m n False tv s1 = Some (0, Feedback_call (uint n) (trip tv T) None ?s2)"
  proof (rule gather_counted [OF c _ _ _ _ at(2)])
    show "\<not> flag ?s2 F_QUIET" "\<not> flag ?s2 F_FLOOD" "\<not> flag ?s2 F_PTIMEOFDAY" "datalen ?s2 + 8 \<le> int m"
      using assms(4-6) m(2) s1(8,9) by (simp_all add: flag_def)
  qed
  then show ?thesis
    using parse s1 m(3) t by (intro exI [of _ p] exI [of _ "Feedback_call (uint n) (trip tv T) None ?s2"]) (simp add: Feedback_call_def)
qed

definition timed_ping :: ping where "timed_ping = ping_globals\<lparr>timing := True\<rparr>"

theorem probe_reply_feedback_witness:
  "\<exists>p s2. probes (advance_ntransmitted (snd (send_probe lab_sys timed_ping))) = [p] \<and>
    parse_reply lab_sys (echo_of (0x45 # replicate 19 0) p 1 2 []) (20 + length p) \<lparr>tv_sec = 100, tv_usec = 1500\<rparr>
      (advance_ntransmitted (snd (send_probe lab_sys timed_ping))) = Some (Return 0 s2) \<and>
    feedback_calls s2 = [(1, 1500, None)] \<and> nreceived s2 = 1 \<and> nrepeats s2 = 0 \<and> 1 \<in> received (rcvd_tbl s2)"
  using probe_reply_feedback [of timed_ping "0x45 # replicate 19 0" "\<lparr>tv_sec = 100, tv_usec = 0\<rparr>" lab_sys
      "\<lparr>tv_sec = 100, tv_usec = 1500\<rparr>" 1 "advance_ntransmitted (snd (send_probe lab_sys timed_ping))" 1 2 "[]"]
  by (simp add: timed_ping_def ping_globals_def flag_def lab_sys_def clock_time_def TIMEVAL_TO_MICROSEC_def)

end
