(* ===== verification/Ping_Filter.thy ===== *)
theory Ping_Filter
  imports Ping_Recv
begin

text \<open>
  The socket filter of the ping library, \<open>install_filter\<close> of monitor/ping.c: the program it hands to
  the kernel, run on the machine of network/libpcap/bpf/net/bpf_filter.c, accepts what is meant for
  this process.
\<close>

section \<open>The program\<close>

text \<open>The instructions with the identifier patched in: the third one compares with \<open>htons(ident)\<close>.\<close>

definition filter_insns :: "u16 \<Rightarrow> bpf_insn list" where
  "filter_insns own =
    [BPF_STMT 0xb1 0, BPF_STMT 0x48 4, BPF_JUMP 0x15 (ucast (htons own)) 0 1, BPF_STMT 0x06 (- 1),
     BPF_STMT 0x50 0, BPF_JUMP 0x15 0 1 0, BPF_STMT 0x06 0xFFFFFFF, BPF_STMT 0x06 0]"

text \<open>
  \<open>install_filter\<close> works once; the filter given to the socket, if the system takes it, is the second
  value. A refusal is only reported.
\<close>

definition install_filter :: "sys \<Rightarrow> ping \<Rightarrow> bpf_insn list option \<times> ping" where
  "install_filter os s =
     (if filter_once s then (None, s)
      else (if sockopt_fails os (ticks s) then None else Some (filter_insns (ident s)),
            s\<lparr>filter_once := True, ticks := Suc (ticks s)\<rparr>))"

lemma filter_validates: "bpf_validate (filter_insns own)"
  by (simp add: filter_insns_def bpf_validate_def valid_insn_def Let_def bpf_fields BPF_STMT_def BPF_JUMP_def to_u32_def)

section \<open>What it accepts\<close>

text \<open>The size of the IP header as the filter computes it from the first byte.\<close>

definition header_size :: "u8 list \<Rightarrow> nat" where
  "header_size p = 4 * unat (p ! 0 AND 0xf)"

lemma header_size_bound: "header_size p \<le> 60"
proof -
  have "p ! 0 AND 0xf \<le> 0xf" by (rule word_and_le1)
  then show ?thesis by (simp add: header_size_def word_le_nat_alt)
qed

lemma ihl_word: "push_bit 2 ((ucast (w :: u8) :: u32) AND 0xf) = of_nat (4 * unat (w AND 0xf))"
proof -
  have "(ucast w :: u32) AND 0xf = ucast (w AND 0xf)" by (simp add: unsigned_and_eq)
  also have "\<dots> = of_nat (unat (w AND 0xf))" by (rule of_nat_unat [symmetric])
  finally have "push_bit 2 ((ucast w :: u32) AND 0xf) = push_bit 2 (of_nat (unat (w AND 0xf)))" by (rule arg_cong)
  also have "\<dots> = of_nat (unat (w AND 0xf)) * 4" by (simp only: push_bit_eq_mult power2_eq_square) simp
  finally show ?thesis by (simp only: of_nat_mult of_nat_numeral mult.commute)
qed

text \<open>A load at a small offset behind the header.\<close>

lemma small_offset:
  "n + d < 2 ^ 31 \<Longrightarrow> sint (of_nat n + of_nat d :: u32) = int (n + d)"
  "n + d < 2 ^ 31 \<Longrightarrow> uint (of_nat n + of_nat d :: u32) = int (n + d)"
proof -
  show u: "uint (of_nat n + of_nat d :: u32) = int (n + d)" if "n + d < 2 ^ 31"
    using that by (simp add: uint_word_arith_bintrs uint_nat unsigned_of_nat take_bit_nat_eq_self flip: of_nat_add)
  show "sint (of_nat n + of_nat d :: u32) = int (n + d)" if "n + d < 2 ^ 31"
  proof -
    have "signed_take_bit 31 (int (n + d)) = int (n + d)" using that by (intro signed_take_bit_int_eq_self) simp_all
    then show ?thesis using u [OF that] by (simp add: sint_uint)
  qed
qed

lemma fetch_behind:
  assumes "n + d < 2 ^ 30" "l \<in> {1, 2}"
  shows "fetch p l (of_nat n + of_nat d) =
    (if n + d + l > length p then Short else Fetched (big_endian (take l (drop (n + d) p))))"
  using assms small_offset [of n d]
  by (auto simp: fetch_def too_short_def mod_pos_pos_trivial simp del: of_nat_add)

lemma byte_bit: "bit (w :: u8) n \<Longrightarrow> n < 8"
  using bit_imp_le_length [of w n] by simp

lemma big_endian_loads:
  "1 \<le> length bs \<Longrightarrow> big_endian (take 1 bs) = ucast (bs ! 0)"
  "2 \<le> length bs \<Longrightarrow> big_endian (take 2 bs) = ucast (be16 bs)"
proof -
  show "1 \<le> length bs \<Longrightarrow> big_endian (take 1 bs) = ucast (bs ! 0)"
    by (cases bs) (simp_all add: big_endian_def)
  assume "2 \<le> length bs"
  then obtain a b cs where bs: "bs = a # b # cs" by (cases bs; cases "tl bs") auto
  show "big_endian (take 2 bs) = ucast (be16 bs)"
    by (rule bit_word_eqI) (auto simp: bs big_endian_def be16_def bit_simps dest: byte_bit)
qed

lemma be16_le16: "be16 bs = htons (le16 bs)"
  by (rule bit_word_eqI) (auto simp: be16_def le16_def htons_def bit_simps dest: byte_bit)

lemma same_identifier: "(ucast (be16 bs) :: u32) = ucast (htons own) \<longleftrightarrow> le16 bs = own"
proof -
  have "htons (htons w) = w" for w
    by (rule bit_word_eqI) (auto simp: htons_def bit_simps)
  then have "be16 bs = htons own \<longleftrightarrow> le16 bs = own" by (metis be16_le16)
  moreover have "(ucast v :: u32) = ucast w \<longleftrightarrow> v = w" for v w :: u16
    by (simp add: unsigned_word_eqI word_uint_eq_iff uint_up_ucast is_up)
  ultimately show ?thesis by simp
qed

text \<open>The instructions of the program, one by one.\<close>

lemma filter_execs:
  "bpf_exec u p w (BPF_STMT 0xb1 n) s = after_fetch (fetch p 1 n) (\<lambda>v. s\<lparr>idx := push_bit 2 (v AND 0xf)\<rparr>)"
  "bpf_exec u p w (BPF_STMT 0x48 n) s = after_fetch (fetch p 2 (idx s + n)) (\<lambda>v. s\<lparr>acc := v\<rparr>)"
  "bpf_exec u p w (BPF_STMT 0x50 n) s = after_fetch (fetch p 1 (idx s + n)) (\<lambda>v. s\<lparr>acc := v\<rparr>)"
  "bpf_exec u p w (BPF_JUMP 0x15 n t f) s = Goes (s\<lparr>pc := pc s + (if acc s = n then uint t else uint f)\<rparr>)"
  "bpf_exec u p w (BPF_STMT 0x06 n) s = Stops n"
  by (simp_all add: bpf_exec_def BPF_CLASS_def BPF_STMT_def BPF_JUMP_def exec_ld_def exec_ldx_def exec_jmp_def exec_ret_def Let_def)

lemma filter_nth:
  "filter_insns own ! 0 = BPF_STMT 0xb1 0" "filter_insns own ! 1 = BPF_STMT 0x48 4"
  "filter_insns own ! 2 = BPF_JUMP 0x15 (ucast (htons own)) 0 1" "filter_insns own ! 3 = BPF_STMT 0x06 (- 1)"
  "filter_insns own ! 4 = BPF_STMT 0x50 0" "filter_insns own ! 5 = BPF_JUMP 0x15 0 1 0"
  "filter_insns own ! 6 = BPF_STMT 0x06 0xFFFFFFF" "filter_insns own ! 7 = BPF_STMT 0x06 0"
  "length (filter_insns own) = 8"
  by (simp_all add: filter_insns_def)

lemma filter_loop:
  "0 \<le> pc s \<Longrightarrow> pc s < 8 \<Longrightarrow> bpf_loop (Suc n) u (filter_insns own) p w s =
    (case bpf_exec u p w (filter_insns own ! nat (pc s)) (s\<lparr>pc := pc s + 1\<rparr>) of
       Goes s' \<Rightarrow> bpf_loop n u (filter_insns own) p w s' | r \<Rightarrow> r)"
  by (simp add: filter_nth)

lemma filter_fetches:
  assumes "p \<noteq> []"
  shows "fetch p 1 0 = Fetched (ucast (p ! 0))"
    "push_bit 2 ((ucast (p ! 0) :: u32) AND 0xf) = of_nat (header_size p)"
    "fetch p 2 (of_nat (header_size p) + 4) =
      (if header_size p + 6 > length p then Short else Fetched (ucast (be16 (drop (header_size p + 4) p))))"
    "header_size p < length p \<Longrightarrow> fetch p 1 (of_nat (header_size p) + 0) = Fetched (ucast (p ! header_size p))"
proof -
  have X: "header_size p \<le> 60" by (rule header_size_bound)
  have l: "1 \<le> length p" using assms by (cases p) simp_all
  show "fetch p 1 0 = Fetched (ucast (p ! 0))"
    using fetch_behind [of 0 0 1 p] big_endian_loads(1) [of p] l assms by (simp del: One_nat_def)
  show "push_bit 2 ((ucast (p ! 0) :: u32) AND 0xf) = of_nat (header_size p)"
    unfolding header_size_def by (rule ihl_word)
  have "fetch p 2 (of_nat (header_size p) + of_nat 4) =
      (if header_size p + 4 + 2 > length p then Short else Fetched (big_endian (take 2 (drop (header_size p + 4) p))))"
    by (rule fetch_behind) (use X in simp_all)
  then show "fetch p 2 (of_nat (header_size p) + 4) =
      (if header_size p + 6 > length p then Short else Fetched (ucast (be16 (drop (header_size p + 4) p))))"
    using big_endian_loads(2) [of "drop (header_size p + 4) p"] by (simp add: add.assoc)
  assume "header_size p < length p"
  moreover have "fetch p 1 (of_nat (header_size p) + of_nat 0) =
      (if header_size p + 0 + 1 > length p then Short else Fetched (big_endian (take 1 (drop (header_size p + 0) p))))"
    by (rule fetch_behind) (use X in simp_all)
  ultimately show "fetch p 1 (of_nat (header_size p) + 0) = Fetched (ucast (p ! header_size p))"
    using big_endian_loads(1) [of "drop (header_size p) p"] by (simp del: One_nat_def)
qed

text \<open>The three loads of the program.\<close>

lemma filter_steps:
  assumes "p \<noteq> []"
  shows "bpf_exec u p w (filter_insns own ! 0) s = Goes (s\<lparr>idx := of_nat (header_size p)\<rparr>)"
    "idx s = of_nat (header_size p) \<Longrightarrow> bpf_exec u p w (filter_insns own ! 1) s =
      (if header_size p + 6 > length p then Stops 0 else Goes (s\<lparr>acc := ucast (be16 (drop (header_size p + 4) p))\<rparr>))"
    "idx s = of_nat (header_size p) \<Longrightarrow> header_size p < length p \<Longrightarrow>
      bpf_exec u p w (filter_insns own ! 4) s = Goes (s\<lparr>acc := ucast (p ! header_size p)\<rparr>)"
  by (simp_all only: filter_nth filter_execs filter_fetches [OF assms] after_fetch.simps split: if_split) simp_all

text \<open>C15: The socket filter: a packet too short for an ICMP header with an identifier is rejected; one that
  carries the identifier of this process in its place is accepted in full, whatever its type; an
  echo reply with another identifier is rejected, and any other ICMP message is accepted. The
  program passes the check and ends within its eight instructions, and it is installed once.\<close>

theorem install_filter_accepts:
  assumes "p \<noteq> []" "8 \<le> fuel" "install_filter os s = (Some prog, s')"
  shows "bpf_filter fuel u junk (Some prog) p wirelen =
      Stops (if length p < header_size p + 6 then 0
             else if le16 (drop (header_size p + 4) p) = ident s then - 1
             else if p ! header_size p = 0 then 0 else 0xFFFFFFF) \<and>
    bpf_validate prog \<and> install_filter os s' = (None, s')"
proof -
  obtain n where fuel: "fuel = Suc (Suc (Suc (Suc (Suc (Suc (Suc (Suc n)))))))"
    by (rule that [of "fuel - 8"]) (use assms(2) in linarith)
  have prog: "prog = filter_insns (ident s)" and once: "filter_once s'"
    using assms(3) by (auto simp: install_filter_def split: if_splits)
  have zero: "(ucast w :: u32) = 0 \<longleftrightarrow> w = 0" for w :: u8
    using unsigned_word_eqI [of w 0] by (auto simp: word_uint_eq_iff uint_up_ucast is_up)
  note jumps = filter_nth(3,4,6-8) [where own = "ident s"] filter_execs(4,5)
  have first: "bpf_loop (Suc (Suc (Suc m))) u prog p wirelen \<lparr>acc = 0, idx = 0, mem = junk, pc = 0\<rparr> =
      (if length p < header_size p + 6 then Stops 0
       else bpf_loop m u prog p wirelen \<lparr>acc = ucast (be16 (drop (header_size p + 4) p)), idx = of_nat (header_size p),
         mem = junk, pc = (if le16 (drop (header_size p + 4) p) = ident s then 3 else 4)\<rparr>)" for m
    by (simp add: prog filter_loop filter_steps [OF assms(1)] filter_steps(2) [OF assms(1), unfolded One_nat_def]
        jumps same_identifier del: bpf_loop.simps)
  have last: "bpf_loop (Suc (Suc (Suc m))) u prog p wirelen
      \<lparr>acc = a, idx = of_nat (header_size p), mem = junk, pc = (if c then 3 else 4)\<rparr> =
      Stops (if c then - 1 else if p ! header_size p = 0 then 0 else 0xFFFFFFF)" if "header_size p < length p" for m a c
    using that by (simp add: prog filter_loop filter_steps [OF assms(1)] jumps zero del: bpf_loop.simps)
  have "bpf_filter fuel u junk (Some prog) p wirelen =
      Stops (if length p < header_size p + 6 then 0
             else if le16 (drop (header_size p + 4) p) = ident s then - 1
             else if p ! header_size p = 0 then 0 else 0xFFFFFFF)"
    unfolding bpf_filter_def fuel by (simp add: first last del: bpf_loop.simps)
  then show ?thesis using filter_validates once by (simp add: prog install_filter_def)
qed

theorem install_filter_accepts_witness:
  "bpf_filter 8 (\<lambda>_ _. 0) (\<lambda>_. 0) (Some (filter_insns 7)) (0x45 # replicate 19 0 @ [0, 0, 0, 0, 9, 0, 0, 1]) 28 = Stops 0 \<and>
    bpf_validate (filter_insns 7)"
  using install_filter_accepts [of "0x45 # replicate 19 0 @ [0, 0, 0, 0, 9, 0, 0, 1]" 8 lab_sys "ping_globals\<lparr>ident := 7\<rparr>"
      "filter_insns 7" "ping_globals\<lparr>ident := 7, filter_once := True, ticks := 1\<rparr>" "\<lambda>_ _. 0" "\<lambda>_. 0" 28]
  by (simp add: install_filter_def ping_globals_def lab_sys_def header_size_def le16_def nth_append nth_Cons')

end
