(* ===== verification/Ping_Frame.thy ===== *)
theory Ping_Frame
  imports Ping_Filter
begin

text \<open>
  What the two sides of the ping library may change: the receiving side, from one packet to the whole of
  \<open>parse_reply\<close> and \<open>receive_error_msg\<close>, and the sending side, \<open>pinger\<close>; and the invariant of the
  variables that both keep.
\<close>

section \<open>What the receiving side changes\<close>

text \<open>A call of \<open>Feedback\<close> that fits: a sequence number, a time that is not negative, a short text.\<close>

fun feedback_fits :: "int \<times> int \<times> u8 list option \<Rightarrow> bool" where
  "feedback_fits (seq, t, e) =
     (0 \<le> seq \<and> seq < 65536 \<and> 0 \<le> t \<and> t < 2 ^ 63 \<and> (case e of None \<Rightarrow> True | Some x \<Rightarrow> length x < 64))"

definition same_run :: "ping \<Rightarrow> ping \<Rightarrow> bool" where
  "same_run s s' \<longleftrightarrow> ntransmitted s' = ntransmitted s \<and> probes s' = probes s \<and> npackets s' = npackets s \<and>
     deadline s' = deadline s \<and> cur_time s' = cur_time s \<and> tokens s' = tokens s \<and> preload s' = preload s \<and>
     ident s' = ident s \<and> datalen s' = datalen s \<and> timing s' = timing s \<and> exiting s' = exiting s \<and>
     options s' \<in> {options s, options s OR F_LATENCY} \<and> (\<not> flag s F_ADAPTIVE \<longrightarrow> interval s' = interval s)"

definition counts_up :: "ping \<Rightarrow> ping \<Rightarrow> bool" where
  "counts_up s s' \<longleftrightarrow> nreceived s \<le> nreceived s' \<and> nrepeats s \<le> nrepeats s' \<and> nerrors s \<le> nerrors s' \<and>
     nchecksum s' = nchecksum s \<and>
     int (card (received (rcvd_tbl s'))) - nreceived s' \<le> int (card (received (rcvd_tbl s))) - nreceived s"

definition reports :: "ping \<Rightarrow> ping \<Rightarrow> bool" where
  "reports s s' \<longleftrightarrow> (\<exists>fs. feedback_calls s' = feedback_calls s @ fs \<and> list_all feedback_fits fs)"

definition receives :: "ping \<Rightarrow> ping \<Rightarrow> bool" where
  "receives s s' \<longleftrightarrow> same_run s s' \<and> counts_up s s' \<and> reports s s'"

lemma flag_or: "flag (s\<lparr>options := a OR b\<rparr>) F \<longleftrightarrow> flag (s\<lparr>options := a\<rparr>) F \<or> flag (s\<lparr>options := b\<rparr>) F"
  by (auto simp: flag_def bit_eq_iff bit_simps)

lemma same_run_adaptive: "same_run s s' \<Longrightarrow> flag s' F_ADAPTIVE = flag s F_ADAPTIVE"
proof -
  have "(w OR F_LATENCY) AND F_ADAPTIVE = w AND F_ADAPTIVE" for w
    by (simp add: F_LATENCY_def F_ADAPTIVE_def bit.conj_disj_distrib2)
  then show "same_run s s' \<Longrightarrow> flag s' F_ADAPTIVE = flag s F_ADAPTIVE"
    by (auto simp: same_run_def flag_def)
qed

lemma receives_refl [simp]: "receives s s"
  by (simp add: receives_def same_run_def counts_up_def reports_def)

lemma same_run_trans: "same_run s t \<Longrightarrow> same_run t u \<Longrightarrow> same_run s u"
proof -
  have "(w OR F_LATENCY) OR F_LATENCY = w OR F_LATENCY" for w by (simp add: or.assoc)
  then show "same_run s t \<Longrightarrow> same_run t u \<Longrightarrow> same_run s u"
    using same_run_adaptive [of s t] by (auto simp: same_run_def)
qed

lemma reports_trans: "reports s t \<Longrightarrow> reports t u \<Longrightarrow> reports s u"
  by (auto simp: reports_def)

lemma receives_trans: "receives s t \<Longrightarrow> receives t u \<Longrightarrow> receives s u"
  using same_run_trans [of s t u] reports_trans [of s t u] by (auto simp: receives_def counts_up_def)

text \<open>The steps that count and report nothing.\<close>

definition no_count :: "ping \<Rightarrow> ping \<Rightarrow> bool" where
  "no_count s s' \<longleftrightarrow> same_run s s' \<and> nreceived s' = nreceived s \<and> nrepeats s' = nrepeats s \<and> nerrors s' = nerrors s \<and>
     nchecksum s' = nchecksum s \<and> rcvd_tbl s' = rcvd_tbl s \<and> feedback_calls s' = feedback_calls s"

lemma no_count_receives: "no_count s s' \<Longrightarrow> receives s s'"
  by (simp add: no_count_def receives_def counts_up_def reports_def)

lemma no_count_refl [simp]: "no_count s s"
  by (simp add: no_count_def same_run_def)

lemma no_count_trans: "no_count s t \<Longrightarrow> no_count t u \<Longrightarrow> no_count s u"
  using same_run_trans [of s t u] by (simp add: no_count_def)

lemma no_count_simple [simp]:
  "no_count s (s\<lparr>ticks := n\<rparr>)" "no_count s (s\<lparr>confirm := c\<rparr>)" "no_count s (s\<lparr>recverr_once := o'\<rparr>)"
  "no_count s (s\<lparr>working_recverr := b\<rparr>)" "no_count s (set_flag F_LATENCY s)" "no_count s (s\<lparr>filter_once := b, ticks := n\<rparr>)"
  "no_count s (s\<lparr>pipesize := p, acked := q\<rparr>)"
  "no_count s (s\<lparr>tsum := a, tsum2 := b2, tmin := c2, tmax := d, rtt := e\<rparr>)"
  "flag s F_ADAPTIVE \<Longrightarrow> no_count s (s\<lparr>interval := i\<rparr>)"
  by (simp_all add: no_count_def same_run_def set_flag_def)

lemma no_count_acknowledge: "no_count s (acknowledge q s)"
  by (subst acknowledge_eq) simp

lemma no_count_timestamp: "no_count s (print_timestamp os s)"
  by (simp add: print_timestamp_def gettimeofday_def)

lemma no_count_write: "write_stdout os n s = Some s' \<Longrightarrow> no_count s s'"
  using write_stdout_frame by fastforce

lemma no_count_trip: "no_count s (count_trip t s)"
proof -
  define s1 where "s1 = s\<lparr>tsum := to_s64 (tsum s + t), tsum2 := to_s64 (tsum2 s + to_s64 (t * t)),
    tmin := if t < tmin s then t else tmin s, tmax := if t > tmax s then t else tmax s,
    rtt := if rtt s = 0 then to_s32 (t * 8) else to_s32 (rtt s + (t - rtt s sdiv 8))\<rparr>"
  have s1: "no_count s s1" unfolding s1_def by (rule no_count_simple)
  have c: "count_trip t s = (if flag s1 F_ADAPTIVE then update_interval s1 else s1)"
    by (simp add: count_trip_def Let_def s1_def)
  obtain i where "update_interval s1 = s1\<lparr>interval := i\<rparr>" using update_interval_eq by blast
  then have "flag s1 F_ADAPTIVE \<Longrightarrow> no_count s (update_interval s1)"
    using no_count_trans [OF s1 no_count_simple(9) [of s1 i]] by simp
  then show ?thesis using s1 c by simp
qed

lemma trip_range: "trip a b < 2 ^ 63"
  unfolding trip_def Let_def to_s64_def using signed_take_bit_int_less_exp [of 63] by simp

lemma measure_trip_frame:
  "no_count s (snd (measure_trip os tv t s))"
  "0 \<le> fst (measure_trip os tv t s)" "fst (measure_trip os tv t s) < 2 ^ 63"
  using trip_range no_count_trans [OF no_count_simple(1) no_count_simple(5)]
  by (auto simp: measure_trip_def Let_def gettimeofday_def)

text \<open>The counters: what came in, errors and reports.\<close>

lemma receives_nerrors: "0 \<le> d \<Longrightarrow> receives s (s\<lparr>nerrors := nerrors s + d\<rparr>)"
  by (simp add: receives_def same_run_def counts_up_def reports_def)

lemma receives_Feedback: "feedback_fits (q, t, e) \<Longrightarrow> receives s (Feedback_call q t e s)"
  by (simp add: Feedback_call_def receives_def same_run_def counts_up_def reports_def)

lemma count_one:
  assumes "no_count (s\<lparr>nreceived := nreceived s + 1\<rparr>) s1"
  shows "receives s (s1\<lparr>nrepeats := nrepeats s1 + 1, nreceived := nreceived s1 - 1\<rparr>)"
    "rcvd_test q (rcvd_tbl s1) = 0 \<Longrightarrow> receives s (s1\<lparr>rcvd_tbl := rcvd_set q (rcvd_tbl s1)\<rparr>)"
proof -
  have eq: "nreceived s1 = nreceived s + 1" "nrepeats s1 = nrepeats s" "nerrors s1 = nerrors s"
    "nchecksum s1 = nchecksum s" "rcvd_tbl s1 = rcvd_tbl s" "feedback_calls s1 = feedback_calls s" "same_run s s1"
    using assms by (simp_all add: no_count_def same_run_def flag_def)
  have run: "same_run s (s1\<lparr>nrepeats := a, nreceived := b\<rparr>)" "same_run s (s1\<lparr>rcvd_tbl := T\<rparr>)" for a b T
    using eq(7) by (simp_all add: same_run_def)
  show "receives s (s1\<lparr>nrepeats := nrepeats s1 + 1, nreceived := nreceived s1 - 1\<rparr>)"
    using run(1) eq by (simp add: receives_def counts_up_def reports_def)
  assume "rcvd_test q (rcvd_tbl s1) = 0"
  then have "q \<notin> received (rcvd_tbl s)" using eq(5) by simp
  then have "int (card (received (rcvd_set q (rcvd_tbl s)))) = int (card (received (rcvd_tbl s))) + 1"
    by simp
  then show "receives s (s1\<lparr>rcvd_tbl := rcvd_set q (rcvd_tbl s1)\<rparr>)"
    using run(2) eq by (simp add: receives_def counts_up_def reports_def)
qed

lemma receives_count:
  assumes "count_reply os icmp il cc q False tv s = (t, s')"
  shows "receives s s'" "0 \<le> t" "t < 2 ^ 63"
proof -
  define s0 where "s0 = s\<lparr>nreceived := nreceived s + 1\<rparr>"
  define s1 where "s1 = acknowledge q s0"
  define m where "m = measure_trip os tv (timeval_at (drop il icmp)) s1"
  define s2 where "s2 = (if timing s1 \<and> cc \<ge> 24 then count_trip (fst m) (snd m) else s1)"
  have "no_count s1 (snd m)" unfolding m_def by (rule measure_trip_frame)
  then have "no_count s0 s2"
    using no_count_trans [OF no_count_acknowledge [of s0 q]] no_count_trans [of s1 "snd m" "count_trip (fst m) (snd m)"]
      no_count_trip [of "snd m" "fst m"] no_count_acknowledge [of s0 q]
    by (auto simp: s2_def s1_def [symmetric])
  note c = count_one [OF this [unfolded s0_def]]
  have r: "count_reply os icmp il cc q False tv s =
    (if timing s1 \<and> cc \<ge> 24 then fst m else 0,
     (if rcvd_test q (rcvd_tbl s2) \<noteq> 0 then s2\<lparr>nrepeats := nrepeats s2 + 1, nreceived := nreceived s2 - 1\<rparr>
      else s2\<lparr>rcvd_tbl := rcvd_set q (rcvd_tbl s2)\<rparr>)\<lparr>confirm := confirm_flag s2\<rparr>)"
    unfolding count_reply_def Let_def s0_def [symmetric] if_False s1_def [symmetric]
    by (cases "timing s1"; cases "cc \<ge> 24") (simp_all add: m_def [symmetric] s2_def case_prod_beta)
  show "receives s s'"
    using assms c receives_trans [OF _ no_count_receives [OF no_count_simple(2)]] by (auto simp: r split: if_splits)
  show "0 \<le> t" "t < 2 ^ 63"
    using assms measure_trip_frame(2,3) [of os tv "timeval_at (drop il icmp)" s1] by (auto simp: r m_def split: if_splits)
qed

text \<open>The functions of the receiving side, wherever they return; \<open>flow_receives\<close> says so of an outcome.\<close>

fun flow_receives :: "ping \<Rightarrow> ('r, ping) flow option \<Rightarrow> bool" where
  "flow_receives s (Some (Next s')) \<longleftrightarrow> receives s s'"
| "flow_receives s (Some (Return v s')) \<longleftrightarrow> receives s s'"
| "flow_receives s (Some (Exit c s')) \<longleftrightarrow> receives s s'"
| "flow_receives s (Some (Trap s')) \<longleftrightarrow> True"
| "flow_receives s None \<longleftrightarrow> True"

lemma flow_receives_call:
  "flow_receives s m \<Longrightarrow> (\<And>v s'. receives s s' \<Longrightarrow> flow_receives s (f v s')) \<Longrightarrow> flow_receives s (call_opt m f)"
proof (cases m)
  case (Some r)
  then show "flow_receives s m \<Longrightarrow> (\<And>v s'. receives s s' \<Longrightarrow> flow_receives s (f v s')) \<Longrightarrow> flow_receives s (call_opt m f)"
    by (cases r) auto
qed simp

lemma be16_range: "0 \<le> uint (be16 bs)" "uint (be16 bs) < 65536"
  using unsigned_less [of "be16 bs", where ?'a = int] by simp_all

lemma receives_icmph: "receives s s1 \<Longrightarrow> flow_receives s (Some (pr_icmph os type c info icp s1))"
  using receives_trans [of s s1] receives_Feedback [of "uint (be16 (drop 6 icp))" 0] be16_range [of "drop 6 icp"]
  by (simp add: pr_icmph_def Let_def)

lemma receives_gather:
  assumes "gather_statistics os icmp 8 cc q False tv s = Some (v, s')"
  shows "receives s s'"
proof -
  obtain t s1 where c: "count_reply os icmp 8 cc q False tv s = (t, s1)" by fastforce
  note r = receives_count [OF c]
  have f: "receives s2 (Feedback_call (uint (be16 (drop 6 icmp))) t None s2)" for s2
    using r(2,3) be16_range by (intro receives_Feedback) simp
  have g: "receives s1 s2 \<Longrightarrow> receives s1 (Feedback_call (uint (be16 (drop 6 icmp))) t None s2)" for s2
    using f receives_trans by blast
  have w: "write_stdout os n s1 = Some s2 \<Longrightarrow> receives s1 s2" for n s2
    using no_count_write no_count_receives by blast
  have p: "receives s1 (snd (gettimeofday os s1))"
    by (simp add: gettimeofday_def no_count_receives)
  have "receives s1 s'"
    using assms unfolding gather_statistics_def c
    by (auto simp: Let_def bind_eq_Some_conv p intro!: g intro: w split: if_split_asm)
  then show ?thesis using r(1) receives_trans by blast
qed

lemma flow_receives_map:
  "(\<And>s1. m = Some s1 \<Longrightarrow> receives s (f s1)) \<Longrightarrow> flow_receives s (map_option (\<lambda>s1. Return v (f s1)) m)"
  by (cases m) simp_all

lemma flow_receives_write:
  "receives s s1 \<Longrightarrow> flow_receives s (map_option (Return v) (write_stdout os n s1))"
  by (cases "write_stdout os n s1") (auto dest: no_count_write no_count_receives intro: receives_trans)

lemma receives_reply_error: "flow_receives s (reply_error os icmp icmp1 s)"
proof -
  define err where "err = (icmp ! 0 \<noteq> 5 \<and> icmp ! 0 \<noteq> 4)"
  define s1 where "s1 = (if err then acknowledge (be16 (drop 6 icmp1)) s else s)"
  define s2 where "s2 = (if err then s1\<lparr>recverr_once := recverr_once s1 + 1\<rparr> else s1)"
  define s3 where "s3 = s2\<lparr>nerrors := nerrors s2 + (if err then 1 else 0)\<rparr>"
  define v :: int where "v = (if err then 0 else 1)"
  have 1: "receives s s1" by (simp add: s1_def no_count_receives no_count_acknowledge)
  have 2: "receives s s2" using receives_trans [OF 1, of s2] by (simp add: s2_def no_count_receives)
  have 3: "receives s s3" using receives_trans [OF 2 receives_nerrors [of "if err then 1 else 0" s2]] by (simp add: s3_def)
  have 4: "receives s (print_timestamp os s3)"
    using 3 no_count_timestamp no_count_receives receives_trans by blast
  have "reply_error os icmp icmp1 s =
    (if err \<and> working_recverr s1 then Some (Return 0 s1)
     else if err \<and> recverr_once s1 = 0 then Some (Return 0 s2)
     else if flag s3 F_QUIET then Some (Return v s3)
     else if flag s3 F_FLOOD then (if err then map_option (Return v) (write_stdout os 2 s3) else Some (Return v s3))
     else call_opt (Some (pr_icmph os (icmp ! 0) (icmp ! 1) (ntohl (le32 (drop 4 icmp))) icmp (print_timestamp os s3)))
            (\<lambda>_ s. Some (Return v s)))"
    unfolding reply_error_def Let_def
    unfolding err_def [symmetric] s1_def [symmetric] s2_def [symmetric] s3_def [symmetric] v_def [symmetric] by (rule refl)
  moreover have "flow_receives s (call_opt (Some (pr_icmph os t c i icmp (print_timestamp os s3))) (\<lambda>_ s. Some (Return v s)))" for t c i
    by (rule flow_receives_call [OF receives_icmph [OF 4]]) simp
  ultimately show ?thesis using 1 2 3 by (simp add: flow_receives_write)
qed

lemma receives_reply_other: "flow_receives s (reply_other os icmp csf s)"
proof -
  have 1: "receives s (print_timestamp os s)" by (rule no_count_receives [OF no_count_timestamp])
  have "flow_receives s (call_opt (Some (pr_icmph os t c i icmp (print_timestamp os s))) (\<lambda>_ s. Some (Return (0 :: int) s)))" for t c i
    by (rule flow_receives_call [OF receives_icmph [OF 1]]) simp
  then show ?thesis using 1 by (simp add: reply_other_def Let_def flow_receives_write)
qed

lemma receives_parse_reply: "flow_receives s (parse_reply os buf cc tv s)"
proof -
  have "flow_receives s (map_option (\<lambda>(v, s). Return (0 :: int) s) (gather_statistics os icmp 8 n q False tv s))" for icmp n q
    using receives_gather by (cases "gather_statistics os icmp 8 n q False tv s") auto
  then show ?thesis
    unfolding parse_reply_def Let_def by (simp add: receives_reply_error receives_reply_other del: drop_drop)
qed

lemma receives_error_msg: "flow_receives s (receive_error_msg os m e s)"
proof -
  define s1 where "s1 = acknowledge (be16 (drop 6 (em_icmph m))) s"
  define s2 where "s2 = s1\<lparr>working_recverr := True, nerrors := nerrors s1 + 1\<rparr>"
  have 1: "receives s s1" by (simp add: s1_def no_count_receives no_count_acknowledge)
  have "receives s1 (s1\<lparr>working_recverr := True\<rparr>)" by (simp add: no_count_receives)
  then have 2: "receives s s2"
    using receives_trans [OF receives_trans [OF 1] receives_nerrors [of 1 "s1\<lparr>working_recverr := True\<rparr>"]] by (simp add: s2_def)
  have 3: "receives s (print_timestamp os s2)" using 2 no_count_timestamp no_count_receives receives_trans by blast
  have 4: "flow_receives s (call_opt (Some (pr_icmph os t c i icp (print_timestamp os s2))) (\<lambda>_ s. Some (Return v s)))"
    for t c i icp and v :: "int \<times> int"
    by (rule flow_receives_call [OF receives_icmph [OF 3]]) simp
  have 5: "flow_receives s (map_option (\<lambda>s. Return v (s\<lparr>nerrors := nerrors s + 1\<rparr>)) (write_stdout os n s))" for v :: "int \<times> int" and n
    using no_count_receives [OF no_count_write] receives_nerrors [of 1] receives_trans
    by (cases "write_stdout os n s") (auto; blast)+
  show ?thesis
    unfolding receive_error_msg_def
    unfolding Let_def s1_def [symmetric] s2_def [symmetric]
    using 4 5 2 receives_nerrors [of 1 s] by (auto simp: flow_receives_write split: option.split)
qed

section \<open>What the sending side changes\<close>

definition limit_reached :: "ping \<Rightarrow> bool" where
  "limit_reached s \<longleftrightarrow> npackets s \<noteq> 0 \<and> ntransmitted s \<ge> npackets s \<and> deadline s = 0"

text \<open>\<open>pinger\<close> reads the clock at most, or sends one probe below the limit.\<close>

lemma pinger_send_shape:
  assumes "pinger_send os s = Some r"
  shows "\<exists>n m. flow_state r = snd (send_probe os (s\<lparr>ticks := n\<rparr>)) \<or>
    flow_state r = (advance_ntransmitted (snd (send_probe os (s\<lparr>ticks := n\<rparr>))))\<lparr>ticks := m\<rparr>"
proof -
  define s1 where "s1 = (if flag s F_OUTSTANDING \<and> ntransmitted s > 0 \<and> rcvd_test (of_int (ntransmitted s)) (rcvd_tbl s) = 0 \<and>
    flag s F_PTIMEOFDAY then snd (gettimeofday os s) else s)"
  define s2 where "s2 = snd (send_probe os s1)"
  define s3 where "s3 = advance_ntransmitted s2"
  have "s1 = s\<lparr>ticks := ticks s\<rparr> \<or> s1 = s\<lparr>ticks := Suc (ticks s)\<rparr>"
    by (simp add: s1_def gettimeofday_def)
  then have "\<exists>n. s1 = s\<lparr>ticks := n\<rparr>" by blast
  moreover have "flow_state r = s2 \<or> flow_state r = s3 \<or> (\<exists>m. flow_state r = s3\<lparr>ticks := m\<rparr>)"
    using assms unfolding pinger_send_def s1_def [symmetric]
    by (auto simp: Let_def case_prod_beta write_stdout_def simp flip: s2_def s3_def split: if_splits)
  moreover have "s3 = s3\<lparr>ticks := ticks s3\<rparr>" by simp
  ultimately show ?thesis unfolding s3_def s2_def by metis
qed

lemma pinger_shape:
  assumes "pinger os s = Some r"
  shows "(\<exists>n. flow_state r = s\<lparr>ticks := n\<rparr>) \<or>
    (\<not> limit_reached s \<and> (\<exists>n tv tk m. let s2 = snd (send_probe os (s\<lparr>ticks := n, cur_time := tv, tokens := tk\<rparr>)) in
       flow_state r = s2 \<or> flow_state r = (advance_ntransmitted s2)\<lparr>ticks := m\<rparr>))"
proof -
  have none: "Some r = Some (Return v (s\<lparr>ticks := n\<rparr>)) \<Longrightarrow> \<exists>n. flow_state r = s\<lparr>ticks := n\<rparr>" for v n by auto
  have same: "Return v s = Return v (s\<lparr>ticks := ticks s\<rparr>)" for v :: int by simp
  define tv where "tv = gtod os (ticks s)"
  define nt where "nt = (tv_sec tv - tv_sec (cur_time s)) * 1000 + (tv_usec tv - tv_usec (cur_time s)) sdiv 1000"
  define cap where "cap = (if nt + tokens s > to_s32 (interval s * preload s) then to_s32 (interval s * preload s) else nt + tokens s)"
  define s1 where "s1 = s\<lparr>ticks := Suc (ticks s)\<rparr>"
  have "pinger os s =
    (if exiting s \<or> limit_reached s then Some (Return 1000 s)
     else if tv_sec (cur_time s) = 0 then
       pinger_send os (s\<lparr>ticks := Suc (ticks s), cur_time := tv, tokens := to_s32 (interval s * (preload s - 1))\<rparr>)
     else if interval s = 0 \<and> nt < MININTERVAL \<and> in_flight s1 \<ge> preload s then Some (Return (to_s32 (MININTERVAL - nt)) s1)
     else if cap < interval s then Some (Return (to_s32 (interval s - cap)) s1)
     else pinger_send os (s\<lparr>ticks := Suc (ticks s), cur_time := tv, tokens := cap - interval s\<rparr>))"
    (is "_ = ?rhs")
    by (simp add: pinger_def gettimeofday_def Let_def tv_def nt_def cap_def s1_def limit_reached_def cong: if_cong)
  then have eq: "Some r = ?rhs" by (simp only: assms)
  have "(\<exists>n. flow_state r = s\<lparr>ticks := n\<rparr>) \<or>
    \<not> limit_reached s \<and> (\<exists>n tv tk. pinger_send os (s\<lparr>ticks := n, cur_time := tv, tokens := tk\<rparr>) = Some r)"
  proof (cases "exiting s \<or> limit_reached s")
    case True
    then show ?thesis using eq none [of 1000 "ticks s"] by (simp only: if_True same) blast
  next
    case False
    then show ?thesis using eq none [of _ "Suc (ticks s)"]
      by (simp only: if_False s1_def split: if_split_asm) (metis none)+
  qed
  then show ?thesis
  proof (elim disjE conjE exE)
    fix n tv tk
    assume "\<not> limit_reached s" "pinger_send os (s\<lparr>ticks := n, cur_time := tv, tokens := tk\<rparr>) = Some r"
    moreover have "(s\<lparr>ticks := n, cur_time := tv, tokens := tk\<rparr>)\<lparr>ticks := n'\<rparr> = s\<lparr>ticks := n', cur_time := tv, tokens := tk\<rparr>" for n'
      by simp
    ultimately show ?thesis
      using pinger_send_shape [of os "s\<lparr>ticks := n, cur_time := tv, tokens := tk\<rparr>" r] unfolding Let_def by metis
  qed blast
qed

section \<open>The invariant\<close>

text \<open>
  What stays of a state \<open>s0\<close> in which no packet has been sent: the settings; and what holds of the
  counters, the probes and the reports. \<open>sound\<close> is what \<open>ping_main\<close> leaves in the settings.
\<close>

definition sound :: "ping \<Rightarrow> bool" where
  "sound s \<longleftrightarrow> 0 \<le> datalen s \<and> datalen s \<le> 65528 \<and> timing s = (datalen s \<ge> 16)"

definition unused :: "ping \<Rightarrow> bool" where
  "unused s \<longleftrightarrow> ntransmitted s = 0 \<and> nreceived s = 0 \<and> nrepeats s = 0 \<and> nerrors s = 0 \<and> nchecksum s = 0 \<and>
     rcvd_tbl s = (\<lambda>_. 0) \<and> probes s = [] \<and> feedback_calls s = [] \<and> 0 \<le> npackets s"

definition same_settings :: "ping \<Rightarrow> ping \<Rightarrow> bool" where
  "same_settings s0 s \<longleftrightarrow> npackets s = npackets s0 \<and> deadline s = deadline s0 \<and> preload s = preload s0 \<and>
     ident s = ident s0 \<and> datalen s = datalen s0 \<and> timing s = timing s0"

definition good_probe :: "ping \<Rightarrow> u8 list \<Rightarrow> bool" where
  "good_probe s p \<longleftrightarrow> (\<exists>n stamp. valid_probe (nat (datalen s + 8)) (ident s) n stamp p \<and> (stamp = None) = (\<not> timing s))"

definition ping_inv :: "ping \<Rightarrow> ping \<Rightarrow> bool" where
  "ping_inv s0 s \<longleftrightarrow> same_settings s0 s \<and>
     nchecksum s = 0 \<and> 0 \<le> nrepeats s \<and> 0 \<le> nerrors s \<and> int (card (received (rcvd_tbl s))) \<le> nreceived s \<and>
     0 \<le> ntransmitted s \<and> ntransmitted s \<le> int (length (probes s)) \<and>
     (0 < npackets s0 \<and> deadline s0 = 0 \<longrightarrow> ntransmitted s \<le> npackets s0) \<and>
     list_all feedback_fits (feedback_calls s) \<and> list_all (good_probe s0) (probes s)"

lemma ping_inv_unused: "unused s \<Longrightarrow> ping_inv s s"
  by (simp add: unused_def ping_inv_def same_settings_def)

lemma ping_inv_receives: "ping_inv s0 s \<Longrightarrow> receives s s' \<Longrightarrow> ping_inv s0 s'"
  by (auto simp: ping_inv_def receives_def same_run_def counts_up_def reports_def same_settings_def)

lemma ping_inv_probe:
  assumes "ping_inv s0 s" "sound s0" "ticks s' = n" "s' = s\<lparr>ticks := n, cur_time := tv, tokens := tk\<rparr>"
  shows "ping_inv s0 (snd (send_probe os s'))"
    "\<not> limit_reached s \<Longrightarrow> ping_inv s0 ((advance_ntransmitted (snd (send_probe os s')))\<lparr>ticks := m\<rparr>)"
proof -
  have s: "same_settings s0 s" using assms(1) by (simp add: ping_inv_def)
  obtain p where p: "probes (snd (send_probe os s')) = probes s @ [p]"
    "valid_probe (nat (datalen s + 8)) (ident s) (of_int (ntransmitted s + 1)) (if timing s then Some (gtod os n) else None) p"
    "received (rcvd_tbl (snd (send_probe os s'))) = received (rcvd_tbl s) - {of_int (ntransmitted s + 1)}"
    "ntransmitted (snd (send_probe os s')) = ntransmitted s"
    using send_probe_effect [of s' "of_int (ntransmitted s' + 1)" os] assms(2,4) s
    by (auto simp: sound_def same_settings_def)
  have good: "good_probe s0 p"
    using p(2) s by (auto simp: good_probe_def same_settings_def split: if_splits)
  have c: "card (received (rcvd_tbl (snd (send_probe os s')))) \<le> card (received (rcvd_tbl s))"
    unfolding p(3) by (rule card_mono) auto
  have pre: "preload (snd (send_probe os s')) = preload s" "preload (advance_ntransmitted t) = preload t" for t
    using send_probe_frame(1) [of s' os] advance_frame(1) [of t] assms(4) by (simp_all add: same_bucket_def)
  show "ping_inv s0 (snd (send_probe os s'))"
    using assms(1,4) p(1,4) good c pre by (simp add: ping_inv_def same_settings_def)
  assume "\<not> limit_reached s"
  then show "ping_inv s0 ((advance_ntransmitted (snd (send_probe os s')))\<lparr>ticks := m\<rparr>)"
    using assms(1,4) p(1,4) good c pre advance_frame(2) [of "snd (send_probe os s')"]
    by (auto simp: ping_inv_def same_settings_def limit_reached_def)
qed

lemma ping_inv_pinger:
  assumes "pinger os s = Some r" "ping_inv s0 s" "sound s0"
  shows "ping_inv s0 (flow_state r)"
proof -
  have "ping_inv s0 (s\<lparr>ticks := n\<rparr>)" for n
    by (rule ping_inv_receives [OF assms(2) no_count_receives]) simp
  moreover note ping_inv_probe [OF assms(2,3) _ refl]
  ultimately show ?thesis using pinger_shape [OF assms(1)] by (auto simp: Let_def)
qed

end
