(* ===== verification/Ping_Main.thy ===== *)
theory Ping_Main
  imports Ping_Frame Service
begin

text \<open>
  The loop of the ping library, \<open>main_loop\<close> of monitor/ping_common.c, as a state machine over the answers
  of the system: its invariant, its rate, and what it reports to the server.
\<close>

section \<open>The loop\<close>

text \<open>
  Where the loop is: at its top, before a call of \<open>pinger\<close>, in \<open>poll\<close> with a timeout, before a
  \<open>recvmsg\<close> that waits or does not, ended with the status of the program, or lost: it does not
  return, has called \<open>abort\<close> or has written outside an array.
\<close>

datatype phase = Checking | Sending | Polling int | Receiving bool | Ended int | Lost

record run =
  at_phase :: phase
  vars :: ping
  buffer :: "u8 list"
  attached :: "bpf_insn list option"

text \<open>
  The answers of the system, and the signals, which may come at any time: \<open>Packet\<close> are the bytes
  received and the time stamp of the kernel, if there is one; \<open>Failed\<close> is a failure of \<open>recvmsg\<close> with
  its \<open>errno\<close> and what the error queue then holds; \<open>Nothing\<close> stands for \<open>EAGAIN\<close> and \<open>EINTR\<close>.
\<close>

datatype answer =
  Proceed | Timeout | Ready | Nothing | Packet "u8 list" "timeval option" | Failed int errmsg | Sigexit | Sigstatus

definition HZ :: int where "HZ = 100"
definition EINTR :: int where "EINTR = 4"
definition EAGAIN :: int where "EAGAIN = 11"

definition loop_ends :: "ping \<Rightarrow> bool" where
  "loop_ends s \<longleftrightarrow> exiting s \<or> npackets s \<noteq> 0 \<and> nreceived s + nerrors s \<ge> npackets s \<or> deadline s \<noteq> 0 \<and> nerrors s \<noteq> 0"

text \<open>One round of the loop around \<open>pinger\<close>; the value \<open>pinger\<close> does not return is indeterminate.\<close>

definition next_probe :: "sys \<Rightarrow> ping \<Rightarrow> (int, ping) flow option" where
  "next_probe os s =
     call_opt (pinger os s)
       (\<lambda>v s. let next = (case v of Some n \<Rightarrow> n | None \<Rightarrow> undef os (ticks s));
                  (next, s) = schedule_exit next s
              in Some (Return next s))"

text \<open>
  How to wait for the next packet until a probe is due: \<open>1000\<close> is a multiple of \<open>HZ\<close>, so \<open>next\<close> is compared
  with one tick.
\<close>

definition plan :: "int \<Rightarrow> ping \<Rightarrow> phase" where
  "plan next s =
     (let polls = flag s (F_ADAPTIVE OR F_FLOOD_POLL)
      in if polls \<or> next < SCHINT (interval s) then
           (let (next, spin) = (if next \<le> 1000 div HZ then (if in_flight s \<noteq> 0 then (MININTERVAL, False) else (0, True))
                                else (next, False))
            in if \<not> spin \<and> (polls \<or> interval s \<noteq> 0) then Polling next else Receiving spin)
         else Receiving False)"

text \<open>After a message: the filter if it was for another process, then on, or back to the top.\<close>

definition after_message :: "sys \<Rightarrow> bool \<Rightarrow> ping \<Rightarrow> run \<Rightarrow> run" where
  "after_message os not_ours s r =
     (let (f, s) = (if not_ours then install_filter os s else (None, s))
      in r\<lparr>vars := s, attached := (case f of None \<Rightarrow> attached r | Some prog \<Rightarrow> Some prog),
           at_phase := if in_flight s = 0 then Checking else Receiving True\<rparr>)"

text \<open>What becomes of the loop when a function it calls ends so; the functions called return a value.\<close>

fun continue :: "run \<Rightarrow> ('r, ping) flow option \<Rightarrow> ('r \<Rightarrow> ping \<Rightarrow> run) \<Rightarrow> run" where
  "continue r (Some (Return v s)) f = f v s"
| "continue r (Some (Next s)) f = r\<lparr>vars := s, at_phase := Lost\<rparr>"
| "continue r (Some (Exit c s)) f = r\<lparr>vars := s, at_phase := Ended c\<rparr>"
| "continue r (Some (Trap s)) f = r\<lparr>at_phase := Lost\<rparr>"
| "continue r None f = r\<lparr>at_phase := Lost\<rparr>"

text \<open>The kernel hands over the packets the attached filter accepts.\<close>

definition delivered :: "run \<Rightarrow> u8 list \<Rightarrow> bool" where
  "delivered r p \<longleftrightarrow> length p \<le> length (buffer r) \<and>
     (case attached r of None \<Rightarrow> True
      | Some prog \<Rightarrow> bpf_filter 8 (\<lambda>_ _. 0) (\<lambda>_. 0) (Some prog) p (of_nat (length p)) \<noteq> Stops 0)"

text \<open>The time of a packet: the stamp of the kernel, or a reading of the clock.\<close>

definition receive_time :: "sys \<Rightarrow> timeval option \<Rightarrow> ping \<Rightarrow> timeval \<times> ping" where
  "receive_time os stamp s =
     (case stamp of Some tv \<Rightarrow> if flag s F_LATENCY then gettimeofday os s else (tv, s)
      | None \<Rightarrow> gettimeofday os s)"

inductive loop_step :: "sys \<Rightarrow> answer \<Rightarrow> run \<Rightarrow> run \<Rightarrow> bool" for os where
  ends: "at_phase r = Checking \<Longrightarrow> loop_ends (vars r) \<Longrightarrow>
    loop_step os Proceed r (r\<lparr>at_phase := Ended (exit_status (finish (vars r)))\<rparr>)"
| checks: "at_phase r = Checking \<Longrightarrow> \<not> loop_ends (vars r) \<Longrightarrow>
    loop_step os Proceed r (r\<lparr>at_phase := Sending,
      vars := if status_snapshot (vars r) then snd (status (vars r)) else vars r\<rparr>)"
| sends: "at_phase r = Sending \<Longrightarrow>
    loop_step os Proceed r (continue r (next_probe os (vars r))
      (\<lambda>next s. r\<lparr>vars := s, at_phase := if next \<le> 0 then Sending else plan next s\<rparr>))"
| times_out: "at_phase r = Polling n \<Longrightarrow> loop_step os Timeout r (r\<lparr>at_phase := Checking\<rparr>)"
| is_ready: "at_phase r = Polling n \<Longrightarrow> loop_step os Ready r (r\<lparr>at_phase := Receiving True\<rparr>)"
| empty: "at_phase r = Receiving b \<Longrightarrow> loop_step os Nothing r (r\<lparr>at_phase := Checking\<rparr>)"
| packet: "at_phase r = Receiving b \<Longrightarrow> delivered r p \<Longrightarrow> receive_time os stamp (vars r) = (tv, s) \<Longrightarrow>
    buf = p @ drop (length p) (buffer r) \<Longrightarrow>
    loop_step os (Packet p stamp) r (continue r (parse_reply os buf (length p) tv s)
      (\<lambda>not_ours s. after_message os (not_ours \<noteq> 0) s (r\<lparr>buffer := buf\<rparr>)))"
| fails: "at_phase r = Receiving b \<Longrightarrow> err \<notin> {EAGAIN, EINTR} \<Longrightarrow>
    loop_step os (Failed err m) r (continue r (receive_error_msg os m err (vars r))
      (\<lambda>(v, err) s. if v = 0 \<and> err \<noteq> 0 then r\<lparr>vars := s, at_phase := Checking\<rparr>
                    else after_message os (v = 0) s r))"
| sigexit: "loop_step os Sigexit r (r\<lparr>vars := (vars r)\<lparr>exiting := True\<rparr>\<rparr>)"
| sigstatus: "loop_step os Sigstatus r (r\<lparr>vars := (vars r)\<lparr>status_snapshot := True\<rparr>\<rparr>)"

text \<open>The runs of the loop from the variables \<open>s0\<close> on, with a buffer of \<open>packlen\<close> bytes.\<close>

definition loop_starts :: "ping \<Rightarrow> run \<Rightarrow> bool" where
  "loop_starts s0 r \<longleftrightarrow> at_phase r = Checking \<and> vars r = s0 \<and> int (length (buffer r)) = datalen s0 + 136 \<and> attached r = None"

definition loop_reach :: "sys \<Rightarrow> ping \<Rightarrow> run \<Rightarrow> bool" where
  "loop_reach os s0 = reachable (loop_starts s0) (\<lambda>r r'. \<exists>a. loop_step os a r r')"

section \<open>Its invariant\<close>

definition loop_inv :: "ping \<Rightarrow> run \<Rightarrow> bool" where
  "loop_inv s0 r \<longleftrightarrow> ping_inv s0 (vars r) \<and> attached r \<in> {None, Some (filter_insns (ident s0))} \<and>
     int (length (buffer r)) = datalen s0 + 136"

lemma loop_inv_simps [simp]:
  "loop_inv s0 (r\<lparr>at_phase := ph\<rparr>) = loop_inv s0 r"
  "loop_inv s0 (r\<lparr>vars := s, at_phase := ph\<rparr>) = loop_inv s0 (r\<lparr>vars := s\<rparr>)"
  "loop_inv s0 r \<Longrightarrow> loop_inv s0 (r\<lparr>vars := s\<rparr>) = ping_inv s0 s"
  by (simp_all add: loop_inv_def)

text \<open>A variable of which the invariant says nothing.\<close>

lemma ping_inv_others [simp]:
  "ping_inv s0 (s\<lparr>exiting := b\<rparr>) = ping_inv s0 s" "ping_inv s0 (s\<lparr>status_snapshot := b\<rparr>) = ping_inv s0 s"
  "ping_inv s0 (s\<lparr>waittime := w\<rparr>) = ping_inv s0 s"
  by (simp_all add: ping_inv_def same_settings_def)

lemma ping_inv_exit: "ping_inv s0 (snd (schedule_exit n s)) = ping_inv s0 s"
  by (simp add: schedule_exit_def schedule_exit'_def Let_def)

lemma next_probe_cases:
  "(pinger os s = None \<and> next_probe os s = None) \<or>
   (\<exists>r m. pinger os s = Some r \<and>
      next_probe os s = Some (Return (fst (schedule_exit m (flow_state r))) (snd (schedule_exit m (flow_state r))))) \<or>
   (\<exists>c t. pinger os s = Some (Exit c t) \<and> next_probe os s = Some (Exit c t)) \<or>
   (\<exists>t. pinger os s = Some (Trap t) \<and> next_probe os s = Some (Trap t))"
proof (cases "pinger os s")
  case None
  then show ?thesis by (simp add: next_probe_def)
next
  case (Some x)
  then show ?thesis by (cases x) (auto simp: next_probe_def case_prod_beta Let_def)
qed

lemma after_message_inv:
  assumes "loop_inv s0 r" "ping_inv s0 s"
  shows "loop_inv s0 (after_message os b s r)"
proof -
  have id: "ident s = ident s0" using assms(2) by (simp add: ping_inv_def same_settings_def)
  have "ping_inv s0 (s\<lparr>filter_once := c, ticks := n\<rparr>)" for c n
    by (rule ping_inv_receives [OF assms(2) no_count_receives]) simp
  then show ?thesis using assms id
    by (auto simp: after_message_def install_filter_def loop_inv_def split: option.split)
qed

lemma continue_receives:
  assumes "flow_receives s m" "loop_inv s0 r" "ping_inv s0 s"
    "\<And>v s'. m = Some (Return v s') \<Longrightarrow> ping_inv s0 s' \<Longrightarrow> loop_inv s0 (f v s')"
  shows "loop_inv s0 (continue r m f)"
proof (cases m)
  case (Some x)
  then show ?thesis using assms ping_inv_receives [OF assms(3)] by (cases x) auto
qed (use assms in simp)

lemma loop_step_inv:
  assumes "loop_step os a r r'" "loop_inv s0 r" "sound s0"
  shows "loop_inv s0 r'"
  using assms(1)
proof cases
  case ends
  then show ?thesis using assms(2) by simp
next
  case checks
  then show ?thesis using assms(2) by (simp add: loop_inv_def status_def)
next
  case sends
  have p: "ping_inv s0 (flow_state x)" if "pinger os (vars r) = Some x" for x
    using ping_inv_pinger [OF that _ assms(3)] assms(2) by (simp add: loop_inv_def)
  show ?thesis using next_probe_cases [of os "vars r"] p assms(2) sends
    by (auto simp: ping_inv_exit)
next
  case (times_out n)
  then show ?thesis using assms(2) by simp
next
  case (is_ready n)
  then show ?thesis using assms(2) by simp
next
  case (empty b)
  then show ?thesis using assms(2) by simp
next
  case (packet b p stamp tv s buf)
  have "no_count (vars r) s"
    using packet(5) by (auto simp: receive_time_def gettimeofday_def split: option.splits if_splits)
  then have s: "ping_inv s0 s" using assms(2) ping_inv_receives no_count_receives by (auto simp: loop_inv_def)
  have "loop_inv s0 (r\<lparr>buffer := buf\<rparr>)"
    using assms(2) packet(4,6) by (simp add: loop_inv_def delivered_def)
  then show ?thesis
    using packet(2) continue_receives [OF receives_parse_reply assms(2) s] after_message_inv by simp
next
  case (fails b err m)
  have s: "ping_inv s0 (vars r)" using assms(2) by (simp add: loop_inv_def)
  show ?thesis unfolding fails(2)
    by (rule continue_receives [OF receives_error_msg assms(2) s])
      (use assms(2) after_message_inv [OF assms(2)] in \<open>auto split: if_splits\<close>)
next
  case sigexit
  then show ?thesis using assms(2) by (simp add: loop_inv_def)
next
  case sigstatus
  then show ?thesis using assms(2) by (simp add: loop_inv_def)
qed

interpretation ping_loop: invariant_of "\<lambda>r. unused s0 \<and> sound s0 \<and> loop_starts s0 r"
  "\<lambda>r r'. sound s0 \<and> (\<exists>a. loop_step os a r r')" "loop_inv s0" for os s0
proof
  show "unused s0 \<and> sound s0 \<and> loop_starts s0 r \<Longrightarrow> loop_inv s0 r" for r
    by (auto simp: loop_starts_def loop_inv_def ping_inv_unused)
  show "sound s0 \<and> (\<exists>a. loop_step os a r r') \<Longrightarrow> loop_inv s0 r \<Longrightarrow> loop_inv s0 r'" for r r'
    by (auto intro: loop_step_inv)
qed

lemma loop_reach_inv:
  assumes "loop_reach os s0 r" "unused s0" "sound s0"
  shows "loop_inv s0 r"
proof -
  have "reachable (\<lambda>r. unused s0 \<and> sound s0 \<and> loop_starts s0 r) (\<lambda>r r'. sound s0 \<and> (\<exists>a. loop_step os a r r')) r"
    using assms unfolding loop_reach_def by simp
  then show ?thesis by (rule ping_loop.reachable_inv)
qed

text \<open>C12: The loop of the library, over every sequence of answers of the system and signals: with a limit and
  no deadline it never sends more than \<open>npackets\<close> probes; every packet sent is a valid echo request of
  this run; each number received is counted, the counters never fall below zero, and no reply is
  counted as corrupted; every call of \<open>Feedback\<close> has a 16-bit sequence number, a time that is not
  negative and a text that fits; and the filter on the socket, if any, is the one for this run.\<close>

theorem main_loop_invariant:
  assumes "loop_reach os s0 r" "unused s0" "sound s0" "s = vars r"
  shows "(0 < npackets s0 \<and> deadline s0 = 0 \<longrightarrow> ntransmitted s \<le> npackets s0) \<and>
    ntransmitted s \<le> int (length (probes s)) \<and> list_all (good_probe s0) (probes s) \<and>
    int (card (received (rcvd_tbl s))) \<le> nreceived s \<and> 0 \<le> nrepeats s \<and> 0 \<le> nerrors s \<and> nchecksum s = 0 \<and>
    list_all feedback_fits (feedback_calls s) \<and> attached r \<in> {None, Some (filter_insns (ident s0))}"
  using loop_reach_inv [OF assms(1-3)] assms(4) by (auto simp: loop_inv_def ping_inv_def)

section \<open>Its rate\<close>

definition idle :: "ping \<Rightarrow> ping \<Rightarrow> bool" where
  "idle s s' \<longleftrightarrow> (\<not> flag s F_ADAPTIVE \<longrightarrow> same_bucket s s' \<and> \<not> flag s' F_ADAPTIVE) \<and> ntransmitted s' = ntransmitted s"

lemma idle_receives: "receives s s' \<Longrightarrow> idle s s'"
  using same_run_adaptive [of s s'] by (auto simp: receives_def idle_def same_run_def same_bucket_def)

lemma idle_trans: "idle s t \<Longrightarrow> idle t u \<Longrightarrow> idle s u"
  by (auto simp: idle_def same_bucket_def)

lemma idle_simple [simp]:
  "idle s s" "idle s (s\<lparr>exiting := b\<rparr>)" "idle s (s\<lparr>status_snapshot := b\<rparr>)" "idle s (s\<lparr>ticks := n\<rparr>)"
  "idle s (s\<lparr>filter_once := b, ticks := n\<rparr>)" "idle s (snd (schedule_exit m s))"
  by (simp_all add: idle_def same_bucket_def flag_def schedule_exit_def schedule_exit'_def Let_def)

lemma idle_message: "idle s s' \<Longrightarrow> idle s (vars (after_message os b s' r))"
  using idle_trans [of s s'] by (simp add: after_message_def install_filter_def)

lemma idle_continue:
  assumes "flow_receives s' m" "idle s s'" "vars r = s"
    "\<And>v t. m = Some (Return v t) \<Longrightarrow> idle s t \<Longrightarrow> idle s (vars (f v t))"
  shows "idle s (vars (continue r m f))"
proof -
  have "receives s' t \<Longrightarrow> idle s t" for t using idle_trans [OF assms(2)] idle_receives by blast
  then show ?thesis
  proof (cases m)
    case (Some x)
    then show ?thesis using assms \<open>\<And>t. receives s' t \<Longrightarrow> idle s t\<close> by (cases x) auto
  qed (use assms(3) in simp)
qed

lemma loop_step_vars:
  assumes "loop_step os a r r'"
  shows "idle (vars r) (vars r') \<or> (\<exists>x. pinger os (vars r) = Some x \<and> idle (flow_state x) (vars r'))"
  using assms
proof cases
  case checks
  then show ?thesis by (simp add: status_def)
next
  case sends
  show ?thesis using next_probe_cases [of os "vars r"] by (auto simp: sends)
next
  case (packet b p stamp tv s buf)
  have "no_count (vars r) s"
    using packet(5) by (auto simp: receive_time_def gettimeofday_def split: option.splits if_splits)
  then have "idle (vars r) s" using idle_receives no_count_receives by blast
  then have "idle (vars r) (vars r')" unfolding packet(2)
    by (rule idle_continue [OF receives_parse_reply _ refl]) (rule idle_message)
  then show ?thesis ..
next
  case (fails b err m)
  have "idle (vars r) (vars r')" unfolding fails(2)
    by (rule idle_continue [OF receives_error_msg _ refl]) (auto intro: idle_message)
  then show ?thesis ..
qed simp_all

text \<open>The first call of \<open>pinger\<close> fills the bucket at the first reading of the clock; from then on it is
  spent. \<open>at_rate s0 s\<close>: no probe was sent yet, or one since the bucket was filled.\<close>

definition at_rate :: "sys \<Rightarrow> ping \<Rightarrow> ping \<Rightarrow> bool" where
  "at_rate os s0 s \<longleftrightarrow> \<not> flag s F_ADAPTIVE \<and>
     (same_bucket s0 s \<and> ntransmitted s = ntransmitted s0 \<or>
      (\<exists>n s1. spends s1 s \<and> cur_time s1 = gtod os n \<and> tokens s1 = interval s0 * (preload s0 - 1) \<and>
         interval s1 = interval s0 \<and> preload s1 = preload s0 \<and> ntransmitted s1 \<in> {ntransmitted s0, ntransmitted s0 + 1}))"

lemma at_rate_idle: "at_rate os s0 s \<Longrightarrow> idle s s' \<Longrightarrow> at_rate os s0 s'"
proof -
  assume r: "at_rate os s0 s" and "idle s s'"
  then have i: "same_bucket s s'" "\<not> flag s' F_ADAPTIVE" "ntransmitted s' = ntransmitted s"
    by (auto simp: at_rate_def idle_def)
  have "spends s1 s \<Longrightarrow> spends s1 s'" for s1
    using spends_idle [OF _ i(1,3)] spends_trans by (auto simp: spends_def)
  moreover have "same_bucket s0 s \<Longrightarrow> same_bucket s0 s'" using i(1) by (simp add: same_bucket_def)
  ultimately show "at_rate os s0 s'" using r i unfolding at_rate_def by metis
qed

lemma pinger_options: "pinger os s = Some x \<Longrightarrow> options (flow_state x) = options s"
  using pinger_shape [of os s x] by (auto simp: Let_def)

lemma first_pinger:
  assumes "pinger os s = Some x" "tv_sec (cur_time s) = 0" "to_s32 (interval s * (preload s - 1)) = interval s * (preload s - 1)"
  shows "flow_state x = s \<or>
    cur_time (flow_state x) = gtod os (ticks s) \<and> tokens (flow_state x) = interval s * (preload s - 1) \<and>
    interval (flow_state x) = interval s \<and> preload (flow_state x) = preload s \<and>
    ntransmitted (flow_state x) \<in> {ntransmitted s, ntransmitted s + 1}"
proof (cases "exiting s \<or> limit_reached s")
  case True
  then have "pinger os s = Some (Return 1000 s)" by (simp add: pinger_def limit_reached_def)
  then show ?thesis using assms(1) by simp
next
  case False
  then have off: "\<not> (exiting s \<or> npackets s \<noteq> 0 \<and> ntransmitted s \<ge> npackets s \<and> deadline s = 0)"
    by (simp add: limit_reached_def)
  have "pinger_send os (s\<lparr>ticks := Suc (ticks s), cur_time := gtod os (ticks s),
      tokens := to_s32 (interval s * (preload s - 1))\<rparr>) = Some x"
    using assms(1) unfolding pinger_def if_not_P [OF off] if_P [OF assms(2)] by (simp add: gettimeofday_def)
  from pinger_send_effect [OF this] show ?thesis using assms(3) by (simp add: same_bucket_def)
qed

definition rated :: "ping \<Rightarrow> bool" where
  "rated s \<longleftrightarrow> 0 < interval s \<and> 0 < preload s \<and> interval s * preload s < 2 ^ 31 \<and> tv_sec (cur_time s) = 0 \<and> \<not> flag s F_ADAPTIVE"

lemma at_rate_pinger:
  assumes "pinger os s = Some x" "at_rate os s0 s" "rated s0" "\<forall>n. tv_sec (gtod os n) \<noteq> 0"
  shows "at_rate os s0 (flow_state x)"
proof -
  have a: "\<not> flag (flow_state x) F_ADAPTIVE"
    using assms(2) pinger_options [OF assms(1)] by (simp add: at_rate_def flag_def)
  consider "same_bucket s0 s" "ntransmitted s = ntransmitted s0" | n s1 where "spends s1 s" "cur_time s1 = gtod os n"
      "tokens s1 = interval s0 * (preload s0 - 1)" "interval s1 = interval s0" "preload s1 = preload s0"
      "ntransmitted s1 \<in> {ntransmitted s0, ntransmitted s0 + 1}"
    using assms(2) by (auto simp: at_rate_def)
  then show ?thesis
  proof cases
    case 1
    have "interval s0 \<le> interval s0 * preload s0"
      using assms(3) mult_left_mono [of 1 "preload s0" "interval s0"] by (simp add: rated_def)
    then have small: "to_s32 (interval s * (preload s - 1)) = interval s * (preload s - 1)"
      using assms(3) 1 
      by (intro to_s32_id) (auto simp: rated_def same_bucket_def right_diff_distrib intro: order_trans [of _ 0])
    have "tv_sec (cur_time s) = 0" using assms(3) 1 by (simp add: rated_def same_bucket_def)
    from first_pinger [OF assms(1) this small] show ?thesis
    proof (elim disjE)
      assume "flow_state x = s"
      then show ?thesis using assms(2) by simp
    next
      assume f: "cur_time (flow_state x) = gtod os (ticks s) \<and> tokens (flow_state x) = interval s * (preload s - 1) \<and>
        interval (flow_state x) = interval s \<and> preload (flow_state x) = preload s \<and>
        ntransmitted (flow_state x) \<in> {ntransmitted s, ntransmitted s + 1}"
      then have "bucket_ok (flow_state x)"
        using assms(3,4) 1 by (auto simp: bucket_ok_def rated_def same_bucket_def)
      then have "spends (flow_state x) (flow_state x)" by (simp add: spends_def)
      then show ?thesis using f 1 a unfolding at_rate_def same_bucket_def by auto
    qed
  next
    case 2
    then have "spends s1 (flow_state x)"
      using spends_trans [OF 2(1) pinger_spends [OF assms(1) _ assms(4)]] by (simp add: spends_def [of s1 s])
    then show ?thesis using 2 a unfolding at_rate_def by blast
  qed
qed

lemma loop_rate:
  assumes "loop_reach os s0 r" "rated s0" "\<forall>n. tv_sec (gtod os n) \<noteq> 0"
  shows "at_rate os s0 (vars r)"
  using assms(1) unfolding loop_reach_def
proof (induction rule: reachable.induct)
  case (start r)
  then show ?case using assms(2) by (simp add: loop_starts_def at_rate_def rated_def same_bucket_def)
next
  case (move r r')
  then obtain a where "loop_step os a r r'" by blast
  from loop_step_vars [OF this] show ?case
    using move.IH at_rate_idle at_rate_pinger [OF _ move.IH assms(2,3)] by blast
qed

text \<open>C13: The rate of the loop: without adaptive mode, whatever comes in, the probes after the first one are
  paid for by the time since the bucket was filled at the first reading of the clock, and by the
  \<open>preload - 1\<close> intervals it was filled with, each at the price of the interval less at most 999
  microseconds. Replies, errors, signals and polls do not change the rate.\<close>

theorem main_loop_rate:
  assumes "loop_reach os s0 r" "unused s0" "rated s0" "\<forall>n. tv_sec (gtod os n) \<noteq> 0" "0 < ntransmitted (vars r)"
  shows "\<exists>n. (1000 * interval s0 - 999) * (ntransmitted (vars r) - 1) \<le>
    1000 * (interval s0 * (preload s0 - 1)) + (TIMEVAL_TO_MICROSEC (cur_time (vars r)) - TIMEVAL_TO_MICROSEC (gtod os n))"
proof -
  have nt: "ntransmitted s0 = 0" using assms(2) by (simp add: unused_def)
  have i: "0 < interval s0" using assms(3) by (simp add: rated_def)
  obtain n s1 where s1: "spends s1 (vars r)" "cur_time s1 = gtod os n" "tokens s1 = interval s0 * (preload s0 - 1)"
    "interval s1 = interval s0" "ntransmitted s1 \<le> 1"
    using loop_rate [OF assms(1,3,4)] assms(5) nt by (auto simp: at_rate_def)
  have "(1000 * interval s0 - 999) * (ntransmitted (vars r) - 1) \<le>
      (1000 * interval s0 - 999) * (ntransmitted (vars r) - ntransmitted s1)"
    using s1(5) i by (intro mult_left_mono) simp_all
  also have "\<dots> \<le> 1000 * tokens s1 + (TIMEVAL_TO_MICROSEC (cur_time (vars r)) - TIMEVAL_TO_MICROSEC (cur_time s1))"
    using s1(1,4) by (auto simp: spends_def bucket_ok_def)
  finally show ?thesis using s1(2,3) by auto
qed

section \<open>From the probes to the client\<close>

text \<open>What \<open>Feedback\<close> makes of a call, and the calls it drops: no time and no error.\<close>

definition feedback_of :: "int \<times> int \<times> u8 list option \<Rightarrow> feedback" where
  "feedback_of = (\<lambda>(q, t, e). \<lparr>fb_seq = q, fb_triptime = if t \<noteq> 0 then triptime_text t else [],
     fb_error = (case e of None \<Rightarrow> [] | Some x \<Rightarrow> x)\<rparr>)"

definition tells :: "int \<times> int \<times> u8 list option \<Rightarrow> bool" where
  "tells = (\<lambda>(q, t, e). t \<noteq> 0 \<or> e \<noteq> None)"

lemma Feedback_fits:
  assumes "feedback_fits (q, t, e)" "memory p"
  shows "handle_event p (Probe q t e) s =
    Next (if tells (q, t, e) then s\<lparr>feedbacks := feedbacks s @ [feedback_of (q, t, e)]\<rparr> else s)"
proof -
  have "int (nat t) = t" "nat t < 2 ^ 63" using assms(1) by (simp_all add: nat_less_iff)
  then have l: "length (triptime_text t) < 32" using length_triptime_text [of "nat t"] by simp
  have q: "to_s32 q = q" using assms(1) by (intro to_s32_id) simp_all
  have e: "length (case e of None \<Rightarrow> [] | Some x \<Rightarrow> x) < 64" using assms(1) by (cases e) simp_all
  show ?thesis using assms(2) l e
    by (cases "t = 0"; cases e) (simp_all add: Feedback_def tells_def feedback_of_def q not_le Let_def)
qed

lemma Feedback_all:
  assumes "list_all feedback_fits cs" "memory p"
  shows "for_each (\<lambda>(q, t, e). handle_event p (Probe q t e)) cs s =
    Next (s\<lparr>feedbacks := feedbacks s @ map feedback_of (filter tells cs)\<rparr>)"
  using assms(1)
proof (induction cs arbitrary: s)
  case (Cons c cs)
  obtain q t e where c: "c = (q, t, e)" by (cases c)
  show ?case using Cons Feedback_fits [of q t e p s] assms(2) by (simp add: c)
qed simp

lemma feedback_of_ok: "feedback_fits c \<Longrightarrow> feedback_ok (feedback_of c)"
proof -
  assume f: "feedback_fits c"
  obtain q t e where c: "c = (q, t, e)" by (cases c)
  have "int (nat t) = t" "nat t < 2 ^ 63" using f by (simp_all add: c nat_less_iff)
  then have "length (triptime_text t) < 32" using length_triptime_text [of "nat t"] by simp
  then show ?thesis using f triptime_text_chars [of t]
    by (cases e) (simp_all add: c feedback_ok_def feedback_of_def)
qed

text \<open>C11: From the probes to the client: whatever the loop of the library has reported in any of its states
  is taken by the server, in order, without harm to its invariant; and the next round of the timer
  sends it all to the first websocket, in one frame that parses to the array of the reports with
  their sequence numbers, behind the feedback that waited already.\<close>

theorem ping_reaches_client:
  assumes "loop_reach os s0 r" "unused s0" "sound s0" "memory p" "server_inv srv"
    "fs = feedbacks srv @ map feedback_of (filter tells (feedback_calls (vars r)))" "fs \<noteq> []"
  shows "\<exists>ret. (\<forall>fp. exact_ints fp \<longrightarrow> cJSON_Parse fp ret = Ok (feedback_array fs)) \<and>
    and_then (for_each (\<lambda>(q, t, e). handle_event p (Probe q t e)) (feedback_calls (vars r)) srv)
      (handle_event p (Timer_round conns)) =
    (case find is_websocket conns of None \<Rightarrow> Next (srv\<lparr>feedbacks := fs\<rparr>)
     | Some conn \<Rightarrow> Next (send_to conn [Frame ret] (srv\<lparr>feedbacks := []\<rparr>)))"
proof -
  have fits: "list_all feedback_fits (feedback_calls (vars r))"
    using loop_reach_inv [OF assms(1-3)] by (simp add: loop_inv_def ping_inv_def)
  then have "\<forall>fb\<in>set (map feedback_of (filter tells (feedback_calls (vars r)))). feedback_ok fb"
    using feedback_of_ok by (auto simp: list_all_iff)
  then have inv: "server_inv (srv\<lparr>feedbacks := fs\<rparr>)"
    using assms(5,6) by (auto simp: server_inv_def)
  have "for_each (\<lambda>(q, t, e). handle_event p (Probe q t e)) (feedback_calls (vars r)) srv = Next (srv\<lparr>feedbacks := fs\<rparr>)"
    using Feedback_all [OF fits assms(4)] assms(6) by simp
  then show ?thesis
    using timer_round_frame [OF inv, of p conns] assms(7) by (simp cong: option.case_cong) blast
qed

section \<open>A short run\<close>

text \<open>One probe, and then an ICMP error about it from the error queue.\<close>

definition lab_start :: ping where
  "lab_start = ping_globals\<lparr>timing := True, preload := 1\<rparr>"

definition lab_sent :: ping where
  "lab_sent = advance_ntransmitted (snd (send_probe lab_sys
     (lab_start\<lparr>ticks := 1, cur_time := \<lparr>tv_sec = 100, tv_usec = 0\<rparr>, tokens := 0\<rparr>)))"

definition lab_error :: errmsg where
  "lab_error = \<lparr>em_res = 8, em_cmsgs = [(SOL_IP, IP_RECVERR, \<lparr>ee_errno = 113, ee_origin = 2, ee_type = 3, ee_code = 1, ee_info = 0\<rparr>)],
     em_icmph = [8, 0, 0, 0, 0, 0, 0, 1], em_target = 0\<rparr>"

definition lab_run :: "phase \<Rightarrow> ping \<Rightarrow> run" where
  "lab_run ph s = \<lparr>at_phase = ph, vars = s, buffer = replicate 192 0, attached = None\<rparr>"

lemma send_probe_more [simp]:
  "acked (snd (send_probe os s)) = acked s" "exiting (snd (send_probe os s)) = exiting s"
  "interval (snd (send_probe os s)) = interval s"
  by (simp_all add: send_probe_def Let_def write_out_def gettimeofday_def case_prod_beta)

lemma send_probe_sent: "0 \<le> datalen s \<Longrightarrow> \<forall>n. sendmsg os n = datalen s + 8 \<Longrightarrow> fst (send_probe os s) = 0"
  by (simp add: send_probe_def Let_def write_out_def gettimeofday_def case_prod_beta)

lemma lab_sent_fields:
  "ntransmitted lab_sent = 1" "acked lab_sent = 0" "options lab_sent = 0" "npackets lab_sent = 0" "deadline lab_sent = 0"
  "interval lab_sent = 1000" "nreceived lab_sent = 0" "nerrors lab_sent = 0" "whereto lab_sent = 0" "ident lab_sent = 0"
  "feedback_calls lab_sent = []" "exiting lab_sent = False"
  using advance_frame [of "snd (send_probe lab_sys (lab_start\<lparr>ticks := 1, cur_time := \<lparr>tv_sec = 100, tv_usec = 0\<rparr>, tokens := 0\<rparr>))"]
  by (simp_all add: lab_sent_def send_probe_frame(2) lab_start_def ping_globals_def same_bucket_def)
    (simp_all add: advance_ntransmitted_def send_probe_frame(2) Let_def)

lemma lab_pinger: "pinger lab_sys lab_start = Some (Next lab_sent)"
proof -
  have "fst (send_probe lab_sys (lab_start\<lparr>ticks := 1, cur_time := \<lparr>tv_sec = 100, tv_usec = 0\<rparr>, tokens := 0\<rparr>)) = 0"
    by (rule send_probe_sent) (simp_all add: lab_start_def ping_globals_def lab_sys_def)
  then show ?thesis
    by (simp add: pinger_def pinger_send_def gettimeofday_def lab_start_def ping_globals_def flag_def Let_def
        case_prod_beta lab_sent_def to_s32_def lab_sys_def timerclear_def)
qed

text \<open>The run up to the wait for the reply, and the error that comes instead.\<close>

definition lab_text :: "u8 list" where
  "lab_text = line ''Destination Host Unreachable''"

definition lab_told :: ping where
  "lab_told = Feedback_call 1 0 (Some lab_text) ((acknowledge 1 lab_sent)\<lparr>working_recverr := True, nerrors := 1\<rparr>)"

lemma lab_waits: "loop_reach lab_sys lab_start (lab_run (Receiving True) lab_sent)"
proof -
  let ?reach = "loop_reach lab_sys lab_start"
  have move: "?reach r \<Longrightarrow> loop_step lab_sys a r r' \<Longrightarrow> ?reach r'" for a r r'
    unfolding loop_reach_def by (rule reachable.move) auto
  have 1: "?reach (lab_run Checking lab_start)"
    unfolding loop_reach_def by (rule reachable.start) (simp add: loop_starts_def lab_run_def lab_start_def ping_globals_def)
  have 2: "?reach (lab_run Sending lab_start)"
    using move [OF 1 checks] by (simp add: lab_run_def loop_ends_def lab_start_def ping_globals_def)
  have probe: "next_probe lab_sys lab_start = Some (Return 1 lab_sent)"
    by (simp add: next_probe_def lab_pinger schedule_exit_def lab_sent_fields) (simp add: lab_sys_def)
  have "plan 1 lab_sent = Polling 10"
    by (simp add: plan_def SCHINT_def lab_sent_fields flag_def MININTERVAL_def HZ_def in_flight_def)
  then have 3: "?reach (lab_run (Polling 10) lab_sent)"
    using move [OF 2 sends] by (simp add: lab_run_def probe)
  show ?thesis using move [OF 3 is_ready [where n = 10]] by (simp add: lab_run_def)
qed

lemma lab_receives: "receive_error_msg lab_sys lab_error 113 lab_sent = Some (Return (1, 113) lab_told)"
proof -
  have o: "options (acknowledge 1 lab_sent) = 0" "nerrors (acknowledge 1 lab_sent) = 0"
    using lab_sent_fields by (simp_all add: acknowledge_def Let_def)
  have "(be16 [0, 1] :: u16) = 1" "(le16 [0, 0, 0, 1] :: u16) = 0" by (simp_all add: be16_def le16_def)
  then show ?thesis using lab_sent_fields
    by (simp add: receive_error_msg_def lab_error_def SOL_IP_def IP_RECVERR_def Let_def o flag_def print_timestamp_def
        pr_icmph_def icmp_text_def unreach_text_def lab_told_def lab_text_def Feedback_call_def)
qed

lemma lab_reach: "loop_reach lab_sys lab_start (lab_run Checking lab_told)"
proof -
  have "in_flight lab_told = 0"
    using lab_sent_fields by (simp add: in_flight_def lab_told_def Feedback_call_def acknowledge_def Let_def)
  then have "loop_step lab_sys (Failed 113 lab_error) (lab_run (Receiving True) lab_sent) (lab_run Checking lab_told)"
    using fails [where r = "lab_run (Receiving True) lab_sent" and err = 113 and m = lab_error and os = lab_sys]
    by (simp add: lab_run_def lab_receives after_message_def EAGAIN_def EINTR_def)
  then show ?thesis using lab_waits unfolding loop_reach_def by (blast intro: reachable.move)
qed

lemma lab_start_ok: "unused lab_start" "sound lab_start" "rated lab_start"
  by (simp_all add: unused_def sound_def rated_def lab_start_def ping_globals_def flag_def timerclear_def)

lemma lab_told_fields:
  "ntransmitted lab_told = 1" "feedback_calls lab_told = [(1, 0, Some lab_text)]" "nerrors lab_told = 1"
  using lab_sent_fields by (simp_all add: lab_told_def Feedback_call_def acknowledge_def Let_def)

theorem main_loop_invariant_witness:
  "list_all (good_probe lab_start) (probes lab_told) \<and> 1 \<le> length (probes lab_told) \<and>
    list_all feedback_fits [(1, 0, Some lab_text)] \<and> nchecksum lab_told = 0"
  using main_loop_invariant [OF lab_reach lab_start_ok(1,2) refl] by (simp add: lab_run_def lab_told_fields)

theorem main_loop_rate_witness:
  "\<exists>n. (1000 * interval lab_start - 999) * (ntransmitted lab_told - 1) \<le>
    1000 * (interval lab_start * (preload lab_start - 1)) +
      (TIMEVAL_TO_MICROSEC (cur_time lab_told) - TIMEVAL_TO_MICROSEC (gtod lab_sys n))"
  using main_loop_rate [OF lab_reach lab_start_ok(1,3)] by (simp add: lab_run_def lab_told_fields lab_sys_def)

theorem ping_reaches_client_witness:
  "\<exists>ret. (\<forall>fp. exact_ints fp \<longrightarrow> cJSON_Parse fp ret = Ok (feedback_array [feedback_of (1, 0, Some lab_text)])) \<and>
    and_then (for_each (\<lambda>(q, t, e). handle_event lab_platform (Probe q t e)) [(1, 0, Some lab_text)] server_init)
      (handle_event lab_platform (Timer_round [(lab_conn lab_env)\<lparr>is_websocket := True\<rparr>])) =
    Next (send_to ((lab_conn lab_env)\<lparr>is_websocket := True\<rparr>) [Frame ret] (server_init\<lparr>feedbacks := []\<rparr>))"
  using ping_reaches_client [OF lab_reach lab_start_ok(1,2) _ server_init_inv refl, of lab_platform "[(lab_conn lab_env)\<lparr>is_websocket := True\<rparr>]"]
  by (simp add: lab_run_def lab_told_fields tells_def server_init_def lab_platform_def)

end
