(* ===== verification/Ping_Start.thy ===== *)
theory Ping_Start
  imports Ping_Main
begin

text \<open>
  The start of the ping library, \<open>ping_main\<close> of monitor/ping.c as it is compiled into the server, with
  \<open>limit_capabilities\<close> and \<open>sock_setbufs\<close> of monitor/ping_common.c: from the target to the state in
  which \<open>main_loop\<close> begins, or to the end of the program. The reading of the command line is not compiled.
  What is only printed, the name of the host among it, is left out.
\<close>

section \<open>The system\<close>

text \<open>
  A call of the system, options of sockets with the bytes given to them, and the call after which
  the program has its answers: \<open>result\<close> and \<open>error\<close> by the number of the call.
\<close>

datatype syscall =
  Seteuid | Socket_raw | Socket_dgram | Setsockopt int string "u8 list" | Ioctl_ifindex int | Connect u32 | Bind u32
| Getsockname | Getsockopt_rcvbuf | Close int

record netsys =
  result :: "nat \<Rightarrow> int"
  error :: "nat \<Rightarrow> int"
  aton :: "u8 list \<Rightarrow> u32 option"
  resolver :: "u8 list \<Rightarrow> u32 option"
  own_address :: u32
  own_uid :: int
  heap :: bool

text \<open>The variables of monitor/ping.c beside those of \<open>ping\<close>; only the command line sets most of them.\<close>

record start =
  pvars :: ping
  icmp_sock :: int
  source :: u32
  device :: "u8 list option"
  pmtudisc :: int
  settos :: int
  broadcast_pings :: int
  route :: "u32 list"
  ts_type :: int
  optlen :: int
  ttl_opt :: int
  sndbuf :: int
  mark :: int
  calls :: "syscall list"

definition start_globals :: "ping \<Rightarrow> start" where
  "start_globals s = \<lparr>pvars = s, icmp_sock = 0, source = 0, device = None, pmtudisc = -1, settos = 0, broadcast_pings = 0,
     route = [], ts_type = 0, optlen = 0, ttl_opt = 0, sndbuf = 0, mark = 0, calls = []\<rparr>"

definition sys_call :: "netsys \<Rightarrow> syscall \<Rightarrow> start \<Rightarrow> int \<times> int \<times> start" where
  "sys_call ns c st = (result ns (length (calls st)), error ns (length (calls st)), st\<lparr>calls := calls st @ [c]\<rparr>)"

text \<open>A call whose failure ends the program with 2, and one whose failure is only reported.\<close>

definition must :: "netsys \<Rightarrow> syscall \<Rightarrow> start \<Rightarrow> (unit, start) flow" where
  "must ns c st = (let (r, e, st) = sys_call ns c st in if r < 0 then Exit 2 st else Next st)"

definition may :: "netsys \<Rightarrow> syscall \<Rightarrow> start \<Rightarrow> start" where
  "may ns c st = snd (snd (sys_call ns c st))"

definition if_do :: "bool \<Rightarrow> (start \<Rightarrow> (unit, start) flow) \<Rightarrow> start \<Rightarrow> (unit, start) flow" where
  "if_do b f st = (if b then f st else Next st)"

definition IN_MULTICAST :: "u32 \<Rightarrow> bool" where
  "IN_MULTICAST a \<longleftrightarrow> a AND 0xf0000000 = 0xe0000000"

definition set_sockopt :: "string \<Rightarrow> int \<Rightarrow> start \<Rightarrow> syscall" where
  "set_sockopt name v st = Setsockopt (icmp_sock st) name (le_store 4 v)"

section \<open>The steps of \<open>ping_main\<close>\<close>

text \<open>\<open>limit_capabilities\<close>, the raw socket with raised rights, and \<open>preload\<close>.\<close>

definition limit_capabilities :: "netsys \<Rightarrow> start \<Rightarrow> (unit, start) flow" where
  "limit_capabilities ns st =
     (let st = st\<lparr>pvars := (pvars st)\<lparr>uid := own_uid ns\<rparr>\<rparr>;
          (r, e, st) = sys_call ns Seteuid st
      in if r \<noteq> 0 then Exit (-1) st else Next st)"

text \<open>The value is \<open>socket_errno\<close>.\<close>

definition open_socket :: "netsys \<Rightarrow> start \<Rightarrow> int \<times> start" where
  "open_socket ns st =
     (let st = may ns Seteuid st;
          (r, e, st) = sys_call ns Socket_raw st;
          st = may ns Seteuid (st\<lparr>icmp_sock := r\<rparr>)
      in (e, st\<lparr>pvars := (pvars st)\<lparr>preload := 1\<rparr>\<rparr>))"

definition find_target :: "netsys \<Rightarrow> int \<Rightarrow> u8 list \<Rightarrow> start \<Rightarrow> (unit, start) flow" where
  "find_target ns argc target st =
     (case aton ns target of
        Some a \<Rightarrow>
          Next (st\<lparr>pvars := (if argc = 1 then set_flag F_NUMERIC (pvars st) else pvars st)\<lparr>whereto := a\<rparr>\<rparr>)
      | None \<Rightarrow>
          (case resolver ns target of
             None \<Rightarrow> Exit 2 (st\<lparr>pvars := (pvars st)\<lparr>whereto := 0\<rparr>\<rparr>)
           | Some a \<Rightarrow> Next (st\<lparr>pvars := (pvars st)\<lparr>whereto := a\<rparr>\<rparr>)))"

text \<open>The probing socket bound to the device, if one is given.\<close>

definition bind_probe :: "netsys \<Rightarrow> int \<Rightarrow> u8 list \<Rightarrow> start \<Rightarrow> (unit, start) flow" where
  "bind_probe ns probe_fd dev st =
     (let st = may ns Seteuid st;
          (rc, e, st) = sys_call ns (Setsockopt probe_fd ''SO_BINDTODEVICE'' (dev @ [0])) st;
          st = may ns Seteuid st
      in if rc = -1 then
           (if IN_MULTICAST (ntohl (whereto (pvars st))) then
              and_then (must ns (Ioctl_ifindex probe_fd) st)
                (must ns (Setsockopt probe_fd ''IP_MULTICAST_IF'' []))
            else Exit 2 st)
         else Next st)"

text \<open>The connection of the probing socket; a broadcast address needs the option \<open>-b\<close>.\<close>

definition connect_probe :: "netsys \<Rightarrow> int \<Rightarrow> start \<Rightarrow> (unit, start) flow" where
  "connect_probe ns probe_fd st =
     (let dst = (if route st \<noteq> [] then hd (route st) else whereto (pvars st));
          (r, e, st) = sys_call ns (Connect dst) st
      in if r = -1 then
           (if e = 13 then
              (if broadcast_pings st = 0 then Exit 2 st
               else and_then (must ns (Setsockopt probe_fd ''SO_BROADCAST'' (le_store 4 (broadcast_pings st))) st)
                      (must ns (Connect dst)))
            else Exit 2 st)
         else Next st)"

definition find_source :: "netsys \<Rightarrow> start \<Rightarrow> (unit, start) flow" where
  "find_source ns st =
     (let (probe_fd, e, st) = sys_call ns Socket_dgram st
      in if probe_fd < 0 then Exit 2 st
         else and_then (case device st of None \<Rightarrow> Next st | Some dev \<Rightarrow> bind_probe ns probe_fd dev st)
           (\<lambda>st. let st = (if settos st \<noteq> 0 then may ns (Setsockopt probe_fd ''IP_TOS'' (le_store 4 (settos st))) st else st)
                 in and_then (connect_probe ns probe_fd st)
                   (\<lambda>st. and_then (must ns Getsockname st)
                     (\<lambda>st. Next (may ns (Close probe_fd) (st\<lparr>source := own_address ns\<rparr>))))))"

text \<open>The path MTU discovery, forced for broadcast and multicast.\<close>

definition choose_pmtudisc :: "start \<Rightarrow> (unit, start) flow" where
  "choose_pmtudisc st =
     (if broadcast_pings st \<noteq> 0 \<or> IN_MULTICAST (ntohl (whereto (pvars st))) then
        (if uid (pvars st) \<noteq> 0 \<and> (interval (pvars st) < 1000 \<or> pmtudisc st \<ge> 0 \<and> pmtudisc st \<noteq> 2) then Exit 2 st
         else Next (if pmtudisc st < 0 then st\<lparr>pmtudisc := 2\<rparr> else st))
      else Next st)"

text \<open>The mask of \<open>ICMP_FILTER\<close>: a type is dropped when its bit is set.\<close>

definition icmp_filter_data :: u32 where
  "icmp_filter_data = NOT (push_bit 4 1 OR push_bit 3 1 OR push_bit 11 1 OR push_bit 12 1 OR push_bit 5 1 OR push_bit 0 1)"

section \<open>Options of the IP header\<close>

text \<open>An address as it lies in memory, and the 40 bytes of \<open>rspace\<close> for each of the three options.\<close>

definition address_bytes :: "u32 \<Rightarrow> u8 list" where
  "address_bytes a = map (\<lambda>i. ucast (drop_bit (8 * i) a)) [0, 1, 2, 3]"

definition record_route :: "u8 list" where
  "record_route = [1, 7, 39, 4] @ replicate 36 0"

text \<open>The bytes of a time stamp option with a list of addresses, each followed by room for a time.\<close>

definition timestamp_option :: "int \<Rightarrow> u32 list \<Rightarrow> u8 list" where
  "timestamp_option ts rt =
     (let len = (if ts = 0 then 40 else if ts = 3 then 4 + length rt * 8 else 36);
          body = (if ts = 3 then concat (map (\<lambda>a. address_bytes a @ replicate 4 0) rt) else [])
      in take len ([68, of_nat len, 5, of_int ts] @ body @ replicate 36 0))"

definition source_route :: "bool \<Rightarrow> u32 list \<Rightarrow> u8 list" where
  "source_route strict rt =
     [1, if strict then 137 else 131, of_nat (3 + length rt * 4), 4] @ concat (map address_bytes rt)"

definition ip_options :: "netsys \<Rightarrow> start \<Rightarrow> (unit, start) flow" where
  "ip_options ns st =
     and_then (if_do (flag (pvars st) F_RROUTE)
         (\<lambda>st. must ns (Setsockopt (icmp_sock st) ''IP_OPTIONS'' record_route) (st\<lparr>optlen := 40\<rparr>)) st)
     (\<lambda>st. and_then (if_do (flag (pvars st) F_TIMESTAMP)
         (\<lambda>st. let space = timestamp_option (ts_type st) (route st);
                   (r, e, st) = sys_call ns (Setsockopt (icmp_sock st) ''IP_OPTIONS'' space) st
               in and_then (if_do (r < 0) (must ns (Setsockopt (icmp_sock st) ''IP_OPTIONS'' (space[3 := 2]))) st)
                    (\<lambda>st. Next (st\<lparr>optlen := 40\<rparr>))) st)
     (\<lambda>st. if_do (flag (pvars st) F_SOURCEROUTE)
         (\<lambda>st. and_then (must ns (Setsockopt (icmp_sock st) ''IP_OPTIONS''
                   (source_route (flag (pvars st) F_SO_DONTROUTE) (route st))) st)
               (\<lambda>st. Next (st\<lparr>optlen := 40\<rparr>))) st))"

section \<open>Buffers and sizes\<close>

text \<open>\<open>sock_setbufs\<close>: the answer of \<open>getsockopt\<close> only decides about a warning.\<close>

definition sock_setbufs :: "netsys \<Rightarrow> int \<Rightarrow> start \<Rightarrow> start" where
  "sock_setbufs ns alloc st =
     (let st = (if sndbuf st = 0 then st\<lparr>sndbuf := alloc\<rparr> else st);
          st = may ns (set_sockopt ''SO_SNDBUF'' (sndbuf st) st) st;
          rcvbuf = to_s32 (alloc * preload (pvars st));
          hold = (if rcvbuf < 65536 then 65536 else rcvbuf);
          st = may ns (set_sockopt ''SO_RCVBUF'' hold st) st
      in may ns Getsockopt_rcvbuf st)"

definition packet_estimate :: "int \<Rightarrow> int \<Rightarrow> int" where
  "packet_estimate dlen olen = (let hold = dlen + 8 in hold + ((hold + 511) sdiv 512) * (olen + 20 + 16 + 64 + 160))"

text \<open>
  The size of the packets: the comparison with \<open>sizeof(outpack) - 8\<close> is unsigned, the first one is
  not. Then \<open>timing\<close>, the receive buffer and \<open>setup\<close>.
\<close>

definition check_size :: "start \<Rightarrow> (unit, start) flow" where
  "check_size st =
     (let d = datalen (pvars st)
      in if d > 0xFFFF - 8 - optlen st - 20 \<and> (uid (pvars st) \<noteq> 0 \<or> to_u64 d > int maxpacket - 8) then Exit 2 st
         else Next (st\<lparr>pvars := (if to_u64 d \<ge> 16 then (pvars st)\<lparr>timing := True\<rparr> else pvars st)\<rparr>))"

definition run_setup :: "netsys \<Rightarrow> sys \<Rightarrow> start \<Rightarrow> (unit, start) flow" where
  "run_setup ns os st =
     (if \<not> heap ns then Exit 2 st
      else case ping_setup os (pvars st) of
        Next s \<Rightarrow> Next (st\<lparr>pvars := s\<rparr>)
      | Return r s \<Rightarrow> Return r (st\<lparr>pvars := s\<rparr>)
      | Exit c s \<Rightarrow> Exit c (st\<lparr>pvars := s\<rparr>)
      | Trap s \<Rightarrow> Trap (st\<lparr>pvars := s\<rparr>))"

section \<open>\<open>ping_main\<close>\<close>

text \<open>The part from the raw socket to the buffers; \<open>cmsg\<close> for a device only adds control data.\<close>

definition configure_socket :: "netsys \<Rightarrow> start \<Rightarrow> (unit, start) flow" where
  "configure_socket ns st =
     and_then (if_do (device st \<noteq> None) (\<lambda>st. must ns (Ioctl_ifindex (icmp_sock st)) st) st)
     (\<lambda>st. and_then (choose_pmtudisc st)
     (\<lambda>st. and_then (if_do (pmtudisc st \<ge> 0) (\<lambda>st. must ns (set_sockopt ''IP_MTU_DISCOVER'' (pmtudisc st) st) st) st)
     (\<lambda>st. and_then (if_do (flag (pvars st) F_SOURCEROUTE) (\<lambda>st. must ns (Bind (source st)) st) st)
     (\<lambda>st. let st = may ns (set_sockopt ''ICMP_FILTER'' (uint icmp_filter_data) st) st;
               st = may ns (set_sockopt ''IP_RECVERR'' 1 st) st
           in and_then (ip_options ns st)
     (\<lambda>st. let st = sock_setbufs ns (packet_estimate (datalen (pvars st)) (optlen st)) st
           in and_then (if_do (broadcast_pings st \<noteq> 0) (\<lambda>st. must ns (set_sockopt ''SO_BROADCAST'' (broadcast_pings st) st) st) st)
     (\<lambda>st. and_then (if_do (flag (pvars st) F_NOLOOP) (\<lambda>st. must ns (Setsockopt (icmp_sock st) ''IP_MULTICAST_LOOP'' [0]) st) st)
     (\<lambda>st. if_do (flag (pvars st) F_TTL) (\<lambda>st. must ns (set_sockopt ''IP_TTL'' (ttl_opt st) st) st) st)))))))"

text \<open>\<open>Next\<close> is the call of \<open>main_loop\<close>.\<close>

definition ping_main :: "netsys \<Rightarrow> sys \<Rightarrow> int \<Rightarrow> u8 list \<Rightarrow> start \<Rightarrow> (unit, start) flow" where
  "ping_main ns os argc target st =
     and_then (limit_capabilities ns st)
     (\<lambda>st. let (socket_errno, st) = open_socket ns st
           in and_then (find_target ns argc target st)
     (\<lambda>st. and_then (if_do (source st = 0) (find_source ns) st)
     (\<lambda>st. let st = (if whereto (pvars st) = 0 then st\<lparr>pvars := (pvars st)\<lparr>whereto := source st\<rparr>\<rparr> else st)
           in if icmp_sock st < 0 then Exit 2 st
              else and_then (configure_socket ns st)
     (\<lambda>st. and_then (check_size st) (run_setup ns os)))))"

section \<open>What \<open>ping_main\<close> leaves\<close>

text \<open>\<open>enters P m\<close>: \<open>m\<close> goes on in a state with \<open>P\<close>, or it ends the program with 2 or -1; it neither
  returns nor goes wrong.\<close>

fun enters :: "(start \<Rightarrow> bool) \<Rightarrow> (unit, start) flow \<Rightarrow> bool" where
  "enters P (Next st) \<longleftrightarrow> P st"
| "enters P (Return r st) \<longleftrightarrow> False"
| "enters P (Exit c st) \<longleftrightarrow> c = 2 \<or> c = -1"
| "enters P (Trap st) \<longleftrightarrow> False"

lemma enters_then: "enters P m \<Longrightarrow> (\<And>st. P st \<Longrightarrow> enters Q (f st)) \<Longrightarrow> enters Q (and_then m f)"
  by (cases m) auto

text \<open>The settings in the library, on the way to the loop: only the address, the user and the option for
  numeric output differ from the initialised variables.\<close>

definition settings :: "ping \<Rightarrow> bool" where
  "settings s \<longleftrightarrow> unused s \<and> datalen s = 56 \<and> interval s = 1000 \<and> options s \<in> {0, F_NUMERIC} \<and> tv_sec (cur_time s) = 0"

definition prepared :: "start \<Rightarrow> bool" where
  "prepared st \<longleftrightarrow> settings (pvars st) \<and> preload (pvars st) = 1 \<and> device st = None \<and> settos st = 0 \<and>
     broadcast_pings st = 0 \<and> route st = [] \<and> optlen st = 0 \<and> pmtudisc st \<in> {-1, 2}"

lemma settings_flags: "settings s \<Longrightarrow> F AND F_NUMERIC = 0 \<Longrightarrow> \<not> flag s F"
  by (auto simp: settings_def flag_def and.commute)

lemma prepared_flags [simp]:
  assumes "prepared st"
  shows "\<not> flag (pvars st) F_RROUTE" "\<not> flag (pvars st) F_TIMESTAMP" "\<not> flag (pvars st) F_SOURCEROUTE"
    "\<not> flag (pvars st) F_NOLOOP" "\<not> flag (pvars st) F_TTL"
proof -
  have "settings (pvars st)" using assms by (simp add: prepared_def)
  note off = settings_flags [OF this]
  show "\<not> flag (pvars st) F_RROUTE" "\<not> flag (pvars st) F_TIMESTAMP" "\<not> flag (pvars st) F_SOURCEROUTE"
    "\<not> flag (pvars st) F_NOLOOP" "\<not> flag (pvars st) F_TTL"
    by (rule off, simp add: F_defs)+
qed

lemma prepared_calls [simp]:
  "prepared (st\<lparr>calls := c\<rparr>) = prepared st" "prepared (st\<lparr>icmp_sock := i\<rparr>) = prepared st"
  "prepared (st\<lparr>source := a\<rparr>) = prepared st" "prepared (st\<lparr>sndbuf := b\<rparr>) = prepared st"
  "prepared st \<Longrightarrow> prepared (st\<lparr>pmtudisc := 2\<rparr>)"
  by (simp_all add: prepared_def)

lemma prepared_may [simp]: "prepared (may ns c st) = prepared st"
  by (simp add: may_def sys_call_def)

lemma prepared_must: "prepared st \<Longrightarrow> enters prepared (must ns c st)"
  by (simp add: must_def sys_call_def)

lemma prepared_target: "prepared st \<Longrightarrow> enters prepared (find_target ns argc target st)"
  by (auto simp: find_target_def prepared_def settings_def unused_def set_flag_def split: option.split)

lemma prepared_source: "prepared st \<Longrightarrow> enters prepared (find_source ns st)"
proof -
  assume st: "prepared st"
  have connect: "prepared t \<Longrightarrow> enters prepared (connect_probe ns fd t)" for t fd
    by (simp add: connect_probe_def sys_call_def Let_def) (simp add: prepared_def)
  have "device st = None" using st by (simp add: prepared_def)
  then show ?thesis using st
    by (auto simp: find_source_def sys_call_def Let_def intro!: enters_then [OF connect] enters_then [OF prepared_must])
qed

lemma prepared_socket: "prepared st \<Longrightarrow> enters prepared (configure_socket ns st)"
proof -
  assume st: "prepared st"
  have choose: "prepared t \<Longrightarrow> enters prepared (choose_pmtudisc t)" for t
    by (auto simp: choose_pmtudisc_def prepared_def)
  have bufs: "prepared (sock_setbufs ns a t) = prepared t" for a t
    by (simp add: sock_setbufs_def Let_def)
  have opts: "prepared t \<Longrightarrow> enters prepared (ip_options ns t)" for t
    by (simp add: ip_options_def if_do_def)
  have dev: "device st = None" using st by (simp add: prepared_def)
  have bc: "prepared t \<Longrightarrow> broadcast_pings t = 0" for t by (simp add: prepared_def)
  show ?thesis
    unfolding configure_socket_def if_do_def using st
    by (auto simp: dev bc bufs Let_def intro!: enters_then [OF choose] enters_then [OF opts] enters_then [OF prepared_must])
qed

text \<open>The state in which the loop begins.\<close>

definition ready :: "sys \<Rightarrow> start \<Rightarrow> bool" where
  "ready os st \<longleftrightarrow> unused (pvars st) \<and> sound (pvars st) \<and> rated (pvars st) \<and>
     interval (pvars st) = 1000 \<and> preload (pvars st) = 1 \<and> ident (pvars st) = htons (of_int (pid os))"

lemma ready_setup:
  assumes "prepared st" "timing (pvars st)"
  shows "enters (ready os) (run_setup ns os st)"
proof -
  define s where "s = pvars st"
  have s: "settings s" "preload s = 1" "timing s" using assms by (simp_all add: s_def prepared_def)
  then have i: "interval s = 1000" "datalen s = 56" by (simp_all add: settings_def)
  have off: "\<not> flag s F_FLOOD" "\<not> flag s F_PINGFILLED" "\<not> flag s F_ADAPTIVE"
    "\<not> flag (set_flag F_FLOOD_POLL s) F_ADAPTIVE"
    using s(1) by (auto simp: settings_def flag_def set_flag_def F_defs)
  show ?thesis
    unfolding run_setup_def s_def [symmetric] ping_setup_def Let_def
    using s(1) off
    by (auto simp: i s(2,3) gettimeofday_def write_out_def ready_def unused_def sound_def rated_def settings_def
        MINUSERINTERVAL_def INT_MAX_def flag_def set_flag_def)
qed

lemma ready_size: "prepared st \<Longrightarrow> enters (\<lambda>st. prepared st \<and> timing (pvars st)) (check_size st)"
  by (simp add: check_size_def Let_def to_u64_def) (simp add: prepared_def settings_def unused_def)

lemma prepared_open:
  assumes "settings s" "limit_capabilities ns (start_globals s) = Next st"
  shows "prepared (snd (open_socket ns st))"
proof -
  have "st = (start_globals s)\<lparr>pvars := s\<lparr>uid := own_uid ns\<rparr>, calls := [Seteuid]\<rparr>"
    using assms(2) by (auto simp: limit_capabilities_def sys_call_def start_globals_def Let_def split: if_splits)
  then show ?thesis using assms(1)
    by (simp add: open_socket_def may_def sys_call_def Let_def start_globals_def prepared_def settings_def unused_def)
qed

lemma enters_ready:
  assumes "settings s"
  shows "enters (ready os) (ping_main ns os argc target (start_globals s))"
proof (cases "limit_capabilities ns (start_globals s)")
  case (Next st)
  define st1 where "st1 = snd (open_socket ns st)"
  have 1: "prepared st1" unfolding st1_def by (rule prepared_open [OF assms Next])
  have whereto: "prepared t \<Longrightarrow> prepared (t\<lparr>pvars := (pvars t)\<lparr>whereto := a\<rparr>\<rparr>)" for t a
    by (simp add: prepared_def settings_def unused_def)
  have last: "prepared t \<Longrightarrow> enters (ready os) (and_then (check_size t) (run_setup ns os))" for t
    by (rule enters_then [OF ready_size]) (auto intro: ready_setup)
  have rest: "prepared t \<Longrightarrow> enters (ready os)
      (if icmp_sock t < 0 then Exit 2 t
       else and_then (configure_socket ns t) (\<lambda>st. and_then (check_size st) (run_setup ns os)))" for t
    using enters_then [OF prepared_socket last] by simp
  have source: "prepared t \<Longrightarrow> enters prepared (if_do (source t = 0) (find_source ns) t)" for t
    by (simp add: if_do_def prepared_source)
  have "enters (ready os) (and_then (find_target ns argc target st1)
     (\<lambda>st. and_then (if_do (source st = 0) (find_source ns) st)
     (\<lambda>st. let st = (if whereto (pvars st) = 0 then st\<lparr>pvars := (pvars st)\<lparr>whereto := source st\<rparr>\<rparr> else st)
           in if icmp_sock st < 0 then Exit 2 st
              else and_then (configure_socket ns st) (\<lambda>st. and_then (check_size st) (run_setup ns os)))))"
    unfolding Let_def using rest whereto
    by (intro enters_then [OF prepared_target [OF 1]] enters_then [OF source]) auto
  then show ?thesis by (simp add: ping_main_def Next case_prod_beta st1_def Let_def)
qed (auto simp: ping_main_def limit_capabilities_def sys_call_def Let_def split: if_splits)

text \<open>C14: The start of the library, with the variables as they are initialised: \<open>ping_main\<close> either ends the
  whole program with the status 2 or -1, which it does for every name that cannot be resolved, or
  it enters the loop with sound settings: one probe per second, time stamps in the probes, the
  identifier of the process. From there every state of the loop has its invariant.\<close>

theorem ping_main_enters:
  assumes "settings s"
  shows "enters (ready os) (ping_main ns os argc target (start_globals s)) \<and>
    (aton ns target = None \<and> resolver ns target = None \<longrightarrow>
      (\<forall>st. ping_main ns os argc target (start_globals s) \<noteq> Next st)) \<and>
    (\<forall>st r. ping_main ns os argc target (start_globals s) = Next st \<longrightarrow> loop_reach os (pvars st) r \<longrightarrow>
      loop_inv (pvars st) r)"
proof (intro conjI allI impI)
  show e: "enters (ready os) (ping_main ns os argc target (start_globals s))" by (rule enters_ready [OF assms])
  show "ping_main ns os argc target (start_globals s) \<noteq> Next st"
    if "aton ns target = None \<and> resolver ns target = None" for st
    using that by (cases "limit_capabilities ns (start_globals s)")
      (auto simp: ping_main_def find_target_def case_prod_beta Let_def)
  show "loop_inv (pvars st) r"
    if "ping_main ns os argc target (start_globals s) = Next st" "loop_reach os (pvars st) r" for st r
    using loop_reach_inv [OF that(2)] e that(1) by (simp add: ready_def)
qed

text \<open>A system whose calls succeed.\<close>

definition lab_net :: netsys where
  "lab_net = \<lparr>result = (\<lambda>_. 0), error = (\<lambda>_. 0), aton = (\<lambda>_. None), resolver = (\<lambda>_. None),
     own_address = 0x0200a8c0, own_uid = 0, heap = True\<rparr>"

theorem ping_main_enters_witness:
  "enters (ready lab_sys) (ping_main (lab_net\<lparr>aton := (\<lambda>_. Some 0x0100a8c0)\<rparr>) lab_sys 2 [] (start_globals ping_globals)) \<and>
    enters (\<lambda>st. False) (ping_main lab_net lab_sys 2 [] (start_globals ping_globals))"
proof -
  have s: "settings ping_globals" by (simp add: settings_def unused_def ping_globals_def timerclear_def)
  note a = ping_main_enters [OF s, of lab_sys "lab_net\<lparr>aton := (\<lambda>_. Some 0x0100a8c0)\<rparr>" 2 "[]"]
    and b = ping_main_enters [OF s, of lab_sys lab_net 2 "[]"]
  have "aton lab_net [] = None \<and> resolver lab_net [] = None" by (simp add: lab_net_def)
  then have "ping_main lab_net lab_sys 2 [] (start_globals ping_globals) \<noteq> Next st" for st using b by blast
  then have "enters (\<lambda>st. False) (ping_main lab_net lab_sys 2 [] (start_globals ping_globals))"
    using b by (cases "ping_main lab_net lab_sys 2 [] (start_globals ping_globals)") auto
  then show ?thesis using a by blast
qed

end
