(* ===== verification/Ping_Options.thy ===== *)
theory Ping_Options
  imports Ping_Start
begin

text \<open>
  The options of the ping library: \<open>common_options\<close> of monitor/ping_common.c, \<open>parsetos\<close> and the switch of
  \<open>main\<close> in monitor/ping.c as it is compiled into a program of its own, over the options \<open>getopt\<close> delivers.
\<close>

section \<open>Numbers of the C library\<close>

definition isspace :: "u8 \<Rightarrow> bool" where
  "isspace c \<longleftrightarrow> c = 32 \<or> 9 \<le> c \<and> c \<le> 13"

definition digit_in :: "nat \<Rightarrow> u8 \<Rightarrow> bool" where
  "digit_in base c \<longleftrightarrow> (case hex_value c of None \<Rightarrow> False | Some d \<Rightarrow> d < base)"

definition digits_value :: "nat \<Rightarrow> u8 list \<Rightarrow> int" where
  "digits_value base ds = foldl (\<lambda>n c. n * int base + int (the (hex_value c))) 0 ds"

text \<open>The sign, the prefix \<open>0x\<close> of base 16, the digits; without digits the rest is the whole string.\<close>

definition scan_sign :: "u8 list \<Rightarrow> bool \<times> u8 list" where
  "scan_sign s = (case s of [] \<Rightarrow> (False, []) | c # cs \<Rightarrow> if c = 45 then (True, cs) else if c = 43 then (False, cs) else (False, s))"

definition skip_prefix :: "nat \<Rightarrow> u8 list \<Rightarrow> u8 list" where
  "skip_prefix base s =
     (if base = 16 \<and> length s \<ge> 3 \<and> s ! 0 = 48 \<and> (s ! 1 = 120 \<or> s ! 1 = 88) \<and> digit_in 16 (s ! 2) then drop 2 s else s)"

definition scan_integer :: "nat \<Rightarrow> u8 list \<Rightarrow> int \<times> u8 list" where
  "scan_integer base s =
     (let (neg, t) = scan_sign (dropWhile isspace s);
          t = skip_prefix base t;
          ds = takeWhile (digit_in base) t;
          n = digits_value base ds
      in (if neg then - n else n, if ds = [] then s else dropWhile (digit_in base) t))"

definition strtol :: "nat \<Rightarrow> u8 list \<Rightarrow> int \<times> u8 list" where
  "strtol base s = (let (n, rest) = scan_integer base s in (max (- LONG_MAX - 1) (min LONG_MAX n), rest))"

definition strtoul :: "nat \<Rightarrow> u8 list \<Rightarrow> int \<times> u8 list" where
  "strtoul base s = (let (n, rest) = scan_integer base s in (if \<bar>n\<bar> < 2 ^ 64 then to_u64 n else 2 ^ 64 - 1, rest))"

definition atoi :: "u8 list \<Rightarrow> int" where
  "atoi s = to_s32 (fst (strtol 10 s))"

lemma atoi_range: "- (2 ^ 31) \<le> atoi s" "atoi s < 2 ^ 31"
  unfolding atoi_def by (rule to_s32_range)+

section \<open>\<open>common_options\<close>\<close>

definition on_vars :: "(ping \<Rightarrow> ping) \<Rightarrow> start \<Rightarrow> start" where
  "on_vars f st = st\<lparr>pvars := f (pvars st)\<rparr>"

definition add_flag :: "u32 \<Rightarrow> start \<Rightarrow> start" where
  "add_flag F = on_vars (set_flag F)"

text \<open>
  \<open>strtod\<close> is a parameter: the number, or nothing when it reports an error, leaves a rest or its
  result is not finite. \<open>default\<close> calls \<open>abort\<close>. The address of \<open>endp\<close> is never null, so \<open>-m\<close> ends the
  program. Option letters are characters, arguments bytes.
\<close>

definition set_interval :: "fpu \<Rightarrow> real option \<Rightarrow> start \<Rightarrow> (unit, start) flow" where
  "set_interval fu dbl st =
     (case dbl of
        None \<Rightarrow> Exit 2 st
      | Some d \<Rightarrow>
          if d < 0 \<or> d \<ge> of_int INT_MAX / 1000 - 1 then Exit 2 st
          else Next (add_flag F_INTERVAL (on_vars (\<lambda>s. s\<lparr>interval := int_of_double (fp_round fu (d * 1000))\<rparr>) st)))"

definition set_preload :: "int \<Rightarrow> start \<Rightarrow> (unit, start) flow" where
  "set_preload n st =
     (let st = on_vars (\<lambda>s. s\<lparr>preload := n\<rparr>) st
      in if n \<le> 0 then Exit 2 st
         else (let n = (if n > int MAX_DUP_CHK then int MAX_DUP_CHK else n);
                   st = on_vars (\<lambda>s. s\<lparr>preload := n\<rparr>) st
               in if uid (pvars st) \<noteq> 0 \<and> n > 3 then Exit 2 st else Next st))"

definition set_linger :: "int \<Rightarrow> start \<Rightarrow> (unit, start) flow" where
  "set_linger n st =
     (if n < 0 \<or> n > INT_MAX div 1000000 then Exit 2 (on_vars (\<lambda>s. s\<lparr>lingertime := n\<rparr>) st)
      else Next (on_vars (\<lambda>s. s\<lparr>lingertime := to_s32 (n * 1000)\<rparr>) st))"

text \<open>An option with a number that must not be \<open>bad\<close>; the variable is set in any case.\<close>

definition set_number :: "(int \<Rightarrow> bool) \<Rightarrow> (int \<Rightarrow> start \<Rightarrow> start) \<Rightarrow> u8 list \<Rightarrow> start \<Rightarrow> (unit, start) flow" where
  "set_number bad assign optarg st = (let n = atoi optarg; st = assign n st in if bad n then Exit 2 st else Next st)"

definition set_pattern :: "u8 list \<Rightarrow> start \<Rightarrow> (unit, start) flow" where
  "set_pattern optarg st =
     (let st = add_flag F_PINGFILLED st
      in case fill optarg (pvars st) of
           Next s \<Rightarrow> Next (st\<lparr>pvars := s\<rparr>)
         | Return r s \<Rightarrow> Return r (st\<lparr>pvars := s\<rparr>)
         | Exit c s \<Rightarrow> Exit c (st\<lparr>pvars := s\<rparr>)
         | Trap s \<Rightarrow> Trap (st\<lparr>pvars := s\<rparr>))"

definition common_options :: "fpu \<Rightarrow> (u8 list \<Rightarrow> real option) \<Rightarrow> char \<Rightarrow> u8 list \<Rightarrow> start \<Rightarrow> (unit, start) flow" where
  "common_options fu strtod ch optarg st =
     (if ch = CHR ''a'' then Next (add_flag F_AUDIBLE st)
      else if ch = CHR ''A'' then Next (add_flag F_ADAPTIVE st)
      else if ch = CHR ''c'' then set_number (\<lambda>n. n \<le> 0) (\<lambda>n. on_vars (\<lambda>s. s\<lparr>npackets := n\<rparr>)) optarg st
      else if ch = CHR ''d'' then Next (add_flag F_SO_DEBUG st)
      else if ch = CHR ''D'' then Next (add_flag F_PTIMEOFDAY st)
      else if ch = CHR ''i'' then set_interval fu (strtod optarg) st
      else if ch = CHR ''m'' then Exit 2 (st\<lparr>mark := to_s32 (fst (strtoul 10 optarg))\<rparr>)
      else if ch = CHR ''w'' then set_number (\<lambda>n. n < 0) (\<lambda>n. on_vars (\<lambda>s. s\<lparr>deadline := n\<rparr>)) optarg st
      else if ch = CHR ''l'' then set_preload (atoi optarg) st
      else if ch = CHR ''O'' then Next (add_flag F_OUTSTANDING st)
      else if ch = CHR ''S'' then set_number (\<lambda>n. n \<le> 0) (\<lambda>n st. st\<lparr>sndbuf := n\<rparr>) optarg st
      else if ch = CHR ''f'' then Next (add_flag F_NUMERIC (add_flag F_FLOOD st))
      else if ch = CHR ''n'' then Next (add_flag F_NUMERIC st)
      else if ch = CHR ''p'' then set_pattern optarg st
      else if ch = CHR ''q'' then Next (add_flag F_QUIET st)
      else if ch = CHR ''r'' then Next (add_flag F_SO_DONTROUTE st)
      else if ch = CHR ''s'' then
        set_number (\<lambda>n. n < 0 \<or> n > int maxpacket - 8) (\<lambda>n. on_vars (\<lambda>s. s\<lparr>datalen := n\<rparr>)) optarg st
      else if ch = CHR ''v'' then Next (add_flag F_VERBOSE st)
      else if ch = CHR ''L'' then Next (add_flag F_NOLOOP st)
      else if ch = CHR ''t'' then set_number (\<lambda>n. n < 0 \<or> n > 255) (\<lambda>n st. st\<lparr>ttl_opt := n\<rparr>) optarg (add_flag F_TTL st)
      else if ch = CHR ''U'' then Next (add_flag F_LATENCY st)
      else if ch = CHR ''B'' then Next (add_flag F_STRICTSOURCE st)
      else if ch = CHR ''W'' then set_linger (atoi optarg) st
      else if ch = CHR ''V'' then Exit 0 st
      else Trap st)"

section \<open>The options of \<open>main\<close>\<close>

text \<open>The value of \<open>parsetos\<close>, or nothing when it ends the program.\<close>

definition parsetos :: "u8 list \<Rightarrow> int option" where
  "parsetos str =
     (let (tos, rest) = (if length str \<ge> 2 \<and> str ! 0 = 48 \<and> (str ! 1 = 120 \<or> str ! 1 = 88) then strtol 16 (drop 2 str)
                         else strtol 10 str);
          tos = to_s32 tos
      in if rest \<noteq> [] then None else if tos > 255 then None else Some tos)"

definition set_tos :: "netsys \<Rightarrow> u8 list \<Rightarrow> start \<Rightarrow> (unit, start) flow" where
  "set_tos ns optarg st =
     (case parsetos optarg of
        None \<Rightarrow> Exit 2 st
      | Some tos \<Rightarrow>
          let st = st\<lparr>settos := tos\<rparr>
          in if tos \<noteq> 0 then must ns (set_sockopt ''IP_TOS'' tos st) st else Next st)"

definition set_timestamp :: "u8 list \<Rightarrow> start \<Rightarrow> (unit, start) flow" where
  "set_timestamp optarg st =
     (if flag (pvars st) F_RROUTE then Exit 2 st
      else (let st = add_flag F_TIMESTAMP st
            in if optarg = ascii ''tsonly'' then Next (st\<lparr>ts_type := 0\<rparr>)
               else if optarg = ascii ''tsandaddr'' then Next (st\<lparr>ts_type := 1\<rparr>)
               else if optarg = ascii ''tsprespec'' then Next (st\<lparr>ts_type := 3\<rparr>)
               else Exit 2 st))"

definition set_pmtudisc :: "u8 list \<Rightarrow> start \<Rightarrow> (unit, start) flow" where
  "set_pmtudisc optarg st =
     (if optarg = ascii ''do'' then Next (st\<lparr>pmtudisc := 2\<rparr>)
      else if optarg = ascii ''dont'' then Next (st\<lparr>pmtudisc := 0\<rparr>)
      else if optarg = ascii ''want'' then Next (st\<lparr>pmtudisc := 1\<rparr>)
      else Exit 2 st)"

text \<open>\<open>pton\<close> is \<open>inet_pton\<close>; an unknown option calls \<open>usage\<close>, which ends with 2.\<close>

definition main_option ::
  "netsys \<Rightarrow> fpu \<Rightarrow> (u8 list \<Rightarrow> real option) \<Rightarrow> (u8 list \<Rightarrow> u32 option) \<Rightarrow> char \<times> u8 list \<Rightarrow> start \<Rightarrow> (unit, start) flow" where
  "main_option ns fu strtod pton opt st =
     (let (ch, optarg) = opt
      in if ch = CHR ''b'' then Next (st\<lparr>broadcast_pings := 1\<rparr>)
         else if ch = CHR ''Q'' then set_tos ns optarg st
         else if ch = CHR ''R'' then (if flag (pvars st) F_TIMESTAMP then Exit 2 st else Next (add_flag F_RROUTE st))
         else if ch = CHR ''T'' then set_timestamp optarg st
         else if ch = CHR ''I'' then
           (case pton optarg of Some a \<Rightarrow> Next (add_flag F_STRICTSOURCE (st\<lparr>source := a\<rparr>)) | None \<Rightarrow> Next (st\<lparr>device := Some optarg\<rparr>))
         else if ch = CHR ''M'' then set_pmtudisc optarg st
         else if ch = CHR ''V'' then Exit 0 st
         else if ch \<in> set ''aUcdfiwlSnpqrsvLtAWBmDO'' then common_options fu strtod ch optarg st
         else Exit 2 st)"

definition main_options ::
  "netsys \<Rightarrow> fpu \<Rightarrow> (u8 list \<Rightarrow> real option) \<Rightarrow> (u8 list \<Rightarrow> u32 option) \<Rightarrow> (char \<times> u8 list) list \<Rightarrow> start \<Rightarrow> (unit, start) flow" where
  "main_options ns fu strtod pton opts st = for_each (main_option ns fu strtod pton) opts st"

section \<open>What the options leave\<close>

text \<open>The bounds of the settings; the products formed of them stay within an \<open>int\<close>.\<close>

definition options_ok :: "start \<Rightarrow> bool" where
  "options_ok st \<longleftrightarrow> (let s = pvars st in
     0 \<le> npackets s \<and> 0 \<le> interval s \<and> interval s < 2 ^ 31 \<and> 0 \<le> deadline s \<and> 0 < preload s \<and> preload s \<le> 65536 \<and>
     0 \<le> datalen s \<and> datalen s \<le> int maxpacket - 8 \<and> 0 \<le> lingertime s \<and> lingertime s * 1000 < 2 ^ 31 \<and>
     \<not> (flag s F_RROUTE \<and> flag s F_TIMESTAMP) \<and>
     0 \<le> ttl_opt st \<and> ttl_opt st \<le> 255 \<and> settos st \<le> 255 \<and> ts_type st \<in> {0, 1, 3} \<and> pmtudisc st \<in> {-1, 0, 1, 2} \<and>
     0 \<le> sndbuf st)"

text \<open>\<open>decides m\<close>: \<open>m\<close> goes on with sound options or ends the program with 0 or 2.\<close>

fun decides :: "(unit, start) flow \<Rightarrow> bool" where
  "decides (Next st) \<longleftrightarrow> options_ok st"
| "decides (Exit c st) \<longleftrightarrow> c = 0 \<or> c = 2"
| "decides _ \<longleftrightarrow> False"

lemma flag_added: "flag (set_flag F s) G \<longleftrightarrow> flag s G \<or> F AND G \<noteq> 0"
proof -
  have "(options s OR F) AND G = (options s AND G) OR (F AND G)" by (simp add: bit.conj_disj_distrib2)
  moreover have "a OR b = 0 \<longleftrightarrow> a = 0 \<and> b = 0" for a b :: u32
    by (metis or.right_neutral or_eq_0_iff)
  ultimately show ?thesis by (auto simp: flag_def set_flag_def)
qed

lemma options_ok_flag:
  "options_ok st \<Longrightarrow> F AND F_RROUTE = 0 \<Longrightarrow> F AND F_TIMESTAMP = 0 \<Longrightarrow> options_ok (add_flag F st)"
  by (simp add: options_ok_def add_flag_def on_vars_def Let_def flag_added) (simp add: set_flag_def)

lemma options_ok_sets:
  assumes "options_ok st"
  shows "0 \<le> n \<Longrightarrow> options_ok (on_vars (\<lambda>s. s\<lparr>npackets := n\<rparr>) st)"
    "0 \<le> n \<Longrightarrow> options_ok (on_vars (\<lambda>s. s\<lparr>deadline := n\<rparr>) st)"
    "0 \<le> n \<Longrightarrow> n < 2 ^ 31 \<Longrightarrow> options_ok (on_vars (\<lambda>s. s\<lparr>interval := n\<rparr>) st)"
    "0 < n \<Longrightarrow> n \<le> 65536 \<Longrightarrow> options_ok (on_vars (\<lambda>s. s\<lparr>preload := n\<rparr>) st)"
    "0 \<le> n \<Longrightarrow> n \<le> int maxpacket - 8 \<Longrightarrow> options_ok (on_vars (\<lambda>s. s\<lparr>datalen := n\<rparr>) st)"
    "0 \<le> n \<Longrightarrow> n * 1000 < 2 ^ 31 \<Longrightarrow> options_ok (on_vars (\<lambda>s. s\<lparr>lingertime := n\<rparr>) st)"
    "0 \<le> n \<Longrightarrow> options_ok (st\<lparr>sndbuf := n\<rparr>)" "0 \<le> n \<Longrightarrow> n \<le> 255 \<Longrightarrow> options_ok (st\<lparr>ttl_opt := n\<rparr>)"
    "options_ok (on_vars (\<lambda>s. s\<lparr>outpack := m\<rparr>) st)"
  using assms by (simp_all add: options_ok_def on_vars_def Let_def flag_def)

text \<open>Rounding is monotone and exact on small integers.\<close>

definition sane_round :: "fpu \<Rightarrow> bool" where
  "sane_round fu \<longleftrightarrow> exact_ints fu \<and> (\<forall>x y. x \<le> y \<longrightarrow> fp_round fu x \<le> fp_round fu y)"

lemma interval_range:
  assumes "sane_round fu" "0 \<le> d" "d < of_int INT_MAX / 1000 - 1"
  shows "0 \<le> int_of_double (fp_round fu (d * 1000))" "int_of_double (fp_round fu (d * 1000)) < 2 ^ 31"
proof -
  have e: "fp_round fu (of_int n) = of_int n" if "0 \<le> n" "n \<le> 2 ^ 53" for n
    using assms(1) that by (simp add: sane_round_def exact_ints_def)
  have "fp_round fu (of_int 0) \<le> fp_round fu (d * 1000)" "fp_round fu (d * 1000) \<le> fp_round fu (of_int 2147482647)"
    using assms by (auto simp: sane_round_def INT_MAX_def)
  then have r: "0 \<le> fp_round fu (d * 1000)" "fp_round fu (d * 1000) \<le> 2147482647"
    using e [of 0] e [of 2147482647] by simp_all
  then have "0 \<le> \<lfloor>fp_round fu (d * 1000)\<rfloor>" "\<lfloor>fp_round fu (d * 1000)\<rfloor> \<le> 2147482647" by linarith+
  then show "0 \<le> int_of_double (fp_round fu (d * 1000))" "int_of_double (fp_round fu (d * 1000)) < 2 ^ 31"
    using r(1) by (simp_all add: int_of_double_def Let_def)
qed

lemma decides_number:
  "(\<And>n. \<not> bad n \<Longrightarrow> options_ok (assign n st)) \<Longrightarrow> decides (set_number bad assign optarg st)"
  by (simp add: set_number_def Let_def)

lemma decides_common:
  assumes "options_ok st" "sane_round fu" "ch \<in> set ''aUcdfiwlSnpqrsvLtAWBmDO''"
  shows "decides (common_options fu strtod ch optarg st)"
proof -
  note ok = options_ok_sets [OF assms(1)] and flg = options_ok_flag [OF assms(1)]
  have interval: "decides (set_interval fu x st)" for x
    using interval_range [OF assms(2)] ok(3)
    by (auto simp: set_interval_def F_defs not_le intro!: options_ok_flag split: option.split)
  have preload: "decides (set_preload n st)" for n
    using ok(4) by (auto simp: set_preload_def Let_def MAX_DUP_CHK_def on_vars_def)
  have linger: "decides (set_linger n st)" for n
    using ok(6) by (auto simp: set_linger_def INT_MAX_def to_s32_id)
  have pattern: "decides (set_pattern optarg st)"
    using options_ok_sets(9) [OF flg [of F_PINGFILLED]]
    by (simp add: set_pattern_def fill_def Let_def F_defs on_vars_def)
  have flags: "options_ok (add_flag F_NUMERIC (add_flag F_FLOOD st))"
    by (intro options_ok_flag assms(1)) (simp_all add: F_defs)
  have ttl: "options_ok (add_flag F_TTL st)" by (rule flg) (simp_all add: F_defs)
  have single: "options_ok (add_flag F st)" if "F AND 0x220 = 0" for F
  proof -
    have "F AND F_RROUTE = (F AND 0x220) AND F_RROUTE" "F AND F_TIMESTAMP = (F AND 0x220) AND F_TIMESTAMP"
      by (simp_all add: F_defs and.assoc)
    then show ?thesis using flg that by simp
  qed
  have numbers: "decides (set_number (\<lambda>n. n \<le> 0) (\<lambda>n. on_vars (\<lambda>s. s\<lparr>npackets := n\<rparr>)) optarg st)"
    "decides (set_number (\<lambda>n. n < 0) (\<lambda>n. on_vars (\<lambda>s. s\<lparr>deadline := n\<rparr>)) optarg st)"
    "decides (set_number (\<lambda>n. n \<le> 0) (\<lambda>n st. st\<lparr>sndbuf := n\<rparr>) optarg st)"
    "decides (set_number (\<lambda>n. n < 0 \<or> n > int maxpacket - 8) (\<lambda>n. on_vars (\<lambda>s. s\<lparr>datalen := n\<rparr>)) optarg st)"
    "decides (set_number (\<lambda>n. n < 0 \<or> n > 255) (\<lambda>n st. st\<lparr>ttl_opt := n\<rparr>) optarg (add_flag F_TTL st))"
    by (rule decides_number, use ok options_ok_sets(8) [OF ttl] in simp)+
  have split: "(c \<Longrightarrow> decides x) \<Longrightarrow> (\<not> c \<Longrightarrow> decides y) \<Longrightarrow> decides (if c then x else y)" for c x y by simp
  note cases = interval preload linger pattern numbers
  show ?thesis
    unfolding common_options_def
    by (intro split cases) (use assms(3) flags in \<open>simp_all add: single F_defs\<close>)
qed

lemma decides_main:
  assumes "options_ok st" "sane_round fu"
  shows "decides (main_option ns fu strtod pton opt st)"
proof -
  obtain ch optarg where opt: "opt = (ch, optarg)" by (cases opt)
  have st: "options_ok (st\<lparr>broadcast_pings := 1\<rparr>)" "options_ok (st\<lparr>source := a\<rparr>)" "options_ok (st\<lparr>device := d\<rparr>)"
    "tos \<le> 255 \<Longrightarrow> options_ok (st\<lparr>settos := tos, calls := cs\<rparr>)" "tos \<le> 255 \<Longrightarrow> options_ok (st\<lparr>settos := tos\<rparr>)"
    "x \<in> {0, 1, 2} \<Longrightarrow> options_ok (st\<lparr>pmtudisc := x\<rparr>)" for a d tos cs x
    using assms(1) by (auto simp: options_ok_def Let_def)
  have tos: "decides (set_tos ns optarg st)"
  proof (cases "parsetos optarg")
    case (Some n)
    then have "n \<le> 255" by (auto simp: parsetos_def Let_def case_prod_beta simp del: One_nat_def split: if_splits)
    then show ?thesis using Some st(4,5) by (simp add: set_tos_def must_def sys_call_def Let_def)
  qed (simp add: set_tos_def)
  have route: "options_ok (add_flag F_RROUTE st)" if "\<not> flag (pvars st) F_TIMESTAMP"
    using assms(1) that by (simp add: options_ok_def add_flag_def on_vars_def Let_def flag_added) (simp add: set_flag_def F_defs)
  have stamp: "options_ok ((add_flag F_TIMESTAMP st)\<lparr>ts_type := t\<rparr>)" if "\<not> flag (pvars st) F_RROUTE" "t \<in> {0, 1, 3}" for t
    using assms(1) that by (simp add: options_ok_def add_flag_def on_vars_def Let_def flag_added) (simp add: set_flag_def F_defs)
  have source: "options_ok (add_flag F_STRICTSOURCE (st\<lparr>source := a\<rparr>))" for a
    by (rule options_ok_flag [OF st(2)]) (simp_all add: F_defs)
  have timestamp: "decides (set_timestamp optarg st)"
    using stamp by (simp add: set_timestamp_def Let_def)
  have pmtu: "decides (set_pmtudisc optarg st)"
    using st(6) by (simp add: set_pmtudisc_def)
  have device: "decides (case pton optarg of Some a \<Rightarrow> Next (add_flag F_STRICTSOURCE (st\<lparr>source := a\<rparr>)) | None \<Rightarrow> Next (st\<lparr>device := Some optarg\<rparr>))"
    using source st(3) by (simp split: option.split)
  have split: "(c \<Longrightarrow> decides x) \<Longrightarrow> (\<not> c \<Longrightarrow> decides y) \<Longrightarrow> decides (if c then x else y)" for c x y by simp
  show ?thesis
    unfolding main_option_def opt Let_def prod.case
    by (intro split tos timestamp pmtu device decides_common [OF assms]) (simp_all only: decides.simps st route simp_thms)
qed

lemma decides_options:
  assumes "options_ok st" "sane_round fu"
  shows "decides (main_options ns fu strtod pton opts st)"
  using assms(1) unfolding main_options_def
proof (induction opts arbitrary: st)
  case (Cons opt opts)
  then have "decides (main_option ns fu strtod pton opt st)" using decides_main assms(2) by blast
  then show ?case using Cons.IH by (cases "main_option ns fu strtod pton opt st") auto
qed simp

lemma mark_exits: "main_option ns fu strtod pton (CHR ''m'', optarg) st = Exit 2 (st\<lparr>mark := to_s32 (fst (strtoul 10 optarg))\<rparr>)"
  by (simp add: main_option_def common_options_def)

lemma options_without_mark:
  "main_options ns fu strtod pton opts st = Next st' \<Longrightarrow> (CHR ''m'', optarg) \<notin> set opts"
  unfolding main_options_def
proof (induction opts arbitrary: st)
  case (Cons opt opts)
  then show ?case by (cases "main_option ns fu strtod pton opt st") (auto simp: mark_exits)
qed simp

text \<open>C40: The options of the command line either end the program with 0 or 2 or leave settings within their bounds: a
  preload of 1 to 65536, packets of at most \<open>maxpacket\<close> bytes, times whose products fit an \<open>int\<close>, never a
  recorded route and time stamps at once. A packet mark never gets through: \<open>-m\<close> always ends the program.\<close>

theorem main_options_bounded:
  assumes "options_ok st" "sane_round fu"
  shows "case main_options ns fu strtod pton opts st of
           Next st' \<Rightarrow> options_ok st' \<and> (CHR ''m'', optarg) \<notin> set opts
         | Exit c st' \<Rightarrow> c \<in> {0, 2}
         | _ \<Rightarrow> False"
  using decides_options [OF assms, of ns strtod pton opts] options_without_mark [of ns fu strtod pton opts st]
  by (auto split: flow.split)

definition lab_options :: "(char \<times> u8 list) list" where
  "lab_options = [(CHR ''c'', ascii ''12x''), (CHR ''q'', []), (CHR ''s'', ascii ''100'')]"

definition lab_begin :: start where
  "lab_begin = start_globals (ping_globals\<lparr>preload := 1\<rparr>)"

lemma lab_begin_ok: "options_ok lab_begin"
  by (simp add: options_ok_def lab_begin_def start_globals_def ping_globals_def flag_def Let_def maxpacket_def)

theorem main_options_bounded_witness:
  "case main_options \<lparr>result = (\<lambda>_. 0), error = (\<lambda>_. 0), aton = (\<lambda>_. None), resolver = (\<lambda>_. None), own_address = 0,
          own_uid = 0, heap = True\<rparr> \<lparr>fp_round = (\<lambda>x. x), fp_pow10 = power10\<rparr> (\<lambda>_. None) (\<lambda>_. None) lab_options lab_begin of
     Next st' \<Rightarrow> options_ok st' \<and> (CHR ''m'', []) \<notin> set lab_options
   | Exit c st' \<Rightarrow> c \<in> {0, 2}
   | _ \<Rightarrow> False"
  by (rule main_options_bounded [OF lab_begin_ok]) (simp add: sane_round_def exact_ints_def power10_def)

lemma numbers_of_options:
  "atoi (ascii ''12x'') = 12" "atoi (ascii '' -7'') = -7" "atoi [] = 0" "parsetos (ascii ''0x1F'') = Some 31"
  "parsetos (ascii ''256'') = None" "parsetos (ascii ''12x'') = None"
  by code_simp+

lemma lab_options_set:
  "main_options ns fu strtod pton lab_options lab_begin =
     Next (add_flag F_QUIET lab_begin\<lparr>pvars := (pvars (add_flag F_QUIET lab_begin))\<lparr>npackets := 12, datalen := 100\<rparr>\<rparr>)"
proof -
  have n: "atoi (ascii ''12x'') = 12" "atoi (ascii ''100'') = 100" by code_simp+
  show ?thesis
    by (simp add: main_options_def lab_options_def main_option_def common_options_def set_number_def n Let_def
        add_flag_def on_vars_def set_flag_def lab_begin_def start_globals_def ping_globals_def maxpacket_def)
qed

end
