(* ===== verification/Ping_Ip_Options.thy ===== *)
theory Ping_Ip_Options
  imports Ping_Send
begin

text \<open>
  \<open>pr_options\<close> of monitor/ping.c, which goes through the options of the IP header of every reply. The memory is
  the list of the bytes from the options to the end of the packet; a read behind it is \<open>None\<close>. What is printed is a list of
  items, an address as its number.
\<close>

section \<open>The code\<close>

datatype shown =
  Show_nop | Show_source_route u8 | Show_address u32 | Show_same_route | Show_route | Show_stamps
| Show_absolute_nonstandard int | Show_nonstandard int | Show_absolute int | Show_stamp int
| Show_unrecorded nat | Show_unknown u8

text \<open>The static variables: the last recorded route.\<close>

record last_route =
  old_rrlen :: int
  old_rr :: "u8 list"

definition last_route_init :: last_route where
  "last_route_init = \<lparr>old_rrlen = 0, old_rr = replicate 40 0\<rparr>"

definition fetch_byte :: "u8 list \<Rightarrow> nat \<Rightarrow> u8 option" where
  "fetch_byte b p = (if p < length b then Some (b ! p) else None)"

definition fetch_bytes :: "u8 list \<Rightarrow> nat \<Rightarrow> nat \<Rightarrow> u8 list option" where
  "fetch_bytes b p n = (if p + n \<le> length b then Some (take n (drop p b)) else None)"

definition be_value :: "u8 list \<Rightarrow> int" where
  "be_value bs = foldl (\<lambda>l c. l * 256 + uint c) 0 bs"

definition address_of :: "u8 list \<Rightarrow> u32" where
  "address_of bs = word_of_int (le_value bs)"

text \<open>The loops that print addresses, of a source route down to 4 and of a recorded route down to 0.\<close>

function addresses_loop :: "int \<Rightarrow> u8 list \<Rightarrow> nat \<Rightarrow> int \<Rightarrow> shown list option" where
  "addresses_loop stop b p j =
     (case fetch_bytes b p 4 of
        None \<Rightarrow> None
      | Some bs \<Rightarrow>
          if j - 4 \<le> stop then Some [Show_address (address_of bs)]
          else map_option (\<lambda>out. Show_address (address_of bs) # out) (addresses_loop stop b (p + 4) (j - 4)))"
  by pat_completeness auto
termination by (relation "measure (\<lambda>(stop, b, p, j). nat (j - stop))") auto

definition show_stamp :: "int \<Rightarrow> int \<Rightarrow> int \<Rightarrow> shown \<times> int \<times> int" where
  "show_stamp l stdtime nonstdtime =
     (if l \<ge> 2 ^ 31
      then (let t = l - 2 ^ 31
            in (if nonstdtime = 0 then Show_absolute_nonstandard t else Show_nonstandard (t - nonstdtime), stdtime, t))
      else (if stdtime = 0 then Show_absolute l else Show_stamp (l - stdtime), l, nonstdtime))"

function stamps_loop :: "bool \<Rightarrow> u8 list \<Rightarrow> nat \<Rightarrow> int \<Rightarrow> int \<Rightarrow> int \<Rightarrow> shown list option" where
  "stamps_loop only b p i stdtime nonstdtime =
     (case (if only then Some [] else fetch_bytes b p 4) of
        None \<Rightarrow> None
      | Some bs \<Rightarrow>
          (let out = (if only then [] else [Show_address (address_of bs)]);
               p = (if only then p else p + 4);
               i = (if only then i else i - 4)
           in if \<not> only \<and> i \<le> 0 then Some out
              else (case fetch_bytes b p 4 of
                 None \<Rightarrow> None
               | Some ts \<Rightarrow>
                   (let (x, stdtime, nonstdtime) = show_stamp (be_value ts) stdtime nonstdtime
                    in if i - 4 \<le> 0 then Some (out @ [x])
                       else map_option (\<lambda>rest. out @ x # rest) (stamps_loop only b (p + 4) (i - 4) stdtime nonstdtime)))))"
  by pat_completeness auto
termination by (relation "measure (\<lambda>(only, b, p, i, s, n). nat i)") (auto split: if_splits)

declare addresses_loop.simps [simp del] stamps_loop.simps [simp del]

definition source_route_option :: "u8 list \<Rightarrow> nat \<Rightarrow> shown list option" where
  "source_route_option b p =
     (case (fetch_byte b p, fetch_byte b (p + 1), fetch_byte b (p + 2)) of
        (Some c, Some len, Some ptr) \<Rightarrow>
          (if uint len > 4 then map_option (\<lambda>out. Show_source_route c # out) (addresses_loop 4 b (p + 3) (uint len))
           else Some [Show_source_route c])
      | _ \<Rightarrow> None)"

text \<open>A recorded route of \<open>i\<close> bytes; what is compared and remembered starts at the pointer before it.\<close>

definition route_shown :: "bool \<Rightarrow> u8 list \<Rightarrow> nat \<Rightarrow> int \<Rightarrow> last_route \<Rightarrow> (shown list \<times> last_route) option" where
  "route_shown flood b p i st =
     (case fetch_bytes b (p + 2) (nat i) of
        None \<Rightarrow> None
      | Some seen \<Rightarrow>
          if i = old_rrlen st \<and> seen = take (nat i) (old_rr st) \<and> \<not> flood then Some ([Show_same_route], st)
          else if nat i > length (old_rr st) then None
          else map_option (\<lambda>out. (Show_route # out, \<lparr>old_rrlen = i, old_rr = seen @ drop (nat i) (old_rr st)\<rparr>))
                 (addresses_loop 0 b (p + 3) i))"

definition record_route_option :: "bool \<Rightarrow> u8 list \<Rightarrow> nat \<Rightarrow> last_route \<Rightarrow> (shown list \<times> last_route) option" where
  "record_route_option flood b p st =
     (case (fetch_byte b (p + 1), fetch_byte b (p + 2)) of
        (Some len, Some ptr) \<Rightarrow>
          (let i = min (uint ptr) (uint len) - 4 in if i \<le> 0 then Some ([], st) else route_shown flood b p i st)
      | _ \<Rightarrow> None)"

definition timestamp_shown :: "u8 list \<Rightarrow> nat \<Rightarrow> shown list option" where
  "timestamp_shown b p =
     (case (fetch_byte b (p + 1), fetch_byte b (p + 2)) of
        (Some len, Some ptr) \<Rightarrow>
          (let i = min (uint ptr) (uint len) - 5
           in if i \<le> 0 then Some []
              else (case fetch_byte b (p + 3) of
                 None \<Rightarrow> None
               | Some flags \<Rightarrow>
                   map_option (\<lambda>out. Show_stamps # out @
                       (if unat flags div 16 \<noteq> 0 then [Show_unrecorded (unat flags div 16)] else []))
                     (stamps_loop (unat flags mod 16 = 0) b (p + 4) i 0 0)))
      | _ \<Rightarrow> None)"

definition show_option :: "bool \<Rightarrow> u8 list \<Rightarrow> nat \<Rightarrow> u8 \<Rightarrow> last_route \<Rightarrow> (shown list \<times> last_route) option" where
  "show_option flood b p c st =
     (if c = 137 \<or> c = 131 then map_option (\<lambda>out. (out, st)) (source_route_option b p)
      else if c = 7 then record_route_option flood b p st
      else if c = 68 then map_option (\<lambda>out. (out, st)) (timestamp_shown b p)
      else Some ([Show_unknown c], st))"

function options_loop :: "bool \<Rightarrow> u8 list \<Rightarrow> nat \<Rightarrow> int \<Rightarrow> last_route \<Rightarrow> (shown list \<times> last_route) option" where
  "options_loop flood b p totlen st =
     (if totlen \<le> 0 then Some ([], st)
      else (case fetch_byte b p of
         None \<Rightarrow> None
       | Some c \<Rightarrow>
           if c = 0 then Some ([], st)
           else if c = 1 then map_option (\<lambda>(out, st). (Show_nop # out, st)) (options_loop flood b (p + 1) (totlen - 1) st)
           else (case fetch_byte b (p + 1) of
              None \<Rightarrow> None
            | Some len \<Rightarrow>
                if uint len < 2 \<or> uint len > totlen then Some ([], st)
                else (case show_option flood b p c st of
                   None \<Rightarrow> None
                 | Some (out, st) \<Rightarrow>
                     map_option (\<lambda>(rest, st). (out @ rest, st)) (options_loop flood b (p + unat len) (totlen - uint len) st)))))"
  by pat_completeness auto
termination by (relation "measure (\<lambda>(flood, b, p, totlen, st). nat totlen)") auto

declare options_loop.simps [simp del]

definition pr_options :: "ping \<Rightarrow> u8 list \<Rightarrow> int \<Rightarrow> last_route \<Rightarrow> (shown list \<times> last_route) option" where
  "pr_options s b hlen st = options_loop (flag s F_FLOOD) b 0 (hlen - 20) st"

section \<open>Its reads\<close>

lemma fetch_bytes_ok: "p + n \<le> length b \<Longrightarrow> fetch_bytes b p n = Some (take n (drop p b))"
  by (simp add: fetch_bytes_def)

lemma fetch_byte_ok: "p < length b \<Longrightarrow> fetch_byte b p = Some (b ! p)"
  by (simp add: fetch_byte_def)

lemma addresses_loop_ok:
  "stop < j \<Longrightarrow> int p + (j - stop) + 3 \<le> int (length b) \<Longrightarrow> \<exists>out. addresses_loop stop b p j = Some out"
proof (induction stop b p j rule: addresses_loop.induct)
  case (1 stop b p j)
  then show ?case by (subst addresses_loop.simps) (auto simp: fetch_bytes_ok)
qed

lemma stamps_loop_ok:
  "0 < i \<Longrightarrow> int p + i + 3 \<le> int (length b) \<Longrightarrow> \<exists>out. stamps_loop only b p i std nonstd = Some out"
proof (induction "nat i" arbitrary: p i std nonstd rule: less_induct)
  case less
  have IH: "\<exists>out. stamps_loop only b p' i' std' nonstd' = Some out"
    if "0 < i'" "i' < i" "int p' + i' + 3 \<le> int (length b)" for p' i' std' nonstd'
    using less(1) [of i' p'] that by simp
  show ?case
  proof (cases only)
    case True
    then show ?thesis using less(2,3) IH [of "i - 4" "p + 4"]
      by (subst stamps_loop.simps) (auto simp: fetch_bytes_ok split: prod.split)
  next
    case False
    then show ?thesis using less(2,3) IH [of "i - 8" "8 + p"]
      by (subst stamps_loop.simps) (auto simp: fetch_bytes_ok Let_def split: prod.split)
  qed
qed

lemma route_shown_ok:
  assumes "0 < i" "i \<le> 40" "int p + i + 6 \<le> int (length b)" "length (old_rr st) = 40"
  shows "\<exists>out st'. route_shown flood b p i st = Some (out, st') \<and> length (old_rr st') = 40"
proof -
  have "fetch_bytes b (p + 2) (nat i) = Some (take (nat i) (drop (p + 2) b))"
    using assms(1,3) by (intro fetch_bytes_ok) linarith
  moreover obtain out where "addresses_loop 0 b (p + 3) i = Some out"
    using addresses_loop_ok [of 0 i "p + 3" b] assms(1,3) by auto
  moreover have "length (take (nat i) (drop (p + 2) b)) = nat i" "nat i \<le> 40" using assms(1-3) by auto
  ultimately show ?thesis using assms(4) unfolding route_shown_def by auto
qed

lemma show_option_ok:
  assumes "2 \<le> uint (b ! (p + 1))" "uint (b ! (p + 1)) \<le> 40" "int p + uint (b ! (p + 1)) + 2 \<le> int (length b)"
    and "length (old_rr st) = 40"
  shows "\<exists>out st'. show_option flood b p c st = Some (out, st') \<and> length (old_rr st') = 40"
proof -
  let ?len = "uint (b ! (p + 1))"
  have fetch: "fetch_byte b p = Some (b ! p)" "fetch_byte b (p + 1) = Some (b ! (p + 1))"
    "fetch_byte b (p + 2) = Some (b ! (p + 2))" "fetch_byte b (p + 3) = Some (b ! (p + 3))"
    using assms(1,3) by (auto intro!: fetch_byte_ok)
  have source: "\<exists>out. source_route_option b p = Some out"
    using addresses_loop_ok [of 4 ?len "p + 3" b] assms(3) unfolding source_route_option_def fetch by auto
  have route: "\<exists>out st'. record_route_option flood b p st = Some (out, st') \<and> length (old_rr st') = 40"
  proof -
    define i where "i = min (uint (b ! (p + 2))) ?len - 4"
    then have "i \<le> ?len - 4" by linarith
    then show ?thesis
      using route_shown_ok [of i p b st flood] assms(2-4)
      unfolding record_route_option_def fetch Let_def option.case prod.case i_def [symmetric]
      by (cases "i \<le> 0") simp_all
  qed
  have stamps: "\<exists>out. timestamp_shown b p = Some out"
  proof (cases "min (uint (b ! (p + 2))) ?len - 5 \<le> 0")
    case False
    define i where "i = min (uint (b ! (p + 2))) ?len - 5"
    have i: "0 < i" "i \<le> ?len - 5" using False unfolding i_def by linarith+
    then obtain out where "stamps_loop (unat (b ! (p + 3)) mod 16 = 0) b (p + 4) i 0 0 = Some out"
      using stamps_loop_ok [of i "p + 4" b "unat (b ! (p + 3)) mod 16 = 0" 0 0] assms(3) by fastforce
    then show ?thesis
      using i(1) unfolding timestamp_shown_def fetch Let_def option.case prod.case i_def [symmetric] by simp
  qed (simp add: timestamp_shown_def fetch [simplified] Let_def)
  show ?thesis using source route stamps assms(4) unfolding show_option_def by auto
qed

lemma options_loop_ok:
  "int p + totlen + 2 \<le> int (length b) \<Longrightarrow> totlen \<le> 40 \<Longrightarrow> length (old_rr st) = 40 \<Longrightarrow>
    \<exists>out st'. options_loop flood b p totlen st = Some (out, st') \<and> length (old_rr st') = 40"
proof (induction "nat totlen" arbitrary: p totlen st rule: less_induct)
  case less
  have IH: "\<exists>out st'. options_loop flood b p' l st1 = Some (out, st') \<and> length (old_rr st') = 40"
    if "l < totlen" "0 < totlen" "int p' + l = int p + totlen" "length (old_rr st1) = 40" for p' l st1
    using less(1) [of l p' st1] less(2,3) that by simp
  show ?case
  proof (cases "0 < totlen")
    case True
    have fetch: "fetch_byte b p = Some (b ! p)" "fetch_byte b (p + 1) = Some (b ! (p + 1))"
      using less(2) True by (auto intro!: fetch_byte_ok)
    consider "b ! p = 0" | "b ! p = 1" | "b ! p \<noteq> 0" "b ! p \<noteq> 1" "uint (b ! (p + 1)) < 2 \<or> uint (b ! (p + 1)) > totlen"
      | "b ! p \<noteq> 0" "b ! p \<noteq> 1" "2 \<le> uint (b ! (p + 1))" "uint (b ! (p + 1)) \<le> totlen"
      by linarith
    then show ?thesis
    proof cases
      case 2
      then show ?thesis using True IH [of "totlen - 1" "p + 1" st] less(4) by (subst options_loop.simps) (auto simp: fetch)
    next
      case 4
      then obtain out st1 where st1: "show_option flood b p (b ! p) st = Some (out, st1)" "length (old_rr st1) = 40"
        using show_option_ok [of b p st flood "b ! p"] less(2-4) by fastforce
      moreover have "int (p + unat (b ! (p + 1))) + (totlen - uint (b ! (p + 1))) = int p + totlen" by simp
      ultimately show ?thesis
        using True 4 IH [of "totlen - uint (b ! (p + 1))" "p + unat (b ! (p + 1))" st1]
        by (subst options_loop.simps) (auto simp: fetch fetch [simplified])
    qed (use True less(4) in \<open>subst options_loop.simps, auto simp: fetch fetch [simplified]\<close>)+
  qed (use less(4) in \<open>simp add: options_loop.simps\<close>)
qed

text \<open>C18: \<open>pr_options\<close> ends on the options of every reply, whatever a sender puts into them, and reads nothing behind
  the packet: the loops over addresses and times go at most two bytes beyond an option, into the ICMP header
  that \<open>parse_reply\<close> has checked to be there; the route it remembers fits its 40 bytes.\<close>

theorem pr_options_safe:
  assumes "hlen \<le> 60" "hlen - 20 + 8 \<le> int (length b)" "length (old_rr st) = 40"
  shows "\<exists>out st'. pr_options s b hlen st = Some (out, st') \<and> length (old_rr st') = 40"
  unfolding pr_options_def by (rule options_loop_ok) (use assms in simp_all)

theorem pr_options_safe_witness:
  "\<exists>out st'. pr_options ping_globals ([68, 12, 13, 241, 1, 2, 3, 4, 5, 6, 7, 8] @ replicate 8 0) 32 last_route_init = Some (out, st') \<and>
     length (old_rr st') = 40"
  by (rule pr_options_safe) (simp_all add: last_route_init_def)

section \<open>A recorded route\<close>

text \<open>The options of a reply with room for the addresses \<open>as\<close>, the first \<open>m\<close> of them recorded.\<close>

definition route_options :: "u8 list list \<Rightarrow> nat \<Rightarrow> u8 list" where
  "route_options as m = [7, of_nat (3 + 4 * length as), of_nat (4 + 4 * m)] @ concat as @ [0]"

lemma addresses_loop_list:
  "\<forall>a\<in>set as. length a = 4 \<Longrightarrow> 4 * int (length as) - 4 < i \<Longrightarrow> i \<le> 4 * int (length as) \<Longrightarrow> as \<noteq> [] \<Longrightarrow>
    addresses_loop 0 (pre @ concat as @ t) (length pre) i = Some (map (\<lambda>a. Show_address (address_of a)) as)"
proof (induction as arbitrary: pre i)
  case (Cons a as)
  then have fetch: "fetch_bytes (pre @ a @ concat as @ t) (length pre) 4 = Some a" by (simp add: fetch_bytes_def)
  show ?case
  proof (cases "as = []")
    case True
    then show ?thesis using Cons.prems fetch by (subst addresses_loop.simps) simp
  next
    case False
    then have "4 < i" using Cons.prems(2) by (cases as) auto
    then show ?thesis using Cons.prems fetch False Cons.IH [of "i - 4" "pre @ a"]
      by (subst addresses_loop.simps) simp
  qed
qed simp

text \<open>The number of bytes compared and remembered; the first of them is the pointer, so the end of the last address is not
  among them.\<close>

definition route_bytes :: "u8 list list \<Rightarrow> nat \<Rightarrow> nat" where
  "route_bytes as m = min (4 * m) (4 * length as - 1)"

definition route_seen :: "u8 list list \<Rightarrow> nat \<Rightarrow> u8 list" where
  "route_seen as m = of_nat (4 + 4 * m) # take (route_bytes as m - 1) (concat as)"

lemma route_shown_list:
  assumes "\<forall>a\<in>set as. length a = 4" "0 < m" "m \<le> length as" "length as \<le> 9" "length (old_rr st) = 40"
  shows "route_shown flood (route_options as m @ t) 0 (int (route_bytes as m)) st =
    (if old_rrlen st = int (route_bytes as m) \<and> take (route_bytes as m) (old_rr st) = route_seen as m \<and> \<not> flood
     then Some ([Show_same_route], st)
     else Some (Show_route # map (\<lambda>a. Show_address (address_of a)) (take m as),
            \<lparr>old_rrlen = int (route_bytes as m), old_rr = route_seen as m @ drop (route_bytes as m) (old_rr st)\<rparr>))"
proof -
  let ?b = "route_options as m @ t" and ?i = "route_bytes as m"
  have len: "length (concat as) = 4 * length as" using assms(1) by (induction as) auto
  have i: "0 < ?i" "?i \<le> 4 * m" "4 * m - 4 < ?i" "?i \<le> 36" "?i - 1 \<le> length (concat as)"
    using assms(2-4) unfolding route_bytes_def len by linarith+
  have "fetch_bytes ?b (0 + 2) (nat (int ?i)) = Some (route_seen as m)"
    using i len unfolding nat_int by (cases ?i) (auto simp: fetch_bytes_def route_options_def route_seen_def min_def)
  moreover have "addresses_loop 0 ?b (0 + 3) (int ?i) = Some (map (\<lambda>a. Show_address (address_of a)) (take m as))"
  proof -
    let ?pre = "[7, of_nat (3 + 4 * length as), of_nat (4 + 4 * m)] :: u8 list"
    have "?b = ?pre @ concat (take m as) @ concat (drop m as) @ 0 # t"
      by (simp add: route_options_def flip: concat_append)
    moreover have "\<forall>a\<in>set (take m as). length a = 4" using assms(1) by (auto dest: in_set_takeD)
    moreover have "length (take m as) = m" "take m as \<noteq> []" using assms(2,3) by auto
    ultimately show ?thesis
      using addresses_loop_list [of "take m as" "int ?i" ?pre "concat (drop m as) @ 0 # t"] i(2,3) by (simp add: numeral_3_eq_3)
  qed
  ultimately show ?thesis using i(4) assms(5) unfolding route_shown_def by auto
qed

text \<open>C19: A recorded route of at most nine addresses is shown as the addresses recorded, in order; or as the same route,
  when the bytes remembered from the last one agree. As the comparison starts at the pointer, it leaves out
  the end of the last address.\<close>

theorem pr_options_route:
  assumes "\<forall>a\<in>set as. length a = 4" "0 < m" "m \<le> length as" "length as \<le> 9" "length (old_rr st) = 40"
  shows "pr_options s (route_options as m @ t) (24 + 4 * int (length as)) st =
    (if old_rrlen st = int (route_bytes as m) \<and> take (route_bytes as m) (old_rr st) = route_seen as m \<and> \<not> flag s F_FLOOD
     then Some ([Show_same_route], st)
     else Some (Show_route # map (\<lambda>a. Show_address (address_of a)) (take m as),
            \<lparr>old_rrlen = int (route_bytes as m), old_rr = route_seen as m @ drop (route_bytes as m) (old_rr st)\<rparr>))"
proof -
  let ?b = "route_options as m @ t"
  have len: "length (concat as) = 4 * length as" using assms(1) by (induction as) auto
  have u: "uint (of_nat (3 + 4 * length as) :: u8) = 3 + 4 * int (length as)" "uint (of_nat (4 + 4 * m) :: u8) = 4 + 4 * int m"
    using assms(3,4) by (simp_all add: uint_nat unat_of_nat take_bit_nat_eq_self del: of_nat_add of_nat_mult of_nat_numeral)
  have fetch: "fetch_byte ?b 0 = Some 7" "fetch_byte ?b (0 + 1) = Some (of_nat (3 + 4 * length as))"
    "fetch_byte ?b (0 + 2) = Some (of_nat (4 + 4 * m))" "fetch_byte ?b (3 + 4 * length as) = Some 0"
    by (simp_all add: fetch_byte_def route_options_def nth_append len)
  have i: "min (4 + 4 * int m) (3 + 4 * int (length as)) - 4 = int (route_bytes as m)" "0 < route_bytes as m"
    using assms(2,3) by (auto simp: route_bytes_def min_def)
  have rest: "options_loop flood ?b (3 + 4 * length as) 1 st' = Some ([], st')" for flood st'
    by (subst options_loop.simps) (simp only: fetch option.case, simp)
  have step: "show_option flood ?b 0 7 st = route_shown flood ?b 0 (int (route_bytes as m)) st" for flood
    using i(2) unfolding show_option_def record_route_option_def fetch option.case prod.case u i(1) Let_def by simp
  have more: "unat (of_nat (3 + 4 * length as) :: u8) = 3 + 4 * length as"
    using u(1) by (metis nat_int of_nat_add of_nat_mult of_nat_numeral unat_eq_nat_uint)
  have "options_loop flood ?b 0 (4 + 4 * int (length as)) st =
      route_shown flood ?b 0 (int (route_bytes as m)) st" for flood
  proof (cases "route_shown flood ?b 0 (int (route_bytes as m)) st")
    case None
    then show ?thesis by (subst options_loop.simps) (simp only: fetch option.case u step, simp)
  next
    case (Some r)
    obtain out st' where r: "r = (out, st')" by (cases r)
    show ?thesis
      by (subst options_loop.simps) (simp only: fetch option.case u step Some r prod.case more, simp add: rest)
  qed
  then show ?thesis using route_shown_list [OF assms] by (simp add: pr_options_def)
qed

theorem pr_options_route_witness:
  "pr_options ping_globals (route_options [[10, 0, 0, 1], [10, 0, 0, 2], [0, 0, 0, 0]] 2 @ replicate 8 0) (24 + 4 * int (length [[10 :: u8, 0, 0, 1], [10, 0, 0, 2], [0, 0, 0, 0]]))
      last_route_init =
    (if old_rrlen last_route_init = int (route_bytes [[10, 0, 0, 1], [10, 0, 0, 2], [0, 0, 0, 0]] 2) \<and>
        take (route_bytes [[10, 0, 0, 1], [10, 0, 0, 2], [0, 0, 0, 0]] 2) (old_rr last_route_init) =
          route_seen [[10, 0, 0, 1], [10, 0, 0, 2], [0, 0, 0, 0]] 2 \<and> \<not> flag ping_globals F_FLOOD
     then Some ([Show_same_route], last_route_init)
     else Some (Show_route # map (\<lambda>a. Show_address (address_of a)) (take 2 [[10, 0, 0, 1], [10, 0, 0, 2], [0, 0, 0, 0]]),
            \<lparr>old_rrlen = int (route_bytes [[10, 0, 0, 1], [10, 0, 0, 2], [0, 0, 0, 0]] 2),
             old_rr = route_seen [[10, 0, 0, 1], [10, 0, 0, 2], [0, 0, 0, 0]] 2 @
               drop (route_bytes [[10, 0, 0, 1], [10, 0, 0, 2], [0, 0, 0, 0]] 2) (old_rr last_route_init)\<rparr>))"
  by (rule pr_options_route) (simp_all add: last_route_init_def)

text \<open>Two replies whose routes end in different addresses: the second is reported as the same route.\<close>

lemma route_mistaken:
  "case pr_options ping_globals (route_options [[10, 0, 0, 1], [10, 0, 7, 7]] 2) 32 last_route_init of
     None \<Rightarrow> False
   | Some (out, st) \<Rightarrow>
       map_option fst (pr_options ping_globals (route_options [[10, 0, 0, 1], [10, 0, 8, 8]] 2) 32 st) = Some [Show_same_route]"
  by code_simp

end
