(* ===== verification/Spec2Isabelle.thy ===== *)
theory Spec2Isabelle
  imports Linked_List Address Ethernet_Frames Arp_Frames Icmp_Fragments Service Dispatch Json_Minify Ping_Options Ping_Ip_Options
begin

text \<open>
  Verification of the Pirate server, a tester for the robustness of network devices.

  \<^bold>\<open>The program.\<close> \<open>main\<close> (program/main.c) sets up three global lists (missions, the test environment,
  feedback) and starts a web server and two threads: one that pings the targets of the environment, one
  that would run the missions and is commented out. The web server calls the handlers of ui/ui.c. They
  parse the JSON body of a request with comm/cJSON.c, change the lists and answer with a text; a start
  order goes through \<open>command_control\<close> to \<open>monitor_ctrl\<close> (monitor/monitor.c), which starts a thread in
  \<open>ping_main\<close> (monitor/ping.c). Its loop (\<open>main_loop\<close> of monitor/ping_common.c) sends probes, reads
  replies and errors and hands each to \<open>Feedback\<close> of ui/ui.c; a timer of the web server drains that list
  into a JSON array and sends it to the client on its websocket. Missions would be run by the traffic
  generators of network/, which build frames with libnet and keep a rate with \<open>do_sleep\<close>.

  \<^bold>\<open>Theories and sources.\<close> Names of definitions are those of the code but where HOL has the name.

  \<^item> \<open>Prelude\<close>: machine integers (\<open>int\<close> 32 bits, \<open>long\<close> 64, little endian), the control flow of a C body
    (\<open>Next\<close>, \<open>Return\<close>, \<open>Exit\<close>, \<open>Trap\<close>), bounded loops, the locale \<open>invariant_of\<close> of step relations.
  \<^item> \<open>Linked_List\<close>: include/mylist.h and network/list.h over a store of links; the operations are shown to
    simulate those on lists, and both headers interpret the locale of a first-in first-out queue.
  \<^item> \<open>Timer\<close>: include/timer.h, include/define.h, comm/timer.c. \<open>Pacing\<close>: comm/sleep.c and \<open>do_sleep\<close> of
    network/network.c. \<open>Address\<close>: \<open>Get_long_address\<close> and \<open>__div64_32\<close> of network/network.c.
  \<^item> \<open>Net_World\<close>, \<open>Jobs\<close>: the setting of the generators, the storms and helpers of network/network.c.
    \<open>Ethernet_Frames\<close>, \<open>Arp_Frames\<close>, \<open>Icmp_Frames\<close>, \<open>Icmp_Fragments\<close>: network/ethernet.c, arp.c, icmp.c; for
    each generator, which frames it sends, in which order, and whether it ends.
  \<^item> \<open>Json_String\<close>, \<open>Json_Number\<close>, \<open>Json\<close>, \<open>Json_Items\<close>, \<open>Json_Roundtrip\<close>, \<open>Json_Minify\<close>: comm/cJSON.c, with the blocks its
    printer and its string parser write into: bounds of every write, termination on every text, the
    round trip from tree to text to tree, and that minifying turns the one form of a printed text into the other.
  \<^item> \<open>Comm\<close>, \<open>Monitor\<close>, \<open>Ui\<close>: include/comm.h, monitor/monitor.c, ui/ui.c, one definition per handler.
    \<open>Server\<close>: the server as a step relation over the events from outside, with the invariant of its
    reachable states. \<open>Service\<close>: what a client that sends printed JSON objects observes, and which requests
    end the process. \<open>Dispatch\<close>: program/main.c and \<open>Test_Work\<close>.
  \<^item> \<open>Bpf\<close>: the packet filter machine and its check, network/libpcap/bpf/net/bpf_filter.c.
  \<^item> \<open>Ping_Common\<close>, \<open>Ping_Stats\<close>, \<open>Ping_Send\<close>, \<open>Ping_Recv\<close>, \<open>Ping_Filter\<close>, \<open>Ping_Options\<close>, \<open>Ping_Ip_Options\<close>: the operations of
    monitor/ping_common.h, ping_common.c and ping.c: window, bitmap of sequence numbers, statistics, probes,
    replies, errors, socket filter, options of the command line and of IP headers. \<open>Ping_Frame\<close>: what the sending and the receiving side leave
    alone. \<open>Ping_Main\<close>: the loop as a step relation over the answers of the system; it composes with
    \<open>Ui\<close> and \<open>Service\<close> in \<open>ping_reaches_client\<close>. \<open>Ping_Start\<close>: \<open>ping_main\<close> up to the loop.

  \<^bold>\<open>State.\<close> Global and static variables are the fields of a record per component: \<open>server\<close> (main.c, ui.c,
  monitor.c), \<open>ping\<close> (ping_common.c, ping.c), \<open>start\<close> (the variables of \<open>ping_main\<close>), \<open>pacer\<close> (the static
  variables of \<open>do_sleep\<close>), \<open>net\<close> (frames sent, calls made). A dereferenced null pointer and an access outside
  a block are \<open>Trap\<close>, or \<open>Fault\<close> in the theories on JSON. Where the code goes on after reading what was never set, the value is a parameter.

  \<^bold>\<open>What is outside.\<close> libnet, the clocks, \<open>rand\<close>, sockets, the resolver, the threads library and the floating
  point unit are the records \<open>env\<close>, \<open>sys\<close>, \<open>netsys\<close>, \<open>platform\<close> and \<open>fpu\<close>, whose answers may differ from call to
  call. Hypotheses about them are named: \<open>clock_advances\<close> (a clock that passes every bound), \<open>paced_ok\<close>
  (a speed that does not divide by zero), \<open>exact_ints\<close> (integers of 53 bits are exact in a \<open>double\<close>), \<open>sane_round\<close>
  (rounding is monotone). A \<open>double\<close> is a real number with a rounding function.

  \<^bold>\<open>Bounds and fuel.\<close> A loop that need not end has fuel: the generators and storms, the filter machine and the
  parser of JSON. The theorems of termination give an amount that suffices: 7909 iterations for
  \<open>Icmp_Grammar\<close>, the number of instructions for a filter program, one more than twice the length of the text for the parser.
  \<open>write_stdout\<close>, which does not end, is a \<open>partial_function\<close> whose value is \<open>None\<close>. \<open>main_loop\<close> and the
  server have no fuel; they are relations. Counters that grow by one per packet are not cut off at 64 bits.

  \<^bold>\<open>Not modelled.\<close> libnet, the rest of libpcap and mongoose.c, third-party libraries kept in the tree: the
  program uses their interfaces only. Text that is only printed (\<open>pr_iph\<close>, \<open>usage\<close>, the reports of
  ping on the terminal), logging and locks. Of cJSON.c the release of memory, failed allocations and
  references shared between trees. The conversions of comm/timer.c in \<open>float\<close>; the handler that
  prints a backtrace, \<open>Uninit\<close>, which is never reached, and \<open>test_main\<close> of main.c; \<open>get_sum\<close> of icmp.c, a
  checksum libnet computes, and \<open>ping\<close> there, an example that writes one packet for ever.
\<close>

end
